(* ===== verification/Prelude.thy ===== *)
theory Prelude
  imports Complex_Main "HOL-Library.AList" "HOL-Library.Word"
begin

text \<open>
  The shared layer of the development: the fragment of JavaScript the sources use, as HOL
  values.

  \<^item> \<open>val\<close>: what a request, a record or a reply carries (the language's values, with a
    stream as the list of what it yields and a storage part as a marked object);
  \<^item> ordered dictionaries: a JavaScript object or \<open>Map\<close> is an association list in insertion
    order, read by \<open>map_of\<close> and written by \<open>AList.update\<close>, which replaces in place or appends;
  \<^item> ordered sets: a JavaScript \<open>Set\<close> is a list without repetition, in insertion order;
  \<^item> a failing computation is a sum, \<open>Inl\<close> what was thrown and \<open>Inr\<close> what was returned;
  \<^item> numbers: \<open>Number(text)\<close> and the comparisons the sources make of its result;
  \<^item> decimal rendering of naturals and integers, with its inverse.

  Strings are lists of 8-bit characters, so a code unit above 255 has no representation here.
\<close>

section \<open>Collections of lemmas\<close>

named_theorems js_simps \<open>equations that evaluate the JavaScript layer\<close>
named_theorems result_simps \<open>inversion of sequenced computations\<close>

section \<open>Values\<close>

datatype val =
    Undef
  | Null
  | Bool bool
  | Num int
  | Str string
  | Arr "val list"
  | Obj "(string \<times> val) list"
  | Part "(string \<times> val) list"
  | View "nat list"
  | Stream bool "val list"

type_synonym props = "(string \<times> val) list"

definition is_nullish :: "val \<Rightarrow> bool" where
  "is_nullish v \<longleftrightarrow> v = Undef \<or> v = Null"

section \<open>Sequenced computations\<close>

definition rbind :: "'e + 'a \<Rightarrow> ('a \<Rightarrow> 'e + 'b) \<Rightarrow> 'e + 'b" where
  "rbind r f = (case r of Inl e \<Rightarrow> Inl e | Inr a \<Rightarrow> f a)"

lemma rbind_Inl [simp]: "rbind (Inl e) f = Inl e"
  by (simp add: rbind_def)

lemma rbind_Inr [simp]: "rbind (Inr a) f = f a"
  by (simp add: rbind_def)

lemma rbind_eq_Inr [result_simps]: "rbind r f = Inr b \<longleftrightarrow> (\<exists>a. r = Inr a \<and> f a = Inr b)"
  by (cases r) auto

lemma rbind_eq_Inl [result_simps]:
  "rbind r f = Inl e \<longleftrightarrow> r = Inl e \<or> (\<exists>a. r = Inr a \<and> f a = Inl e)"
  by (cases r) auto

section \<open>Ordered sets and dictionaries\<close>

definition sadd :: "'a \<Rightarrow> 'a list \<Rightarrow> 'a list" where
  "sadd x xs = (if x \<in> set xs then xs else xs @ [x])"

definition sdel :: "'a \<Rightarrow> 'a list \<Rightarrow> 'a list" where
  "sdel x xs = removeAll x xs"

lemma set_sadd [simp]: "set (sadd x xs) = insert x (set xs)"
  by (auto simp: sadd_def)

lemma set_sdel [simp]: "set (sdel x xs) = set xs - {x}"
  by (simp add: sdel_def)

lemma distinct_sadd [simp, intro]: "distinct xs \<Longrightarrow> distinct (sadd x xs)"
  by (simp add: sadd_def)

lemma distinct_sdel [simp, intro]: "distinct xs \<Longrightarrow> distinct (sdel x xs)"
  by (simp add: sdel_def distinct_removeAll)

lemma length_sadd_le: "length (sadd x xs) \<le> Suc (length xs)"
  by (simp add: sadd_def)

lemma length_sdel_le: "length (sdel x xs) \<le> length xs"
  by (simp add: sdel_def)

lemma length_sdel_mem: "distinct xs \<Longrightarrow> x \<in> set xs \<Longrightarrow> Suc (length (sdel x xs)) = length xs"
  by (induction xs) (auto simp: sdel_def)

text \<open>Reading a dictionary with a default, as \<open>map.get(key) ?? fallback\<close> does.\<close>

definition dget :: "'v \<Rightarrow> ('k \<times> 'v) list \<Rightarrow> 'k \<Rightarrow> 'v" where
  "dget d m k = (case map_of m k of None \<Rightarrow> d | Some v \<Rightarrow> v)"

lemma map_of_alist_update [simp]: "map_of (AList.update k v m) = (map_of m)(k \<mapsto> v)"
  by (simp add: update_conv')

lemma dget_update [simp]: "dget d (AList.update k v m) k' = (if k' = k then v else dget d m k')"
  by (simp add: dget_def)

lemma set_map_fst_update [simp]: "fst ` set (AList.update k v m) = insert k (fst ` set m)"
  by (simp add: dom_update)

lemma map_of_filter_key: "map_of (filter (\<lambda>(k, v). P k) m) k = (if P k then map_of m k else None)"
  by (induction m) auto

lemma distinct_fst_filter: "distinct (map fst m) \<Longrightarrow> distinct (map fst (filter P m))"
  by (induction m) auto

section \<open>Decimal rendering\<close>

definition digit :: "nat \<Rightarrow> char" where
  "digit n = char_of (48 + n)"

definition digit_value :: "char \<Rightarrow> nat" where
  "digit_value c = of_char c - 48"

definition is_digit :: "char \<Rightarrow> bool" where
  "is_digit c \<longleftrightarrow> 48 \<le> (of_char c :: nat) \<and> (of_char c :: nat) \<le> 57"

fun nat_str :: "nat \<Rightarrow> string" where
  "nat_str n = (if n < 10 then [digit n] else nat_str (n div 10) @ [digit (n mod 10)])"

declare nat_str.simps [simp del]

definition str_nat :: "string \<Rightarrow> nat" where
  "str_nat s = foldl (\<lambda>acc c. 10 * acc + digit_value c) 0 s"

definition int_str :: "int \<Rightarrow> string" where
  "int_str i = (if i < 0 then ''-'' @ nat_str (nat (- i)) else nat_str (nat i))"

lemma of_char_digit: "n < 10 \<Longrightarrow> of_char (digit n) = 48 + n"
  by (simp add: digit_def)

lemma is_digit_digit: "n < 10 \<Longrightarrow> is_digit (digit n)"
  unfolding is_digit_def by (subst of_char_digit, assumption)+ simp

lemma digit_value_digit: "n < 10 \<Longrightarrow> digit_value (digit n) = n"
  by (simp add: digit_value_def of_char_digit)

lemma str_nat_snoc: "str_nat (s @ [c]) = 10 * str_nat s + digit_value c"
  by (simp add: str_nat_def)

lemma str_nat_nat_str [simp]: "str_nat (nat_str n) = n"
proof (induction n rule: nat_str.induct)
  case (1 n)
  show ?case
  proof (cases "n < 10")
    case True
    then show ?thesis
      by (subst nat_str.simps) (simp add: str_nat_def digit_value_digit)
  next
    case False
    with "1.IH" have "str_nat (nat_str (n div 10)) = n div 10" by simp
    with False show ?thesis
      by (subst nat_str.simps) (simp add: str_nat_snoc digit_value_digit)
  qed
qed

lemma inj_nat_str: "nat_str m = nat_str n \<longleftrightarrow> m = n"
  by (metis str_nat_nat_str)

lemma nat_str_digits: "c \<in> set (nat_str n) \<Longrightarrow> is_digit c"
proof (induction n rule: nat_str.induct)
  case (1 n)
  then show ?case
    by (subst (asm) (2) nat_str.simps) (auto simp: is_digit_digit split: if_splits)
qed

lemma colon_no_digit [simp]: "\<not> is_digit (CHR '':'')"
  by (simp add: is_digit_def)

section \<open>Numbers\<close>

text \<open>
  What \<open>Number\<close> makes of a text: \<open>NaN\<close>, an infinity, or a finite number, held exactly (the
  rounding to a double is not modelled; only its overflow to infinity is). The grammar is the
  language's: surrounding white space is ignored, nothing at all is zero, a decimal literal may
  carry a sign, a fraction and an exponent, and the other radixes carry neither.
\<close>

datatype jsnum = NaN | Inf bool | Fin rat

definition is_space :: "char \<Rightarrow> bool" where
  "is_space c \<longleftrightarrow> c = CHR '' '' \<or> (9 \<le> (of_char c :: nat) \<and> (of_char c :: nat) \<le> 13)"

definition trim :: "string \<Rightarrow> string" where
  "trim s = rev (dropWhile is_space (rev (dropWhile is_space s)))"

definition radix_value :: "char \<Rightarrow> nat" where
  "radix_value c = (let n = of_char c in
     if 48 \<le> n \<and> n \<le> 57 then n - 48
     else if 97 \<le> n \<and> n \<le> 102 then n - 87
     else if 65 \<le> n \<and> n \<le> 70 then n - 55
     else 99)"

definition radix_number :: "nat \<Rightarrow> string \<Rightarrow> jsnum" where
  "radix_number b s =
     (if s \<noteq> [] \<and> list_all (\<lambda>c. radix_value c < b) s
      then Fin (of_nat (foldl (\<lambda>acc c. b * acc + radix_value c) 0 s))
      else NaN)"

definition exponent_value :: "string \<Rightarrow> int option" where
  "exponent_value s =
     (case s of
        [] \<Rightarrow> None
      | c # r \<Rightarrow>
          let (sg, ds) = (if c = CHR ''-'' then (- 1, r) else if c = CHR ''+'' then (1, r) else (1, s))
          in if ds \<noteq> [] \<and> list_all is_digit ds then Some (sg * int (str_nat ds)) else None)"

definition max_double :: rat where
  "max_double = 2 ^ 1024 - 2 ^ 970"

definition finite_number :: "rat \<Rightarrow> jsnum" where
  "finite_number q = (if max_double \<le> \<bar>q\<bar> then Inf (0 < q) else Fin q)"

definition unsigned_number :: "rat \<Rightarrow> string \<Rightarrow> jsnum" where
  "unsigned_number sg s =
     (if s = ''Infinity'' then Inf (0 < sg)
      else
        let whole = takeWhile is_digit s;
            rest = dropWhile is_digit s;
            (point, rest') = (case rest of c # r \<Rightarrow> if c = CHR ''.'' then (True, r) else (False, rest) | [] \<Rightarrow> (False, []));
            frac = (if point then takeWhile is_digit rest' else []);
            tail = (if point then dropWhile is_digit rest' else rest')
        in if whole = [] \<and> frac = [] then NaN
           else
             let mantissa = of_nat (str_nat (whole @ frac)) / 10 ^ length frac
             in case tail of
                  [] \<Rightarrow> finite_number (sg * mantissa)
                | c # r \<Rightarrow>
                    if c = CHR ''e'' \<or> c = CHR ''E''
                    then (case exponent_value r of
                            None \<Rightarrow> NaN
                          | Some k \<Rightarrow> finite_number (sg * mantissa *
                              (if k < 0 then 1 / 10 ^ nat (- k) else 10 ^ nat k)))
                    else NaN)"

definition js_Number :: "string \<Rightarrow> jsnum" where
  "js_Number text =
     (let s = trim text in
      if s = [] then Fin 0
      else if take 2 s = ''0x'' \<or> take 2 s = ''0X'' then radix_number 16 (drop 2 s)
      else if take 2 s = ''0o'' \<or> take 2 s = ''0O'' then radix_number 8 (drop 2 s)
      else if take 2 s = ''0b'' \<or> take 2 s = ''0B'' then radix_number 2 (drop 2 s)
      else if hd s = CHR ''-'' then unsigned_number (- 1) (tl s)
      else if hd s = CHR ''+'' then unsigned_number 1 (tl s)
      else unsigned_number 1 s)"

text \<open>\<open>Number(undefined)\<close> is not a number, and that is what an absent variable reads as.\<close>

definition js_Number_opt :: "string option \<Rightarrow> jsnum" where
  "js_Number_opt t = (case t of None \<Rightarrow> NaN | Some s \<Rightarrow> js_Number s)"

text \<open>The relational operators: every one of them is false of \<open>NaN\<close>.\<close>

fun num_lt :: "jsnum \<Rightarrow> jsnum \<Rightarrow> bool" where
  "num_lt NaN y = False"
| "num_lt x NaN = False"
| "num_lt (Fin p) (Fin q) = (p < q)"
| "num_lt (Fin p) (Inf b) = b"
| "num_lt (Inf a) (Fin q) = (\<not> a)"
| "num_lt (Inf a) (Inf b) = (\<not> a \<and> b)"

fun num_le :: "jsnum \<Rightarrow> jsnum \<Rightarrow> bool" where
  "num_le NaN y = False"
| "num_le x NaN = False"
| "num_le (Fin p) (Fin q) = (p \<le> q)"
| "num_le (Fin p) (Inf b) = b"
| "num_le (Inf a) (Fin q) = (\<not> a)"
| "num_le (Inf a) (Inf b) = (a \<longrightarrow> b)"

definition is_finite :: "jsnum \<Rightarrow> bool" where
  "is_finite x \<longleftrightarrow> (\<exists>q. x = Fin q)"

lemma is_finite_simps [simp, code]:
  "is_finite (Fin q) = True" "is_finite NaN = False" "is_finite (Inf b) = False"
  by (simp_all add: is_finite_def)

definition is_integer :: "jsnum \<Rightarrow> bool" where
  "is_integer x = (case x of Fin q \<Rightarrow> of_int \<lfloor>q\<rfloor> = q | _ \<Rightarrow> False)"

abbreviation num_of_nat :: "nat \<Rightarrow> jsnum" where
  "num_of_nat n \<equiv> Fin (of_nat n)"

lemma num_lt_iff_not_le: "x \<noteq> NaN \<Longrightarrow> y \<noteq> NaN \<Longrightarrow> num_lt x y \<longleftrightarrow> \<not> num_le y x"
  by (cases x; cases y) auto

section \<open>Text\<close>

text \<open>\<open>text.split(separator)\<close> for a separator of one character.\<close>

fun split_on :: "char \<Rightarrow> string \<Rightarrow> string list" where
  "split_on d [] = [[]]"
| "split_on d (c # cs) =
     (if c = d then [] # split_on d cs
      else (case split_on d cs of [] \<Rightarrow> [[c]] | w # ws \<Rightarrow> (c # w) # ws))"

text \<open>\<open>parts.join(separator)\<close>.\<close>

fun join :: "string \<Rightarrow> string list \<Rightarrow> string" where
  "join d [] = []"
| "join d [w] = w"
| "join d (w # ws) = w @ d @ join d ws"

lemma split_on_not_Nil [simp]: "split_on d s \<noteq> []"
  by (induction s) (auto split: list.splits)

lemma join_split_on: "join [d] (split_on d s) = s"
proof (induction s)
  case (Cons c cs)
  then show ?case
    by (cases "split_on d cs"; cases "tl (split_on d cs)") (auto split: list.splits)
qed simp

lemma split_on_sep: "split_on d (u @ d # v) = split_on d u @ split_on d v"
proof (induction u)
  case (Cons c u)
  obtain w ws where "split_on d u = w # ws" by (cases "split_on d u") auto
  with Cons show ?case by simp
qed simp

lemma join_append: "us \<noteq> [] \<Longrightarrow> vs \<noteq> [] \<Longrightarrow> join d (us @ vs) = join d us @ d @ join d vs"
proof (induction d us rule: join.induct)
  case (2 d w)
  then show ?case by (cases vs) simp_all
qed simp_all

lemma split_on_free: "d \<notin> set w \<Longrightarrow> split_on d w = [w]"
  by (induction w) auto

lemma split_on_append: "d \<notin> set w \<Longrightarrow> split_on d (w @ d # s) = w # split_on d s"
  by (induction w) auto

lemma split_on_join:
  "ws \<noteq> [] \<Longrightarrow> \<forall>w \<in> set ws. d \<notin> set w \<Longrightarrow> split_on d (join [d] ws) = ws"
proof (induction "[d]" ws rule: join.induct)
  case (3 w v vs)
  then show ?case by (simp add: split_on_append)
qed (auto simp: split_on_free)

lemma inj_join:
  assumes "ws \<noteq> []" "vs \<noteq> []"
    and "\<forall>w \<in> set ws. d \<notin> set w" "\<forall>v \<in> set vs. d \<notin> set v"
    and "join [d] ws = join [d] vs"
  shows "ws = vs"
  using assms split_on_join by metis

end
