(* ===== verification/Exceptions.thy ===== *)
theory Exceptions
  imports Prelude
begin

text \<open>
  \<open>runtime/core/source/exceptions.ts\<close>: the codes a failure is known by, the classes that raise
  them, and whether a failure means the same thing on a later attempt. What a JavaScript
  \<open>catch\<close> may be handed is \<open>thrown\<close>: an exception of the runtime, an \<open>Error\<close> of the language,
  or any other value.
\<close>

section \<open>Codes\<close>

datatype code =
    System
  | Contract
  | RequestSyntax
  | RequestContract
  | RequestConflict
  | ResponseContract
  | EntityContract
  | EntityGuard
  | QuerySyntax
  | State
  | StateNotFound
  | StatePrecondition
  | StateConcurrency
  | StateInitialization
  | Duplicate
  | DuplicateCall
  | StateHistory
  | Communication
  | Transmission
  | Endpoint
  | Addressee
  | Abandoned
  | Disposed
  | Safety
  | Unreachable
  | Unserved
  | Loop
  | Misuse
  | Irresumable
  | Unstated
  | Unrecordable
  | Unrepeatable

fun codes :: "code \<Rightarrow> nat" where
  "codes System = 0"
| "codes Contract = 200"
| "codes RequestSyntax = 201"
| "codes RequestContract = 202"
| "codes RequestConflict = 203"
| "codes ResponseContract = 211"
| "codes EntityContract = 212"
| "codes EntityGuard = 213"
| "codes QuerySyntax = 221"
| "codes State = 300"
| "codes StateNotFound = 302"
| "codes StatePrecondition = 303"
| "codes StateConcurrency = 304"
| "codes StateInitialization = 305"
| "codes Duplicate = 306"
| "codes DuplicateCall = 307"
| "codes StateHistory = 308"
| "codes Communication = 400"
| "codes Transmission = 401"
| "codes Endpoint = 402"
| "codes Addressee = 403"
| "codes Abandoned = 404"
| "codes Disposed = 405"
| "codes Safety = 406"
| "codes Unreachable = 407"
| "codes Unserved = 408"
| "codes Loop = 500"
| "codes Misuse = 600"
| "codes Irresumable = 601"
| "codes Unstated = 602"
| "codes Unrecordable = 603"
| "codes Unrepeatable = 604"

fun code_name :: "code \<Rightarrow> string" where
  "code_name System = ''System''"
| "code_name Contract = ''Contract''"
| "code_name RequestSyntax = ''RequestSyntax''"
| "code_name RequestContract = ''RequestContract''"
| "code_name RequestConflict = ''RequestConflict''"
| "code_name ResponseContract = ''ResponseContract''"
| "code_name EntityContract = ''EntityContract''"
| "code_name EntityGuard = ''EntityGuard''"
| "code_name QuerySyntax = ''QuerySyntax''"
| "code_name State = ''State''"
| "code_name StateNotFound = ''StateNotFound''"
| "code_name StatePrecondition = ''StatePrecondition''"
| "code_name StateConcurrency = ''StateConcurrency''"
| "code_name StateInitialization = ''StateInitialization''"
| "code_name Duplicate = ''Duplicate''"
| "code_name DuplicateCall = ''DuplicateCall''"
| "code_name StateHistory = ''StateHistory''"
| "code_name Communication = ''Communication''"
| "code_name Transmission = ''Transmission''"
| "code_name Endpoint = ''Endpoint''"
| "code_name Addressee = ''Addressee''"
| "code_name Abandoned = ''Abandoned''"
| "code_name Disposed = ''Disposed''"
| "code_name Safety = ''Safety''"
| "code_name Unreachable = ''Unreachable''"
| "code_name Unserved = ''Unserved''"
| "code_name Loop = ''Loop''"
| "code_name Misuse = ''Misuse''"
| "code_name Irresumable = ''Irresumable''"
| "code_name Unstated = ''Unstated''"
| "code_name Unrecordable = ''Unrecordable''"
| "code_name Unrepeatable = ''Unrepeatable''"

definition code_keys :: "code list" where
  "code_keys =
     [System, Contract, RequestSyntax, RequestContract, RequestConflict, ResponseContract,
      EntityContract, EntityGuard, QuerySyntax, State, StateNotFound, StatePrecondition,
      StateConcurrency, StateInitialization, Duplicate, DuplicateCall, StateHistory,
      Communication, Transmission, Endpoint, Addressee, Abandoned, Disposed, Safety,
      Unreachable, Unserved, Loop, Misuse, Irresumable, Unstated, Unrecordable, Unrepeatable]"

datatype outcome = permanent_outcome | transient_outcome

fun OUTCOME :: "code \<Rightarrow> outcome" where
  "OUTCOME System = transient_outcome"
| "OUTCOME Contract = permanent_outcome"
| "OUTCOME RequestSyntax = permanent_outcome"
| "OUTCOME RequestContract = permanent_outcome"
| "OUTCOME RequestConflict = permanent_outcome"
| "OUTCOME ResponseContract = permanent_outcome"
| "OUTCOME EntityContract = permanent_outcome"
| "OUTCOME EntityGuard = permanent_outcome"
| "OUTCOME QuerySyntax = permanent_outcome"
| "OUTCOME State = permanent_outcome"
| "OUTCOME StateNotFound = transient_outcome"
| "OUTCOME StatePrecondition = permanent_outcome"
| "OUTCOME StateConcurrency = transient_outcome"
| "OUTCOME StateInitialization = permanent_outcome"
| "OUTCOME Duplicate = permanent_outcome"
| "OUTCOME DuplicateCall = permanent_outcome"
| "OUTCOME StateHistory = permanent_outcome"
| "OUTCOME Communication = transient_outcome"
| "OUTCOME Transmission = transient_outcome"
| "OUTCOME Endpoint = permanent_outcome"
| "OUTCOME Addressee = transient_outcome"
| "OUTCOME Abandoned = transient_outcome"
| "OUTCOME Disposed = permanent_outcome"
| "OUTCOME Safety = permanent_outcome"
| "OUTCOME Unreachable = transient_outcome"
| "OUTCOME Unserved = transient_outcome"
| "OUTCOME Loop = permanent_outcome"
| "OUTCOME Misuse = permanent_outcome"
| "OUTCOME Irresumable = permanent_outcome"
| "OUTCOME Unstated = permanent_outcome"
| "OUTCOME Unrecordable = permanent_outcome"
| "OUTCOME Unrepeatable = permanent_outcome"

section \<open>Exceptions\<close>

record exception =
  ex_code :: nat
  ex_message :: string
  ex_cause :: "val option"
  ex_detail :: props

record js_error =
  err_message :: string
  err_cause :: "val option"
  err_stack :: "string option"
  err_code :: "val option"

datatype thrown = Exc exception | Err js_error | Threw val

definition Exception :: "nat \<Rightarrow> string \<Rightarrow> val option \<Rightarrow> exception" where
  "Exception c m cause = \<lparr>ex_code = c, ex_message = m, ex_cause = cause, ex_detail = []\<rparr>"

definition SystemException :: "js_error \<Rightarrow> exception" where
  "SystemException e =
     (Exception (codes System) (err_message e) None)
       \<lparr>ex_detail := (case err_stack e of None \<Rightarrow> [] | Some s \<Rightarrow> [(''stack'', Str s)])\<rparr>"

definition SystemException_text :: "string \<Rightarrow> exception" where
  "SystemException_text m = Exception (codes System) m None"

definition LoopException :: "string \<Rightarrow> string list \<Rightarrow> exception" where
  "LoopException m trail =
     (Exception (codes Loop) m None)\<lparr>ex_detail := [(''trail'', Arr (map Str trail))]\<rparr>"

text \<open>
  What a contract refuses with: a text, the error of a schema (its properties), or \<open>null\<close>. Of
  the properties of a schema error five are copied, where it has them.
\<close>

datatype schema_error = Refused_text string | Refused_schema props | Refused_null

definition contract_keys :: "string list" where
  "contract_keys = [''keyword'', ''instancePath'', ''schemaPath'', ''params'', ''propertyName'']"

fun refusal_message :: "schema_error \<Rightarrow> string" where
  "refusal_message (Refused_text t) = t"
| "refusal_message (Refused_schema ps) =
     (case map_of ps ''message'' of Some (Str t) \<Rightarrow> t | _ \<Rightarrow> [])"
| "refusal_message Refused_null = []"

fun refusal_detail :: "schema_error \<Rightarrow> props" where
  "refusal_detail (Refused_schema ps) =
     List.map_filter (\<lambda>k. map_option (Pair k) (map_of ps k)) contract_keys"
| "refusal_detail _ = []"

definition ContractException :: "nat option \<Rightarrow> schema_error \<Rightarrow> val option \<Rightarrow> exception" where
  "ContractException c e cause =
     (Exception (case c of None \<Rightarrow> codes Contract | Some n \<Rightarrow> n) (refusal_message e) cause)
       \<lparr>ex_detail := refusal_detail e\<rparr>"

definition RequestContractException :: "schema_error \<Rightarrow> val option \<Rightarrow> exception" where
  "RequestContractException e = ContractException (Some (codes RequestContract)) e"

definition ResponseContractException :: "schema_error \<Rightarrow> val option \<Rightarrow> exception" where
  "ResponseContractException e = ContractException (Some (codes ResponseContract)) e"

definition EntityContractException :: "schema_error \<Rightarrow> val option \<Rightarrow> exception" where
  "EntityContractException e = ContractException (Some (codes EntityContract)) e"

definition EntityGuardException :: "string \<Rightarrow> val option \<Rightarrow> exception" where
  "EntityGuardException n = ContractException (Some (codes EntityGuard)) (Refused_text n)"

text \<open>The classes that follow a code: the message is the class, and what it was told after it.\<close>

definition derive_exception :: "code \<Rightarrow> string option \<Rightarrow> val option \<Rightarrow> exception" where
  "derive_exception c m cause =
     (let classname = code_name c @ ''Exception''
      in Exception (codes c)
           (case m of None \<Rightarrow> classname | Some t \<Rightarrow> classname @ '': '' @ t) cause)"

section \<open>Whether another attempt may end otherwise\<close>

definition from_entries :: "('k \<times> 'v) list \<Rightarrow> ('k \<times> 'v) list" where
  "from_entries kvs = foldl (\<lambda>m (k, v). AList.update k v m) [] kvs"

definition names :: "(nat \<times> code) list" where
  "names = from_entries (map (\<lambda>c. (codes c, c)) code_keys)"

definition PERMANENT :: "nat list" where
  "PERMANENT = map codes (filter (\<lambda>c. OUTCOME c = permanent_outcome) code_keys)"

fun code_of :: "thrown \<Rightarrow> val option" where
  "code_of (Exc x) = Some (Num (int (ex_code x)))"
| "code_of (Err e) = err_code e"
| "code_of (Threw (Obj ps)) = map_of ps ''code''"
| "code_of (Threw v) = None"

definition permanent :: "thrown \<Rightarrow> bool" where
  "permanent e = (case code_of e of Some (Num n) \<Rightarrow> n \<in> set (map int PERMANENT) | _ \<Rightarrow> False)"

section \<open>Properties\<close>

lemma code_keys_complete: "c \<in> set code_keys"
  by (cases c) (simp_all add: code_keys_def)

lemma codes_inject [simp]: "codes c = codes d \<longleftrightarrow> c = d"
  by (cases c; cases d; simp)

lemma from_entries_snoc: "from_entries (kvs @ [(k, v)]) = AList.update k v (from_entries kvs)"
  by (simp add: from_entries_def)

lemma map_of_from_entries: "map_of (from_entries kvs) = map_of (rev kvs)"
proof (induction kvs rule: rev_induct)
  case Nil
  then show ?case by (simp add: from_entries_def)
next
  case (snoc x xs)
  then show ?case by (cases x) (simp add: from_entries_snoc)
qed

lemma map_of_code_entries:
  "set cs = UNIV \<Longrightarrow> map_of (map (\<lambda>c. (codes c, c)) cs) n = Some c \<longleftrightarrow> n = codes c"
proof -
  have "map_of (map (\<lambda>c. (codes c, c)) cs) (codes c) = (if c \<in> set cs then Some c else None)"
    for cs and c
    by (induction cs) auto
  moreover have "map_of (map (\<lambda>c. (codes c, c)) cs) n = Some c \<Longrightarrow> n = codes c" for cs
    by (induction cs) (auto split: if_splits)
  ultimately show "set cs = UNIV \<Longrightarrow> ?thesis" by auto
qed

text \<open>
  The names of the codes are the codes inverted, with nothing lost: swapping the dictionary
  answers a name for a number exactly where a code of that name has that number, so no two codes
  share one.
\<close>

theorem names_inverts_codes: "map_of names n = Some c \<longleftrightarrow> n = codes c"
proof -
  have "set (rev code_keys) = UNIV" using code_keys_complete by auto
  then show ?thesis
    by (simp add: names_def map_of_from_entries rev_map map_of_code_entries)
qed

lemma permanent_code:
  "permanent e \<longleftrightarrow>
     (\<exists>c. code_of e = Some (Num (int (codes c))) \<and> OUTCOME c = permanent_outcome)"
proof -
  have "n \<in> set (map int PERMANENT) \<longleftrightarrow>
      (\<exists>c. n = int (codes c) \<and> OUTCOME c = permanent_outcome)" for n
    by (auto simp: PERMANENT_def code_keys_complete)
  then show ?thesis
    by (auto simp: permanent_def split: option.splits val.splits)
qed

text \<open>
  A failure is permanent exactly where the runtime raised it with a code whose outcome is
  permanent: the set of numbers built once from the table decides as the table does, and a
  failure whose code is no code of the runtime, or that has none, is worth another attempt.
\<close>

theorem permanent_iff:
  "permanent e \<longleftrightarrow>
     (\<exists>c. code_of e = Some (Num (int (codes c))) \<and> OUTCOME c = permanent_outcome)"
  by (rule permanent_code)

lemma OUTCOME_permanent_pos: "OUTCOME c = permanent_outcome \<Longrightarrow> codes c \<noteq> 0"
  by (cases c) simp_all

lemma system_is_transient: "\<not> permanent (Exc (SystemException e))"
  by (auto simp: permanent_code SystemException_def Exception_def dest: OUTCOME_permanent_pos)

end
