(* ===== verification/Identity.thy ===== *)
theory Identity
  imports Prelude
begin

text \<open>
  \<open>runtime/core/source/entities/newid.ts\<close>: the identity of a call that must be the same on every
  run that makes it, as a function of its parts. The hash (SHA-1 of the runtime's library) and the
  encoding of a text as bytes are arguments; the framing of the parts and the marking of the
  version and the variant are the code's.
\<close>

section \<open>Framing\<close>

datatype id_part = IdText string | IdNumber nat

fun part_string :: "id_part \<Rightarrow> string" where
  "part_string (IdText s) = s"
| "part_string (IdNumber n) = nat_str n"

definition name_of :: "id_part list \<Rightarrow> string" where
  "name_of parts =
     foldl (\<lambda>name part. let value = part_string part
                        in name @ nat_str (length value) @ '':'' @ value) [] parts"

section \<open>Derived identities\<close>

type_synonym byte = "8 word"

unbundle bit_operations_syntax

definition hex_digit :: "nat \<Rightarrow> char" where
  "hex_digit n = (if n < 10 then char_of (48 + n) else char_of (87 + n))"

definition hex_byte :: "byte \<Rightarrow> string" where
  "hex_byte b = [hex_digit (unat b div 16), hex_digit (unat b mod 16)]"

definition hex_string :: "byte list \<Rightarrow> string" where
  "hex_string bs = concat (map hex_byte bs)"

definition NAMESPACE :: "byte list" where
  "NAMESPACE = [0x26, 0xbd, 0x9b, 0xc6, 0x67, 0x5c, 0x44, 0x65,
                0x9b, 0x42, 0x9e, 0x00, 0x8b, 0x20, 0xbe, 0xfe]"

definition derive :: "(byte list \<Rightarrow> byte list) \<Rightarrow> (string \<Rightarrow> byte list) \<Rightarrow> id_part list \<Rightarrow> string" where
  "derive sha1 utf8 parts =
     (let hash = sha1 (NAMESPACE @ utf8 (name_of parts));
          hash = hash[6 := (hash ! 6 AND 0x0f) OR 0x50];
          hash = hash[8 := (hash ! 8 AND 0x3f) OR 0x80]
      in hex_string (take 16 hash))"

section \<open>No two sets of parts read as one name\<close>

lemma name_of_Nil [simp]: "name_of [] = []"
  by (simp add: name_of_def)

definition frame :: "string \<Rightarrow> string" where
  "frame s = nat_str (length s) @ CHR '':'' # s"

lemma foldl_frame: "foldl (\<lambda>name p. name @ f p) acc ps = acc @ concat (map f ps)"
  by (induction ps arbitrary: acc) auto

lemma name_of_frames: "name_of ps = concat (map frame (map part_string ps))"
  using foldl_frame [where f = "\<lambda>p. frame (part_string p)" and acc = "[]" and ps = ps]
  by (simp add: name_of_def Let_def frame_def comp_def)

lemma digits_prefix_unique:
  assumes "nat_str m @ CHR '':'' # s = nat_str n @ CHR '':'' # t"
  shows "m = n \<and> s = t"
proof -
  have "takeWhile is_digit (nat_str k @ CHR '':'' # r) = nat_str k"
    and "dropWhile is_digit (nat_str k @ CHR '':'' # r) = CHR '':'' # r" for k r
    by (simp_all add: takeWhile_append2 dropWhile_append2 nat_str_digits)
  then show ?thesis using assms by (metis inj_nat_str list.inject)
qed

lemma frames_inject: "concat (map frame ss) = concat (map frame ts) \<Longrightarrow> ss = ts"
proof (induction ss arbitrary: ts)
  case Nil
  then show ?case by (cases ts) (auto simp: frame_def)
next
  case (Cons s ss)
  then obtain t ts' where ts: "ts = t # ts'" by (cases ts) (auto simp: frame_def)
  with Cons.prems have eq: "nat_str (length s) @ CHR '':'' # (s @ concat (map frame ss)) =
      nat_str (length t) @ CHR '':'' # (t @ concat (map frame ts'))"
    by (simp only: frame_def [of s] frame_def [of t] list.map concat.simps append_assoc append_Cons)
  note parts = digits_prefix_unique [OF eq]
  then have "s = t" and "concat (map frame ss) = concat (map frame ts')" by auto
  with Cons.IH [of ts'] ts show ?case by blast
qed

text \<open>
  C23. Each part stands behind its own length, so two lists of parts are framed as one name only
  where they are the same parts, whatever the parts contain: a name decides whether two calls are
  one call.
\<close>

theorem name_of_injective: "name_of ps = name_of qs \<longleftrightarrow> map part_string ps = map part_string qs"
proof
  assume "name_of ps = name_of qs"
  then show "map part_string ps = map part_string qs"
    unfolding name_of_frames by (rule frames_inject)
qed (simp only: name_of_frames)

section \<open>The shape of a derived identity\<close>

lemma hex_string_nth:
  "i < length bs \<Longrightarrow> hex_string bs ! (2 * i) = hex_digit (unat (bs ! i) div 16) \<and>
     hex_string bs ! (2 * i + 1) = hex_digit (unat (bs ! i) mod 16)"
proof (induction bs arbitrary: i)
  case (Cons b bs)
  then show ?case by (cases i) (auto simp: hex_string_def hex_byte_def)
qed simp

lemma length_hex_string: "length (hex_string bs) = 2 * length bs"
  by (induction bs) (auto simp: hex_string_def hex_byte_def)

lemma hex_digit_hex: "n < 16 \<Longrightarrow> hex_digit n \<in> set ''0123456789abcdef''"
proof -
  have "list_all (\<lambda>n. hex_digit n \<in> set ''0123456789abcdef'') [0..<16]"
    by code_simp
  then show "n < 16 \<Longrightarrow> ?thesis" by (simp add: list_all_iff)
qed

lemma hex_string_hex: "set (hex_string bs) \<subseteq> set ''0123456789abcdef''"
proof
  fix c
  assume "c \<in> set (hex_string bs)"
  then obtain b where "c = hex_digit (unat (b :: byte) div 16) \<or> c = hex_digit (unat b mod 16)"
    by (auto simp: hex_string_def hex_byte_def)
  moreover have "unat b div 16 < 16" and "unat b mod 16 < 16"
    using unsigned_less [of b, where 'a = nat] by simp_all
  ultimately show "c \<in> set ''0123456789abcdef''" using hex_digit_hex by blast
qed

lemma hex_digit_values:
  "hex_digit 5 = CHR ''5''" "hex_digit 8 = CHR ''8''" "hex_digit 9 = CHR ''9''"
  "hex_digit 10 = CHR ''a''" "hex_digit 11 = CHR ''b''"
  by code_simp+

lemma unat_drop_bit_div: "unat (drop_bit n b :: byte) = unat b div 2 ^ n"
  by (simp only: unat_drop_bit_eq) (simp add: drop_bit_eq_div)

lemma version_nibble: "unat ((b AND 0x0f) OR 0x50 :: byte) div 16 = 5"
proof -
  have "drop_bit 4 ((b AND 0x0f) OR 0x50 :: byte) = 5" by simp
  then have "unat (drop_bit 4 ((b AND 0x0f) OR 0x50 :: byte)) = 5" by simp
  then show ?thesis by (simp only: unat_drop_bit_div) simp
qed

lemma variant_nibble: "unat ((b AND 0x3f) OR 0x80 :: byte) div 16 \<in> {8, 9, 10, 11}"
proof -
  have "drop_bit 6 ((b AND 0x3f) OR 0x80 :: byte) = 2" by simp
  then have "unat (drop_bit 6 ((b AND 0x3f) OR 0x80 :: byte)) = 2" by simp
  then have "unat ((b AND 0x3f) OR 0x80 :: byte) div 64 = 2" by (simp only: unat_drop_bit_div) simp
  then show ?thesis by auto
qed

text \<open>
  A derived identity has the shape a minted one has: thirty-two lower-case hexadecimal
  digits, the thirteenth saying version 5 and the seventeenth the RFC variant, whatever the hash
  answered.
\<close>

theorem derive_shape:
  assumes "\<And>bs. length (sha1 bs) = 20"
  shows "length (derive sha1 utf8 ps) = 32 \<and>
    set (derive sha1 utf8 ps) \<subseteq> set ''0123456789abcdef'' \<and>
    derive sha1 utf8 ps ! 12 = CHR ''5'' \<and>
    derive sha1 utf8 ps ! 16 \<in> set ''89ab''"
proof -
  define hash where "hash = sha1 (NAMESPACE @ utf8 (name_of ps))"
  define marked where "marked = take 16 (hash[6 := (hash ! 6 AND 0x0f) OR 0x50,
      8 := (hash[6 := (hash ! 6 AND 0x0f) OR 0x50] ! 8 AND 0x3f) OR 0x80])"
  have len: "length hash = 20" by (simp add: hash_def assms)
  have eq: "derive sha1 utf8 ps = hex_string marked"
    by (simp only: derive_def Let_def hash_def marked_def)
  have hex: "length (derive sha1 utf8 ps) = 32"
    "set (derive sha1 utf8 ps) \<subseteq> set ''0123456789abcdef''"
    using hex_string_hex by (simp_all add: eq length_hex_string marked_def len)
  have "marked ! 6 = (hash ! 6 AND 0x0f) OR 0x50" and "marked ! 8 = (hash ! 8 AND 0x3f) OR 0x80"
    and "length marked = 16"
    by (simp_all add: marked_def len)
  then have "hex_string marked ! 12 = hex_digit 5"
    and "hex_string marked ! 16 \<in> hex_digit ` {8, 9, 10, 11}"
    using hex_string_nth [of 6 marked] hex_string_nth [of 8 marked] version_nibble [of "hash ! 6"]
      variant_nibble [of "hash ! 8"]
    by auto
  then have "derive sha1 utf8 ps ! 12 = CHR ''5''" and "derive sha1 utf8 ps ! 16 \<in> set ''89ab''"
    by (auto simp: eq hex_digit_values)
  with hex show ?thesis by blast
qed

theorem derive_shape_witness:
  "length (derive (\<lambda>_. replicate 20 0xff) (\<lambda>_. []) [IdText ''a'', IdNumber 0]) = 32"
  using derive_shape [of "\<lambda>_. replicate 20 0xff" "\<lambda>_. []" "[IdText ''a'', IdNumber 0]"] by simp

end
