(* ===== verification/Trail.thy ===== *)
theory Trail
  imports Exceptions Identity
begin

text \<open>
  \<open>runtime/core/source/trail.ts\<close>: the chain of hops a call came by, the rule that refuses one
  that has come back to where it had been, and the count that gives every call an invocation
  makes an identity of its own.

  What the invocation carries in the asynchronous store of the process is an explicit record
  here, handed from step to step.
\<close>

section \<open>State\<close>

record invocation =
  hops :: "string list"
  inv_id :: "string option"
  inv_readonly :: bool
  inv_retried :: bool
  calls :: "(string \<times> nat) list"

record limits_rec =
  repeats :: jsnum
  depth :: jsnum

section \<open>Operations\<close>

definition trail_number :: "(string \<Rightarrow> string option) \<Rightarrow> string \<Rightarrow> nat \<Rightarrow> jsnum" where
  "trail_number env variable fallback =
     (let declared = js_Number_opt (env variable)
      in if declared = NaN \<or> num_lt declared (Fin 0) then num_of_nat fallback else declared)"

definition limits :: "(string \<Rightarrow> string option) \<Rightarrow> limits_rec" where
  "limits env = \<lparr>repeats = trail_number env ''TOA_TRAIL_REPEATS'' 3,
                 depth = trail_number env ''TOA_TRAIL_DEPTH'' 32\<rparr>"

definition ordinal :: "invocation \<Rightarrow> string \<Rightarrow> nat \<times> invocation" where
  "ordinal iv endpoint =
     (let made = dget 0 (calls iv) endpoint
      in (made, iv\<lparr>calls := AList.update endpoint (made + 1) (calls iv)\<rparr>))"

definition received :: "val \<Rightarrow> string list" where
  "received value =
     (case value of Arr vs \<Rightarrow> List.map_filter (\<lambda>v. case v of Str s \<Rightarrow> Some s | _ \<Rightarrow> None) vs | _ \<Rightarrow> [])"

definition event_hop :: "string \<Rightarrow> string" where
  "event_hop destination = CHR ''~'' # destination"

text \<open>
  \<open>hops.slice(0, depth)\<close> reads its bound as a whole number, dropping the fraction; a limit that
  is no number, or an infinite one, never cuts, as the comparison in front of it is false.
\<close>

fun slice_bound :: "jsnum \<Rightarrow> nat" where
  "slice_bound (Fin q) = nat \<lfloor>q\<rfloor>"
| "slice_bound _ = 0"

definition clip :: "string list \<Rightarrow> jsnum \<Rightarrow> string list" where
  "clip hs d = (if num_lt d (num_of_nat (length hs)) then take (slice_bound d) hs else hs)"

definition extend :: "val \<Rightarrow> string \<Rightarrow> limits_rec \<Rightarrow> exception + string list" where
  "extend inbound hop l =
     (let hs = clip (received inbound) (depth l);
          trail = hs @ [hop]
      in if repeats l = Fin 0 then Inr trail
         else if num_lt (depth l) (num_of_nat (length trail))
         then Inl (LoopException (''Call chain is '' @ nat_str (length trail) @ '' hops deep'') trail)
         else
           let seen = count_list hs hop
           in if num_le (repeats l) (num_of_nat (seen + 1))
              then Inl (LoopException ([CHR 0x27] @ hop @ [CHR 0x27] @ '' is hop '' @
                     nat_str (seen + 1) @ '' of this chain'') trail)
              else Inr trail)"

section \<open>Reading a chain off the wire\<close>

lemma received_strings [simp]: "received (Arr (map Str hs)) = hs"
  by (simp add: received_def map_filter_def comp_def)

lemma received_Nil [simp]: "received (Arr []) = []"
  by (simp add: received_def map_filter_def)

lemma received_Cons [simp]: "received (Arr (Str s # vs)) = s # received (Arr vs)"
  by (simp add: received_def map_filter_def)

lemma received_not_array [simp]:
  "received Undef = []" "received Null = []" "received (Str s) = []" "received (Num n) = []"
  by (simp_all add: received_def)

text \<open>The limits read off the environment are numbers, never negative.\<close>

definition lawful :: "limits_rec \<Rightarrow> bool" where
  "lawful l \<longleftrightarrow> num_le (Fin 0) (repeats l) \<and> num_le (Fin 0) (depth l)"

lemma trail_number_nonneg: "num_le (Fin 0) (trail_number env v n)"
  by (cases "js_Number_opt (env v)") (auto simp: trail_number_def Let_def)

lemma limits_lawful: "lawful (limits env)"
  by (simp add: lawful_def limits_def trail_number_nonneg)

section \<open>What one extension does\<close>

lemma length_clip: "num_le (Fin 0) d \<Longrightarrow> num_le (num_of_nat (length (clip hs d))) d"
proof (cases d)
  case (Fin q)
  assume "num_le (Fin 0) d"
  with Fin have "0 \<le> q" by simp
  then have "rat_of_nat (nat \<lfloor>q\<rfloor>) \<le> q" by (simp add: of_nat_nat)
  moreover have "rat_of_nat (length (take (nat \<lfloor>q\<rfloor>) hs)) \<le> rat_of_nat (nat \<lfloor>q\<rfloor>)" by simp
  ultimately have "rat_of_nat (length (take (nat \<lfloor>q\<rfloor>) hs)) \<le> q" by (rule order_trans [rotated])
  then show ?thesis using Fin by (auto simp: clip_def)
qed (auto simp: clip_def)

lemma clip_short: "num_le (num_of_nat (length hs)) d \<Longrightarrow> clip hs d = hs"
  by (cases d) (auto simp: clip_def)



section \<open>Chains\<close>

text \<open>
  The chains the runtime builds: one starts with nothing behind it, a call extends the one it is
  made under, and a delivery puts the event's own hop in front of the operation it reaches
  (\<open>Receiver.receive\<close> and then \<open>Component.invoke\<close>).
\<close>

inductive chain :: "limits_rec \<Rightarrow> string list \<Rightarrow> bool" for l where
  start: "chain l []"
| call: "chain l hs \<Longrightarrow> extend (Arr (map Str hs)) hop l = Inr hs' \<Longrightarrow> chain l hs'"
| delivery: "chain l hs \<Longrightarrow>
    extend (Arr (map Str (hs @ [event_hop d]))) hop l = Inr hs' \<Longrightarrow> chain l hs'"







text \<open>
  Every extension is decided by the chain and the limits alone. With the breaker off nothing
  is refused, and what is carried is still no longer than the depth and one hop. With it on, a
  call is refused exactly where it would be one hop past the depth or the last allowed repeat of
  its own hop, and the refusal names the whole chain and is permanent.
\<close>

theorem extend_decides:
  assumes "lawful l" and "num_le (num_of_nat (length hs)) (depth l)"
  shows "(repeats l = Fin 0 \<longrightarrow> extend (Arr (map Str hs)) hop l = Inr (hs @ [hop])) \<and>
    (repeats l \<noteq> Fin 0 \<longrightarrow>
      (if num_lt (depth l) (num_of_nat (length hs + 1)) \<or>
          num_le (repeats l) (num_of_nat (count_list hs hop + 1))
       then \<exists>x. extend (Arr (map Str hs)) hop l = Inl x \<and> permanent (Exc x) \<and>
              map_of (ex_detail x) ''trail'' = Some (Arr (map Str (hs @ [hop])))
       else extend (Arr (map Str hs)) hop l = Inr (hs @ [hop])))"
proof -
  have "permanent (Exc (LoopException m t))" for m t
    unfolding permanent_iff by (rule exI [of _ Loop]) (simp add: LoopException_def Exception_def)
  moreover have "map_of (ex_detail (LoopException m t)) ''trail'' = Some (Arr (map Str t))" for m t
    by (simp add: LoopException_def)
  ultimately show ?thesis
    by (simp add: extend_def Let_def clip_short [OF assms(2)])
qed

theorem extend_decides_witness:
  "\<exists>x. extend (Arr (map Str [''a'', ''b'', ''a''])) ''a'' \<lparr>repeats = Fin 3, depth = Fin 32\<rparr> = Inl x"
  using extend_decides [of "\<lparr>repeats = Fin 3, depth = Fin 32\<rparr>" "[''a'', ''b'', ''a'']" "''a''"]
  by (auto simp: lawful_def)

section \<open>Identities of the calls an invocation makes\<close>

text \<open>
  \<open>Call.#identity\<close>: the name a call made under an invocation is derived from. The list is the
  endpoints it calls, in the order the algorithm calls them.
\<close>

fun call_names :: "string \<Rightarrow> invocation \<Rightarrow> string list \<Rightarrow> string list" where
  "call_names serving iv [] = []"
| "call_names serving iv (target # rest) =
     (let (n, iv') = ordinal iv target
      in name_of [IdText serving, IdText target, IdNumber n] # call_names serving iv' rest)"

lemma ordinal_counts:
  "dget 0 (calls (snd (ordinal iv e))) e' = dget 0 (calls iv) e' + (if e' = e then 1 else 0)"
  by (simp add: ordinal_def Let_def)

lemma call_names_later:
  "m \<in> set (call_names serving iv es) \<Longrightarrow>
   \<exists>e n. m = name_of [IdText serving, IdText e, IdNumber n] \<and> dget 0 (calls iv) e \<le> n"
proof (induction es arbitrary: iv)
  case (Cons e es)
  let ?iv = "snd (ordinal iv e)"
  have names: "call_names serving iv (e # es) =
      name_of [IdText serving, IdText e, IdNumber (dget 0 (calls iv) e)] # call_names serving ?iv es"
    by (simp add: ordinal_def Let_def)
  have grow: "dget 0 (calls iv) e' \<le> dget 0 (calls ?iv) e'" for e'
    by (simp add: ordinal_counts)
  from Cons.prems Cons.IH [of ?iv] show ?case
    unfolding names by (auto dest: grow [THEN le_trans])
qed simp

text \<open>
  An invocation names every call it makes apart from every other: two calls to one endpoint
  differ in their ordinal and two to different endpoints in the endpoint, so no call is refused
  as a duplicate of another one of the same invocation.
\<close>

theorem call_names_distinct: "distinct (call_names serving iv es)"
proof (induction es arbitrary: iv)
  case (Cons e es)
  let ?iv = "snd (ordinal iv e)"
  let ?name = "name_of [IdText serving, IdText e, IdNumber (dget 0 (calls iv) e)]"
  have names: "call_names serving iv (e # es) = ?name # call_names serving ?iv es"
    by (simp add: ordinal_def Let_def)
  have "?name \<notin> set (call_names serving ?iv es)"
  proof
    assume "?name \<in> set (call_names serving ?iv es)"
    then obtain e' n where eq: "?name = name_of [IdText serving, IdText e', IdNumber n]"
      and le: "dget 0 (calls ?iv) e' \<le> n"
      using call_names_later by blast
    have "map part_string [IdText serving, IdText e, IdNumber (dget 0 (calls iv) e)] =
        map part_string [IdText serving, IdText e', IdNumber n]"
      using eq unfolding name_of_frames by (rule frames_inject)
    then have "e = e' \<and> dget 0 (calls iv) e = n" by (auto simp: inj_nat_str)
    with le show False by (auto simp: ordinal_counts)
  qed
  with Cons.IH names show ?case by simp
qed simp

end
