(* ===== verification/Contract.thy ===== *)
theory Contract
  imports Exceptions
begin

text \<open>
  \<open>runtime/core/source/contract\<close>: what a component states of itself to whoever calls it.

  \<^item> \<open>system.ts\<close>: an entity with what the runtime gives every entity left out, and put back
    (\<open>pack\<close>, \<open>unpack\<close>);
  \<^item> \<open>component.ts\<close>: the contract of a manifest and the declaration restored from it
    (\<open>component\<close>, \<open>restore\<close>);
  \<^item> \<open>request.ts\<close>, \<open>reply.ts\<close>, \<open>schemas.ts\<close>: the schemas a request and a reply are held to, and
    what an operation answers when it is asked to explain.

  A JSON value is \<open>json\<close>, an absent property is an absent key, and two declarations are compared
  as the code compares them, by what \<open>JSON.stringify\<close> writes. A schema is checked by a library
  outside the sources, so \<open>Contract.fit\<close> takes the validator as an argument.
\<close>

section \<open>JSON\<close>

datatype json =
    JNull
  | JBool bool
  | JNum int
  | JStr string
  | JArr "json list"
  | JObj "(string \<times> json) list"

type_synonym jprops = "(string \<times> json) list"

definition hex4 :: "nat \<Rightarrow> string" where
  "hex4 n = map (\<lambda>k. let d = (n div 16 ^ k) mod 16
                      in if d < 10 then char_of (48 + d) else char_of (87 + d)) [3, 2, 1, 0]"

definition escape :: "char \<Rightarrow> string" where
  "escape c =
     (if c = CHR 0x22 then [CHR 0x5C, CHR 0x22]
      else if c = CHR 0x5C then [CHR 0x5C, CHR 0x5C]
      else if c = CHR 0x08 then [CHR 0x5C, CHR ''b'']
      else if c = CHR 0x09 then [CHR 0x5C, CHR ''t'']
      else if c = CHR 0x0A then [CHR 0x5C, CHR ''n'']
      else if c = CHR 0x0C then [CHR 0x5C, CHR ''f'']
      else if c = CHR 0x0D then [CHR 0x5C, CHR ''r'']
      else if of_char c < (32 :: nat) then [CHR 0x5C, CHR ''u''] @ hex4 (of_char c)
      else [c])"

definition quote :: "string \<Rightarrow> string" where
  "quote s = [CHR 0x22] @ concat (map escape s) @ [CHR 0x22]"

fun stringify :: "json \<Rightarrow> string"
  and stringify_items :: "json list \<Rightarrow> string list"
  and stringify_props :: "jprops \<Rightarrow> string list" where
  "stringify JNull = ''null''"
| "stringify (JBool b) = (if b then ''true'' else ''false'')"
| "stringify (JNum n) = int_str n"
| "stringify (JStr s) = quote s"
| "stringify (JArr vs) = ''['' @ join '','' (stringify_items vs) @ '']''"
| "stringify (JObj ps) = ''{'' @ join '','' (stringify_props ps) @ ''}''"
| "stringify_items [] = []"
| "stringify_items (v # vs) = stringify v # stringify_items vs"
| "stringify_props [] = []"
| "stringify_props ((k, v) # ps) = (quote k @ '':'' @ stringify v) # stringify_props ps"

text \<open>Whether one declaration is the other, as written; an absent one is written as nothing.\<close>

definition same :: "json option \<Rightarrow> json option \<Rightarrow> bool" where
  "same one other \<longleftrightarrow> map_option stringify one = map_option stringify other"

text \<open>
  \<open>name in object\<close> answers for what the object inherits as well as for its own keys: the names
  every plain object has from its prototype.
\<close>

definition inherited :: "string list" where
  "inherited = [''constructor'', ''__defineGetter__'', ''__defineSetter__'', ''hasOwnProperty'',
     ''__lookupGetter__'', ''__lookupSetter__'', ''isPrototypeOf'', ''propertyIsEnumerable'',
     ''toString'', ''valueOf'', ''__proto__'', ''toLocaleString'']"

definition js_in :: "string \<Rightarrow> (string \<times> 'v) list \<Rightarrow> bool" where
  "js_in k obj \<longleftrightarrow> k \<in> fst ` set obj \<or> k \<in> set inherited"

text \<open>\<open>{ ...one, ...other }\<close>.\<close>

definition spread :: "(string \<times> 'v) list \<Rightarrow> (string \<times> 'v) list \<Rightarrow> (string \<times> 'v) list" where
  "spread one other = foldl (\<lambda>m (k, v). AList.update k v m) one other"

section \<open>Entities\<close>

record entity_decl =
  e_properties :: jprops
  e_required :: "string list option"
  e_system :: bool

definition ID :: json where
  "ID = JObj [(''type'', JStr ''string''), (''pattern'', JStr ''^[a-fA-F0-9]{32}$'')]"

definition SYSTEM :: jprops where
  "SYSTEM =
     [(''VERSION'', JObj [(''type'', JStr ''integer''), (''minimum'', JNum 0)]),
      (''CREATED'', JObj [(''type'', JStr ''integer''), (''format'', JStr ''epoch-millis'')]),
      (''UPDATED'', JObj [(''type'', JStr ''integer''), (''format'', JStr ''epoch-millis'')]),
      (''DELETED'', JObj [(''type'', JStr ''integer''), (''format'', JStr ''epoch-millis''),
         (''nullable'', JBool True)]),
      (''REGION'', JObj [(''type'', JStr ''integer''), (''minimum'', JNum 0)])]"

definition REQUIRED :: "string list" where
  "REQUIRED = ''id'' # map fst SYSTEM"

definition given :: "entity_decl \<Rightarrow> bool" where
  "given entity \<longleftrightarrow>
     list_all (\<lambda>(name, property). same (map_of (e_properties entity) name) (Some property)) SYSTEM \<and>
     list_all (\<lambda>name. case e_required entity of None \<Rightarrow> False | Some r \<Rightarrow> name \<in> set r) REQUIRED"

definition pack :: "entity_decl \<Rightarrow> entity_decl" where
  "pack entity =
     (if \<not> given entity then entity
      else
        let kept = filter (\<lambda>(name, property).
                     \<not> js_in name SYSTEM \<and> \<not> (name = ''id'' \<and> same (Some property) (Some ID)))
                     (e_properties entity);
            r = filter (\<lambda>name. name \<notin> set REQUIRED)
                  (case e_required entity of None \<Rightarrow> [] | Some r \<Rightarrow> r)
        in \<lparr>e_properties = kept, e_required = (if r = [] then None else Some r), e_system = True\<rparr>)"

definition unpack :: "entity_decl \<Rightarrow> entity_decl" where
  "unpack entity =
     (if \<not> e_system entity then entity
      else
        \<lparr>e_properties =
           spread
             (spread (e_properties entity)
               (if map_of (e_properties entity) ''id'' = None then [(''id'', ID)] else []))
             SYSTEM,
         e_required = Some ((case e_required entity of None \<Rightarrow> [] | Some r \<Rightarrow> r) @ REQUIRED),
         e_system = False\<rparr>)"

section \<open>Operations\<close>

definition KEYS :: "string list" where
  "KEYS = [''type'', ''scope'', ''query'', ''once'', ''stateful'', ''stream'', ''bindings'',
     ''description'', ''input'', ''output'', ''errors'']"

text \<open>Whether a schema says anything: \<open>null\<close> and an object without keys do not.\<close>

fun describes :: "json \<Rightarrow> bool" where
  "describes JNull = False"
| "describes (JObj ps) = (ps \<noteq> [])"
| "describes (JArr vs) = (vs \<noteq> [])"
| "describes (JStr s) = (s \<noteq> [])"
| "describes _ = False"

definition operation_stated :: "jprops \<Rightarrow> json option \<Rightarrow> string \<Rightarrow> json option" where
  "operation_stated defn bindings key =
     (case map_of defn key of
        None \<Rightarrow> None
      | Some value \<Rightarrow>
          if key = ''bindings'' \<and> same (Some value) bindings then None
          else if key = ''output'' \<and> \<not> describes value then None
          else if key = ''query'' \<and> value = JBool False \<and>
                  map_of defn ''scope'' = Some (JStr ''none'') then None
          else Some value)"

definition operation_contract :: "jprops \<Rightarrow> json option \<Rightarrow> jprops" where
  "operation_contract defn bindings =
     foldl (\<lambda>operation key.
              case operation_stated defn bindings key of
                None \<Rightarrow> operation
              | Some value \<Rightarrow> AList.update key value operation) [] KEYS"

text \<open>\<open>object.key ??= value\<close>: an absent or null property is written, any other is kept.\<close>

definition assign_nullish :: "string \<Rightarrow> json option \<Rightarrow> jprops \<Rightarrow> jprops" where
  "assign_nullish k v ps =
     (case map_of ps k of
        None \<Rightarrow> (case v of None \<Rightarrow> ps | Some x \<Rightarrow> AList.update k x ps)
      | Some JNull \<Rightarrow> (case v of None \<Rightarrow> AList.delete k ps | Some x \<Rightarrow> AList.update k x ps)
      | Some _ \<Rightarrow> ps)"

definition declared :: "jprops \<Rightarrow> json option \<Rightarrow> jprops" where
  "declared defn bindings =
     (let operation = assign_nullish ''bindings'' bindings defn
      in if map_of operation ''scope'' = Some (JStr ''none'')
         then assign_nullish ''query'' (Some (JBool False)) operation
         else operation)"

section \<open>Components\<close>

record contract =
  c_version :: "json option"
  c_bindings :: "json option"
  c_entity :: "entity_decl option"
  c_operations :: "(string \<times> jprops) list option"
  c_events :: "(string \<times> jprops) list option"

definition component_contract :: "contract \<Rightarrow> contract" where
  "component_contract manifest =
     \<lparr>c_version = c_version manifest,
      c_bindings = c_bindings manifest,
      c_entity = map_option (\<lambda>e. pack \<lparr>e_properties = e_properties e, e_required = e_required e, e_system = False\<rparr>)
                 (c_entity manifest),
      c_operations = map_option (map (\<lambda>(endpoint, d). (endpoint, operation_contract d (c_bindings manifest))))
                     (c_operations manifest),
      c_events = map_option (map (\<lambda>(event, d).
                   (event, (case map_of d ''binding'' of None \<Rightarrow> [] | Some b \<Rightarrow> [(''binding'', b)]))))
                 (c_events manifest)\<rparr>"

definition restore_contract :: "contract \<Rightarrow> contract" where
  "restore_contract c =
     c\<lparr>c_entity := map_option unpack (c_entity c),
       c_operations := map_option (map (\<lambda>(endpoint, d). (endpoint, declared d (c_bindings c)))) (c_operations c)\<rparr>"

section \<open>What is left out is put back\<close>

lemma same_refl [simp]: "same a a"
  by (simp add: same_def)

lemma same_sym: "same a b \<Longrightarrow> same b a"
  by (simp add: same_def)

lemma map_of_spread:
  "map_of (spread one other) k = (case map_of (rev other) k of Some v \<Rightarrow> Some v | None \<Rightarrow> map_of one k)"
proof (induction other rule: rev_induct)
  case Nil
  then show ?case by (simp add: spread_def)
next
  case (snoc x xs)
  obtain a b where "x = (a, b)" by (cases x)
  with snoc show ?case by (auto simp: spread_def split: option.splits)
qed

lemma SYSTEM_keys: "fst ` set SYSTEM = {''VERSION'', ''CREATED'', ''UPDATED'', ''DELETED'', ''REGION''}"
  by (auto simp: SYSTEM_def)

lemma map_of_SYSTEM_rev: "map_of (rev SYSTEM) = map_of SYSTEM"
  by (simp add: SYSTEM_def fun_eq_iff)

lemma map_of_SYSTEM_None: "map_of SYSTEM k = None \<longleftrightarrow> k \<notin> fst ` set SYSTEM"
  by (rule map_of_eq_None_iff)

lemma given_system: "given e \<Longrightarrow> map_of SYSTEM k = Some p \<Longrightarrow> same (map_of (e_properties e) k) (Some p)"
  by (auto simp: given_def list_all_iff dest: map_of_SomeD)

lemma given_required: "given e \<Longrightarrow> \<exists>r. e_required e = Some r \<and> set REQUIRED \<subseteq> set r"
  by (cases "e_required e") (auto simp: given_def list_all_iff REQUIRED_def)

lemma map_of_pack:
  assumes "given e" "distinct (map fst (e_properties e))"
  shows "map_of (e_properties (pack e)) k =
    (if js_in k SYSTEM \<or> k = ''id'' \<and> same (map_of (e_properties e) k) (Some ID) then None
     else map_of (e_properties e) k)"
proof -
  have "map_of (filter (\<lambda>(n, p). \<not> js_in n SYSTEM \<and> \<not> (n = ''id'' \<and> same (Some p) (Some ID))) m) k =
      (if js_in k SYSTEM \<or> k = ''id'' \<and> same (map_of m k) (Some ID) then None else map_of m k)"
    if "distinct (map fst m)" for m
    using that
  proof (induction m)
    case (Cons x m)
    obtain n p where x: "x = (n, p)" by (cases x)
    from Cons.prems x have "map_of m n = None" by (simp add: map_of_eq_None_iff)
    with Cons x show ?case by (auto simp: same_def)
  qed (simp add: same_def)
  with assms show ?thesis by (simp add: pack_def Let_def)
qed

lemma e_system_pack: "given e \<Longrightarrow> e_system (pack e)"
  by (simp add: pack_def Let_def)

lemma map_of_unpack:
  assumes "e_system e"
  shows "map_of (e_properties (unpack e)) k =
    (case map_of SYSTEM k of Some p \<Rightarrow> Some p
     | None \<Rightarrow> if k = ''id'' \<and> map_of (e_properties e) k = None then Some ID
               else map_of (e_properties e) k)"
  using assms by (auto simp: unpack_def map_of_spread map_of_SYSTEM_rev split: option.splits)

lemma unpack_pack_property:
  assumes e: "given e" "distinct (map fst (e_properties e))"
    and k: "k \<notin> set inherited" and id: "map_of (e_properties e) ''id'' \<noteq> None"
  shows "same (map_of (e_properties (unpack (pack e))) k) (map_of (e_properties e) k)"
proof (cases "map_of SYSTEM k")
  case None
  then have "\<not> js_in k SYSTEM" using k by (simp add: js_in_def map_of_SYSTEM_None)
  with None e id show ?thesis
    by (auto simp: map_of_unpack e_system_pack map_of_pack same_sym)
next
  case (Some p)
  with e show ?thesis
    by (simp add: map_of_unpack e_system_pack given_system same_sym)
qed

lemma unpack_pack_required:
  assumes "given e"
  shows "set (the (e_required (unpack (pack e)))) = set (the (e_required e))"
proof -
  obtain r where r: "e_required e = Some r" "set REQUIRED \<subseteq> set r"
    using given_required [OF assms] by blast
  with assms show ?thesis
    by (auto simp: unpack_def pack_def Let_def filter_empty_conv)
qed

lemma system_unpack [simp]: "\<not> e_system (unpack e)"
  by (simp add: unpack_def)

text \<open>
  C31. An entity comes back from a contract as it was declared: every property as it was written,
  whether it was left out or carried, the same required names, and nothing that says it was ever
  packed. It is so for the names an object does not inherit.
\<close>

theorem unpack_pack:
  assumes "distinct (map fst (e_properties e))" "\<not> e_system e"
    and "map_of (e_properties e) ''id'' \<noteq> None"
    and "\<forall>k \<in> fst ` set (e_properties e). k \<notin> set inherited"
  shows "(\<forall>k. same (map_of (e_properties (unpack (pack e))) k) (map_of (e_properties e) k)) \<and>
    set (the (e_required (unpack (pack e)))) = set (the (e_required e)) \<and>
    \<not> e_system (unpack (pack e))"
proof (cases "given e")
  case False
  with assms(2) show ?thesis by (simp add: pack_def unpack_def)
next
  case True
  have "same (map_of (e_properties (unpack (pack e))) k) (map_of (e_properties e) k)" for k
  proof (cases "k \<in> set inherited")
    case False
    then show ?thesis by (rule unpack_pack_property [OF True assms(1) _ assms(3)])
  next
    case inherits: True
    then have k: "map_of (e_properties e) k = None" "map_of SYSTEM k = None" "k \<noteq> ''id''"
      using assms(4) by (auto simp: map_of_eq_None_iff inherited_def SYSTEM_keys)
    with True assms(1) show ?thesis
      by (simp add: map_of_unpack e_system_pack map_of_pack)
  qed
  with True show ?thesis by (simp add: unpack_pack_required)
qed

definition pot_decl :: entity_decl where
  "pot_decl = \<lparr>e_properties = (''id'', ID) # (''volume'', JObj [(''type'', JStr ''number'')]) # SYSTEM,
     e_required = Some (''volume'' # REQUIRED), e_system = False\<rparr>"

lemma pot_decl_given: "given pot_decl"
  by (simp add: given_def pot_decl_def SYSTEM_def REQUIRED_def)

theorem unpack_pack_witness:
  "same (map_of (e_properties (unpack (pack pot_decl))) ''volume'')
     (Some (JObj [(''type'', JStr ''number'')]))"
proof -
  have hyps: "distinct (map fst (e_properties pot_decl)) \<and> \<not> e_system pot_decl \<and>
      map_of (e_properties pot_decl) ''id'' \<noteq> None \<and>
      (\<forall>k \<in> fst ` set (e_properties pot_decl). k \<notin> set inherited)"
    by (simp add: pot_decl_def SYSTEM_def inherited_def)
  then show ?thesis
    using unpack_pack [of pot_decl] by (auto simp: pot_decl_def dest: spec [of _ "''volume''"])
qed

text \<open>
  A property whose name every object inherits (\<open>constructor\<close>, \<open>toString\<close>, \<open>valueOf\<close>, ...) is
  taken for one of the runtime's own where an entity is packed, because the test is \<open>name in
  SYSTEM\<close>, and nothing puts it back: the restored declaration has no such property.
\<close>

theorem pack_loses_inherited:
  assumes "given e" "distinct (map fst (e_properties e))" "k \<in> set inherited"
  shows "map_of (e_properties (unpack (pack e))) k = None"
proof -
  have "map_of SYSTEM k = None" "k \<noteq> ''id''"
    using assms(3) by (auto simp: map_of_SYSTEM_None SYSTEM_keys inherited_def)
  with assms show ?thesis by (simp add: map_of_unpack e_system_pack map_of_pack js_in_def)
qed

theorem pack_loses_inherited_witness:
  "let e = pot_decl\<lparr>e_properties := (''constructor'', JObj []) # e_properties pot_decl\<rparr>
   in map_of (e_properties e) ''constructor'' = Some (JObj []) \<and>
      map_of (e_properties (unpack (pack e))) ''constructor'' = None"
proof -
  let ?e = "pot_decl\<lparr>e_properties := (''constructor'', JObj []) # e_properties pot_decl\<rparr>"
  have "given ?e" "distinct (map fst (e_properties ?e))" "''constructor'' \<in> set inherited"
    by (simp_all add: given_def pot_decl_def SYSTEM_def REQUIRED_def inherited_def)
  then have "map_of (e_properties (unpack (pack ?e))) ''constructor'' = None"
    by (rule pack_loses_inherited)
  then show ?thesis by (simp add: Let_def)
qed

section \<open>What an operation stated is restored\<close>

lemma map_of_operation_fold:
  "map_of (foldl (\<lambda>m k. case f k of None \<Rightarrow> m | Some v \<Rightarrow> AList.update k v m) m0 ks) k =
     (if k \<in> set ks \<and> f k \<noteq> None then f k else map_of m0 k)"
proof (induction ks arbitrary: m0)
  case (Cons x xs)
  then show ?case by (cases "f x") auto
qed simp

lemma map_of_operation_contract:
  "map_of (operation_contract d b) k = (if k \<in> set KEYS then operation_stated d b k else None)"
  by (simp add: operation_contract_def map_of_operation_fold)

lemma map_of_assign_nullish:
  "map_of (assign_nullish k v ps) k' =
     (if k' = k \<and> (map_of ps k = None \<or> map_of ps k = Some JNull) then v else map_of ps k')"
  by (auto simp: assign_nullish_def delete_conv' split: option.splits json.splits)

lemma map_of_declared:
  "map_of (declared d b) k =
     (if k = ''bindings'' \<and> (map_of d k = None \<or> map_of d k = Some JNull) then b
      else if k = ''query'' \<and> map_of d ''scope'' = Some (JStr ''none'') \<and>
              (map_of d k = None \<or> map_of d k = Some JNull) then Some (JBool False)
      else map_of d k)"
proof -
  consider (bindings) "k = ''bindings''" | (query) "k = ''query''" | (other) "k \<noteq> ''bindings''" "k \<noteq> ''query''"
    by blast
  then show ?thesis
  proof cases
    case other
    then show ?thesis by (simp add: declared_def Let_def map_of_assign_nullish)
  qed (simp_all add: declared_def Let_def map_of_assign_nullish)
qed

lemma operation_stated_plain:
  "k \<notin> {''bindings'', ''output'', ''query''} \<Longrightarrow> operation_stated d b k = map_of d k"
  by (auto simp: operation_stated_def split: option.splits)

lemma restored_operation:
  defines "restored d b \<equiv> map_of (declared (operation_contract d b) b)"
  shows "k \<in> set KEYS - {''bindings'', ''output'', ''query''} \<Longrightarrow> restored d b k = map_of d k"
    and "map_of d ''bindings'' = Some v \<Longrightarrow> v \<noteq> JNull \<Longrightarrow> same (restored d b ''bindings'') (Some v)"
    and "map_of d ''output'' = Some v \<Longrightarrow> describes v \<Longrightarrow> restored d b ''output'' = Some v"
    and "map_of d ''query'' = Some v \<Longrightarrow> v \<noteq> JNull \<Longrightarrow> restored d b ''query'' = Some v"
proof -
  show "restored d b k = map_of d k" if "k \<in> set KEYS - {''bindings'', ''output'', ''query''}"
    using that by (simp add: restored_def map_of_declared map_of_operation_contract operation_stated_plain)
  have keys: "''bindings'' \<in> set KEYS" "''output'' \<in> set KEYS" "''query'' \<in> set KEYS" "''scope'' \<in> set KEYS"
    by (simp_all add: KEYS_def)
  note unfold = restored_def map_of_declared map_of_operation_contract keys operation_stated_def
  show "same (restored d b ''bindings'') (Some v)" if "map_of d ''bindings'' = Some v" "v \<noteq> JNull"
    using that by (auto simp: unfold intro: same_sym)
  show "restored d b ''output'' = Some v" if "map_of d ''output'' = Some v" "describes v"
    using that by (auto simp: unfold)
  show "restored d b ''query'' = Some v" if "map_of d ''query'' = Some v" "v \<noteq> JNull"
    using that by (auto simp: unfold split: option.splits)
qed

lemma map_of_map_snd: "map_of (map (\<lambda>(k, d). (k, f d)) m) k = map_option f (map_of m k)"
  by (induction m) auto

text \<open>
  A caller is held to what the component declared: restoring the contract of a manifest
  gives back every endpoint and event and no other, each operation with the type, scope, input,
  errors and the rest it states, with the bindings it was given whether it named them or the
  component did, and with the query and the output it declared, where they say anything.
\<close>

theorem restore_component:
  assumes "c_operations manifest = Some ops"
  shows "\<exists>ops'. c_operations (restore_contract (component_contract manifest)) = Some ops' \<and>
    map fst ops' = map fst ops \<and>
    (\<forall>endpoint d. map_of ops endpoint = Some d \<longrightarrow>
      (\<exists>d'. map_of ops' endpoint = Some d' \<and>
        (\<forall>k \<in> set KEYS - {''bindings'', ''output'', ''query''}. map_of d' k = map_of d k) \<and>
        (\<forall>v. map_of d ''bindings'' = Some v \<and> v \<noteq> JNull \<longrightarrow> same (map_of d' ''bindings'') (Some v)) \<and>
        (\<forall>v. map_of d ''output'' = Some v \<and> describes v \<longrightarrow> map_of d' ''output'' = Some v) \<and>
        (\<forall>v. map_of d ''query'' = Some v \<and> v \<noteq> JNull \<longrightarrow> map_of d' ''query'' = Some v)))"
proof -
  let ?b = "c_bindings manifest"
  let ?f = "\<lambda>d. declared (operation_contract d ?b) ?b"
  have ops': "c_operations (restore_contract (component_contract manifest)) =
      Some (map (\<lambda>(e, d). (e, ?f d)) ops)"
    by (simp add: assms restore_contract_def component_contract_def case_prod_beta comp_def)
  have "map fst (map (\<lambda>(e, d). (e, ?f d)) ops) = map fst ops" by (auto simp: comp_def)
  moreover have "map_of (map (\<lambda>(e, d). (e, ?f d)) ops) endpoint = Some (?f d)"
    if "map_of ops endpoint = Some d" for endpoint d
    using that by (simp add: map_of_map_snd)
  ultimately show ?thesis
    using ops' restored_operation [where b = ?b] by blast
qed

theorem restore_component_witness:
  "\<exists>ops'. c_operations (restore_contract (component_contract
      \<lparr>c_version = None, c_bindings = Some (JArr [JStr ''amqp'']), c_entity = None,
       c_operations = Some [(''get'', [(''scope'', JStr ''none''), (''query'', JBool False)])],
       c_events = None\<rparr>)) = Some ops' \<and> map fst ops' = [''get'']"
  using restore_component [of "\<lparr>c_version = None, c_bindings = Some (JArr [JStr ''amqp'']),
      c_entity = None, c_operations = Some [(''get'', [(''scope'', JStr ''none''), (''query'', JBool False)])],
      c_events = None\<rparr>"] by auto

end
