(* ===== verification/Schemas.thy ===== *)
theory Schemas
  imports Contract
begin

text \<open>
  \<open>contract/contract.ts\<close>, \<open>contract/request.ts\<close>, \<open>contract/reply.ts\<close> and \<open>contract/schemas.ts\<close>: the
  schemas a request and a reply are held to, built from what an operation declares, and what the
  operation says of itself when it is asked to explain. A declaration is a JSON object; the
  library that checks a value against a schema is the argument \<open>check\<close> of \<open>contract_fit\<close>.
\<close>

section \<open>A contract refuses with its own exception\<close>

definition contract_fit ::
  "(schema_error \<Rightarrow> val option \<Rightarrow> exception) \<Rightarrow> (val \<Rightarrow> props option) \<Rightarrow> val \<Rightarrow> exception + unit" where
  "contract_fit refusal check value =
     (case check value of
        None \<Rightarrow> Inr ()
      | Some error \<Rightarrow> Inl (refusal (Refused_schema error) (Some value)))"

section \<open>The query of a request\<close>

definition jtype :: "string \<Rightarrow> json" where
  "jtype t = JObj [(''type'', JStr t)]"

definition sort_pattern :: string where
  "sort_pattern = ''^'' @ [CHR 0x5C] @ ''w{1,32}(?:'' @ [CHR 0x5C] @ ''.'' @ [CHR 0x5C] @
     ''w{1,32}){0,7}(?::(?:asc|desc))?$''"

definition query_properties :: jprops where
  "query_properties =
     [(''id'', jtype ''string''),
      (''ids'', JObj [(''type'', JStr ''array''), (''uniqueItems'', JBool True), (''minItems'', JNum 1),
         (''items'', jtype ''string'')]),
      (''version'', JObj [(''type'', JStr ''integer''), (''minimum'', JNum 0)]),
      (''criteria'', jtype ''string''),
      (''search'', jtype ''string''),
      (''sample'', jtype ''number''),
      (''omit'', JObj [(''type'', JStr ''integer''), (''minimum'', JNum 0)]),
      (''limit'', JObj [(''type'', JStr ''integer''), (''minimum'', JNum 1)]),
      (''sort'', JObj [(''type'', JStr ''array''), (''uniqueItems'', JBool True), (''minItems'', JNum 1),
         (''items'', JObj [(''type'', JStr ''string''),
            (''pattern'', JStr sort_pattern)])]),
      (''projection'', JObj [(''type'', JStr ''array''), (''uniqueItems'', JBool True), (''minItems'', JNum 1),
         (''items'', JObj [(''type'', JStr ''string''), (''not'', JObj [(''const'', JStr ''id'')])])]),
      (''deleted'', jtype ''boolean''),
      (''token'', JObj [(''type'', JStr ''string''), (''minLength'', JNum 1)]),
      (''stop'', jtype ''boolean'')]"

definition UNMOVING :: string where
  "UNMOVING = ''^(?:id|CREATED)(?::(?:asc|desc))?$''"

definition drop_keys :: "string list \<Rightarrow> jprops \<Rightarrow> jprops" where
  "drop_keys ks ps = foldl (\<lambda>m k. AList.delete k m) ps ks"

definition is_str :: "jprops \<Rightarrow> string \<Rightarrow> string \<Rightarrow> bool" where
  "is_str d key s \<longleftrightarrow> map_of d key = Some (JStr s)"

text \<open>
  The properties a query of this operation may name, and the keywords put beside them: what a
  window of a stream is ordered by, and what bounds a set that is loaded whole.
\<close>

definition query_admitted :: "jprops \<Rightarrow> jprops \<Rightarrow> jprops" where
  "query_admitted d entity =
     (let q = (case map_of entity ''id'' of
                 None \<Rightarrow> AList.delete ''id'' query_properties
               | Some p \<Rightarrow> AList.update ''id'' p query_properties);
          q = (if is_str d ''type'' ''observation'' then drop_keys [''version''] q
               else drop_keys [''projection''] q)
      in if is_str d ''scope'' ''stream'' then drop_keys [''omit''] q
         else
           let q = drop_keys [''token'', ''stop''] q
           in if \<not> is_str d ''scope'' ''entries'' then drop_keys [''omit'', ''limit''] q else q)"

definition query_keywords :: "jprops \<Rightarrow> jprops" where
  "query_keywords d =
     (if is_str d ''scope'' ''stream''
      then [(''if'', JObj [(''anyOf'', JArr [JObj [(''required'', JArr [JStr ''limit''])],
                                           JObj [(''required'', JArr [JStr ''token''])]])]),
            (''then'', JObj [(''properties'', JObj [(''sort'', JObj [(''items'',
               JObj [(''pattern'', JStr UNMOVING)])])])])]
      else if is_str d ''scope'' ''entries''
      then [(''anyOf'', JArr [JObj [(''required'', JArr [JStr ''limit''])],
                            JObj [(''required'', JArr [JStr ''ids''])]]),
            (''dependentRequired'', JObj [(''omit'', JArr [JStr ''sort''])])]
      else [])"

definition query_schema :: "jprops \<Rightarrow> jprops \<Rightarrow> json" where
  "query_schema d entity =
     JObj ([(''type'', JStr ''object''), (''properties'', JObj (query_admitted d entity)),
            (''additionalProperties'', JBool False)] @ query_keywords d)"

section \<open>The schema of a request\<close>

text \<open>
  The input of an operation that takes a stream: what it declared, with the property that carries
  the stream admitted and required.
\<close>

definition streamed :: "jprops \<Rightarrow> string \<Rightarrow> jprops" where
  "streamed input property =
     (let ps = AList.update property (JObj [])
                 (case map_of input ''properties'' of Some (JObj ps) \<Rightarrow> ps | _ \<Rightarrow> []);
          req = (case map_of input ''required'' of Some (JArr rs) \<Rightarrow> rs @ [JStr property] | _ \<Rightarrow> [JStr property])
      in spread input [(''properties'', JObj ps), (''required'', JArr req)])"

definition declared_object :: "json option \<Rightarrow> jprops" where
  "declared_object j = (case j of Some (JObj ps) \<Rightarrow> ps | _ \<Rightarrow> [(''type'', JStr ''object'')])"

definition input_schema :: "jprops \<Rightarrow> json \<times> string list" where
  "input_schema d =
     (case map_of d ''stream'' of
        Some (JStr property) \<Rightarrow>
          (JObj (streamed (declared_object (map_of d ''input'')) property), [''input''])
      | _ \<Rightarrow>
          (case map_of d ''input'' of
             Some schema \<Rightarrow> (schema, [''input''])
           | None \<Rightarrow> (jtype ''null'', [])))"

definition request_schema :: "jprops \<Rightarrow> jprops option \<Rightarrow> json \<times> jprops" where
  "request_schema d entity =
     (let (input, req) = input_schema d;
          d = (if entity = None then AList.update ''query'' (JBool False) d else d);
          query = map_of d ''query'';
          req = (if query = Some (JBool True) then req @ [''query''] else req);
          base = [(''id'', jtype ''string''), (''authentic'', jtype ''boolean''),
                  (''task'', jtype ''boolean''), (''readonly'', jtype ''boolean''),
                  (''output'', JObj [(''type'', JStr ''array''), (''uniqueItems'', JBool True),
                     (''items'', jtype ''string'')]),
                  (''input'', input)];
          ps = (if query = Some (JBool False) then base @ [(''query'', jtype ''null'')]
                else base @ [(''query'', query_schema d (case entity of None \<Rightarrow> [] | Some e \<Rightarrow> e))]);
          schema = [(''type'', JStr ''object''), (''properties'', JObj ps),
                    (''additionalProperties'', JBool True)]
      in (JObj (if req \<noteq> [] then schema @ [(''required'', JArr (map JStr req))] else schema), d))"

section \<open>What an operation explains\<close>

definition entity_answer :: "entity_decl \<Rightarrow> json" where
  "entity_answer e =
     JObj ([(''type'', JStr ''object''), (''properties'', JObj (e_properties e))] @
       (case e_required e of None \<Rightarrow> [] | Some r \<Rightarrow> [(''required'', JArr (map JStr r))]))"

definition answers :: "jprops \<Rightarrow> entity_decl option \<Rightarrow> json option" where
  "answers d entity =
     (case entity of
        None \<Rightarrow> None
      | Some e \<Rightarrow>
          if \<not> (is_str d ''type'' ''transition'' \<or> is_str d ''type'' ''observation'' \<or>
                 is_str d ''type'' ''assignment'') then None
          else if is_str d ''scope'' ''entries''
          then Some (JObj [(''type'', JStr ''array''), (''items'', entity_answer e)])
          else if is_str d ''scope'' ''entry'' \<or> is_str d ''scope'' ''changeset''
          then Some (entity_answer e) else None)"

fun states_nothing :: "json option \<Rightarrow> bool" where
  "states_nothing None = True"
| "states_nothing (Some j) = (\<not> describes j)"

definition discovery_keys :: "string list" where
  "discovery_keys = [''description'', ''once'', ''stateful'', ''stream'', ''input'', ''output'', ''errors'']"

definition discovery :: "jprops \<Rightarrow> entity_decl option \<Rightarrow> jprops" where
  "discovery d entity =
     (let said = foldl (\<lambda>m k. case map_of d k of None \<Rightarrow> m | Some v \<Rightarrow> AList.update k v m) [] discovery_keys;
          said = (case map_of said ''once'' of
                    None \<Rightarrow> said
                  | Some v \<Rightarrow> AList.update ''once'' (JBool (v \<noteq> JBool False)) said)
      in if states_nothing (map_of said ''output'')
         then (case answers d entity of None \<Rightarrow> said | Some a \<Rightarrow> AList.update ''output'' a said)
         else said)"

section \<open>The schema of a reply\<close>

definition relaxed :: "jprops \<Rightarrow> jprops" where
  "relaxed output =
     (if is_str output ''type'' ''object'' then AList.update ''additionalProperties'' (JBool True) output
      else if is_str output ''type'' ''array''
      then (case map_of output ''items'' of
              Some (JObj items) \<Rightarrow>
                if is_str items ''type'' ''object''
                then AList.update ''items'' (JObj (AList.update ''additionalProperties'' (JBool True) items)) output
                else output
            | _ \<Rightarrow> output)
      else output)"

definition reply_schema :: "jprops option \<Rightarrow> string list option \<Rightarrow> json" where
  "reply_schema output errors =
     (let ps = (case output of None \<Rightarrow> [] | Some o' \<Rightarrow> [(''output'', JObj (relaxed o'))]);
          error = (case errors of
                     None \<Rightarrow> JBool False
                   | Some es \<Rightarrow>
                       JObj [(''type'', JStr ''object''),
                         (''properties'', JObj [(''code'', JObj [(''enum'', JArr (map JStr es))]), (''cause'', JObj [])]),
                         (''required'', JArr [JStr ''code'']), (''additionalProperties'', JBool False)])
      in JObj [(''type'', JStr ''object''), (''properties'', JObj (ps @ [(''error'', error)])),
               (''additionalProperties'', JBool False)])"

section \<open>Properties\<close>

lemma map_of_drop_keys: "map_of (drop_keys ks ps) k = (if k \<in> set ks then None else map_of ps k)"
  unfolding drop_keys_def by (induction ks arbitrary: ps) (auto simp: delete_conv')

lemma map_of_delete: "map_of (AList.delete k ps) k' = (if k' = k then None else map_of ps k')"
  by (simp add: delete_conv')

definition query_names :: "string list" where
  "query_names = map fst query_properties"

lemma map_of_query_properties: "map_of query_properties k = None \<longleftrightarrow> k \<notin> set query_names"
  by (simp add: query_names_def map_of_eq_None_iff)

lemma query_names_eq:
  "query_names = [''id'', ''ids'', ''version'', ''criteria'', ''search'', ''sample'', ''omit'', ''limit'',
     ''sort'', ''projection'', ''deleted'', ''token'', ''stop'']"
  by (simp add: query_names_def query_properties_def)

definition dropped_keys :: "jprops \<Rightarrow> string list" where
  "dropped_keys d =
     (if is_str d ''type'' ''observation'' then [''version''] else [''projection'']) @
     (if is_str d ''scope'' ''stream'' then [''omit'']
      else [''token'', ''stop''] @ (if is_str d ''scope'' ''entries'' then [] else [''omit'', ''limit'']))"

definition query_start :: "jprops \<Rightarrow> jprops" where
  "query_start entity =
     (case map_of entity ''id'' of
        None \<Rightarrow> AList.delete ''id'' query_properties
      | Some p \<Rightarrow> AList.update ''id'' p query_properties)"

lemma query_admitted_drops:
  "map_of (query_admitted d entity) k =
     (if k \<in> set (dropped_keys d) then None else map_of (query_start entity) k)"
  unfolding query_admitted_def Let_def query_start_def [symmetric] dropped_keys_def
  by (simp only: map_of_drop_keys if_distrib [of map_of] if_distribR set_append) simp

lemma query_start_names:
  "map_of (query_start entity) k \<noteq> None \<longleftrightarrow>
     k \<in> set query_names \<and> (k = ''id'' \<longrightarrow> map_of entity ''id'' \<noteq> None)"
proof (cases "k = ''id''")
  case True
  then show ?thesis by (simp add: query_start_def map_of_delete query_names_eq split: option.split)
next
  case False
  have "map_of query_properties k \<noteq> None \<longleftrightarrow> k \<in> set query_names"
    by (simp only: map_of_query_properties not_not)
  with False show ?thesis by (simp add: query_start_def map_of_delete split: option.split)
qed

definition query_rule :: "jprops \<Rightarrow> string \<Rightarrow> bool" where
  "query_rule d k \<longleftrightarrow>
     (k = ''version'' \<longrightarrow> \<not> is_str d ''type'' ''observation'') \<and>
     (k = ''projection'' \<longrightarrow> is_str d ''type'' ''observation'') \<and>
     (k = ''omit'' \<longrightarrow> is_str d ''scope'' ''entries'') \<and>
     (k = ''limit'' \<longrightarrow> is_str d ''scope'' ''entries'' \<or> is_str d ''scope'' ''stream'') \<and>
     (k = ''token'' \<or> k = ''stop'' \<longrightarrow> is_str d ''scope'' ''stream'')"

lemma dropped_keys_rule: "k \<notin> set (dropped_keys d) \<longleftrightarrow> query_rule d k"
proof -
  have scopes: "is_str d ''scope'' ''stream'' \<Longrightarrow> \<not> is_str d ''scope'' ''entries''"
    by (simp add: is_str_def)
  show ?thesis
  proof (cases "k \<in> {''version'', ''projection'', ''omit'', ''limit'', ''token'', ''stop''}")
    case True
    then show ?thesis
      by (elim insertE emptyE) (simp_all add: dropped_keys_def query_rule_def scopes)
  next
    case False
    then show ?thesis by (simp add: dropped_keys_def query_rule_def)
  qed
qed

lemma query_admitted_iff:
  "map_of (query_admitted d entity) k \<noteq> None \<longleftrightarrow>
     k \<in> set query_names \<and> (k = ''id'' \<longrightarrow> map_of entity ''id'' \<noteq> None) \<and> query_rule d k"
proof (cases "k \<in> set (dropped_keys d)")
  case True
  then show ?thesis using dropped_keys_rule [of k d] by (simp add: query_admitted_drops)
next
  case False
  then have "map_of (query_admitted d entity) k = map_of (query_start entity) k"
    by (simp add: query_admitted_drops)
  moreover have "query_rule d k" using False dropped_keys_rule [of k d] by simp
  ultimately show ?thesis using query_start_names [of entity k] by (simp only: simp_thms)
qed

text \<open>
  What a query of an operation may name follows from what the operation is: a version is
  named of anything but an observation and a projection of nothing else, a set alone is paged, a
  stream alone is continued, and a set or a stream alone is limited. Everything the runtime's own
  query has besides is admitted of every operation, and nothing else of any.
\<close>

theorem request_query_admits:
  assumes "map_of d ''query'' \<noteq> Some (JBool False)"
  shows "\<exists>ps keywords. request_schema d (Some entity) =
      (JObj ((''type'', JStr ''object'') # (''properties'', JObj ps) # keywords), d) \<and>
    map_of ps ''query'' = Some (query_schema d entity) \<and>
    (\<forall>k. map_of (query_admitted d entity) k \<noteq> None \<longleftrightarrow>
       k \<in> set query_names \<and> (k = ''id'' \<longrightarrow> map_of entity ''id'' \<noteq> None) \<and> query_rule d k)"
proof -
  obtain input req where input: "input_schema d = (input, req)" by (cases "input_schema d")
  have "\<exists>ps keywords. request_schema d (Some entity) =
      (JObj ((''type'', JStr ''object'') # (''properties'', JObj ps) # keywords), d) \<and>
    map_of ps ''query'' = Some (query_schema d entity)"
    using assms by (simp add: request_schema_def input Let_def)
  then show ?thesis using query_admitted_iff [of d entity] by blast
qed

theorem request_query_admits_witness:
  "map_of (query_admitted [(''type'', JStr ''observation''), (''scope'', JStr ''entries'')]
      [(''id'', ID)]) ''limit'' \<noteq> None"
proof -
  let ?d = "[(''type'', JStr ''observation''), (''scope'', JStr ''entries'')]"
  have "map_of ?d ''query'' \<noteq> Some (JBool False)" by simp
  from request_query_admits [OF this, of "[(''id'', ID)]"]
  have "map_of (query_admitted ?d [(''id'', ID)]) ''limit'' \<noteq> None \<longleftrightarrow>
      ''limit'' \<in> set query_names \<and> (''limit'' = ''id'' \<longrightarrow> map_of [(''id'', ID)] ''id'' \<noteq> None) \<and>
      query_rule ?d ''limit''"
    by blast
  then show ?thesis by (simp add: query_names_eq is_str_def query_rule_def)
qed

end
