(* ===== verification/Query.thy ===== *)
theory Query
  imports Exceptions
begin

text \<open>
  \<open>runtime/core/source/query.ts\<close> and \<open>query/{property,criteria,options}.ts\<close>: the query a
  request carries, translated into the one a storage is given. A query has passed the schema of
  the request, so its fields are typed here, and a field that is absent is \<open>None\<close> (what arrives
  as JSON has no key whose value is \<open>undefined\<close>). The RSQL grammar is a package of its own, and
  a parameter: a function that takes an expression and the reader of its literals and answers a
  tree, or fails with a syntax error of its own or with what the reader threw.
\<close>

section \<open>Declared properties\<close>

datatype property =
  Property (p_type: "string option") (p_properties: "(string \<times> property) list option")
    (p_items: "property option")

type_synonym properties = "(string \<times> property) list"

fun held :: "property \<Rightarrow> property" where
  "held (Property t ps (Some items)) =
     (if t = Some ''array'' then held items else Property t ps (Some items))"
| "held p = p"

fun follow :: "properties option \<Rightarrow> property option \<Rightarrow> string list \<Rightarrow> property option" where
  "follow declared found [] = found"
| "follow declared found (name # path) =
     (case declared of
        None \<Rightarrow> None
      | Some ps \<Rightarrow>
          (case map_of ps name of
             None \<Rightarrow> None
           | Some p \<Rightarrow>
               let found' = held p
               in follow (if p_type found' = Some ''object'' then p_properties found' else None)
                    (Some found') path))"

definition find_property :: "properties \<Rightarrow> string \<Rightarrow> property option" where
  "find_property properties path =
     (case map_of properties path of
        Some p \<Rightarrow> Some (held p)
      | None \<Rightarrow>
          if CHR ''.'' \<in> set path then follow (Some properties) None (split_on (CHR ''.'') path)
          else None)"

section \<open>Criteria\<close>

record literal =
  lit_text :: string
  lit_quoted :: bool
  lit_selector :: string
  lit_operator :: string

datatype operand = No_value | Text string | Number rat | Truth bool

definition query_syntax :: "string \<Rightarrow> thrown" where
  "query_syntax m = Exc (derive_exception QuerySyntax (Some m) None)"

definition refuse :: "string \<Rightarrow> string \<Rightarrow> string \<Rightarrow> thrown" where
  "refuse selector expected value =
     query_syntax (''Criteria selector '' @ [CHR 0x27] @ selector @ [CHR 0x27] @ '' takes '' @
       expected @ '', and '' @ [CHR 0x27] @ value @ [CHR 0x27] @ '' is not one'')"

definition finite_cast :: "string \<Rightarrow> string \<Rightarrow> string \<Rightarrow> thrown + rat" where
  "finite_cast value selector expected =
     (case if trim value = [] then NaN else js_Number value of
        Fin q \<Rightarrow> Inr q
      | _ \<Rightarrow> Inl (refuse selector expected value))"

definition CAST :: "string \<Rightarrow> (string \<Rightarrow> string \<Rightarrow> thrown + operand) option" where
  "CAST t =
     (if t = ''number'' then
        Some (\<lambda>value selector. rbind (finite_cast value selector ''a number'') (Inr \<circ> Number))
      else if t = ''integer'' then
        Some (\<lambda>value selector.
          rbind (finite_cast value selector ''an integer'') (\<lambda>q.
            if is_integer (Fin q) then Inr (Number q)
            else Inl (refuse selector ''an integer'' value)))
      else if t = ''boolean'' then
        Some (\<lambda>value selector.
          if value = ''true'' then Inr (Truth True)
          else if value = ''false'' then Inr (Truth False)
          else Inl (refuse selector ''a boolean'' value))
      else None)"

definition EQUALITY :: "string list" where
  "EQUALITY = [''=='', ''!='', ''=in='', ''=out='']"

definition undefined_selector :: "string \<Rightarrow> string" where
  "undefined_selector s = ''Criteria selector '' @ [CHR 0x27] @ s @ [CHR 0x27] @ '' is not defined''"

definition compares_no_value :: "string \<Rightarrow> string \<Rightarrow> string" where
  "compares_no_value s oper =
     ''Criteria selector '' @ [CHR 0x27] @ s @ [CHR 0x27] @ '' compares no value with '' @
       [CHR 0x27] @ oper @ [CHR 0x27]"

definition says_nothing :: "literal \<Rightarrow> bool" where
  "says_nothing l \<longleftrightarrow> \<not> lit_quoted l \<and> (lit_text l = ''null'' \<or> lit_text l = ''undefined'')"

definition read :: "properties option \<Rightarrow> literal \<Rightarrow> thrown + operand" where
  "read properties l =
     (let property = Option.bind properties (\<lambda>ps. find_property ps (lit_selector l)) in
      if properties \<noteq> None \<and> property = None then
        Inl (query_syntax (undefined_selector (lit_selector l)))
      else if says_nothing l then
        (if lit_operator l \<notin> set EQUALITY then
           Inl (query_syntax (compares_no_value (lit_selector l) (lit_operator l)))
         else Inr No_value)
      else
        (case Option.bind (Option.bind property p_type) CAST of
           None \<Rightarrow> Inr (Text (lit_text l))
         | Some cast \<Rightarrow> cast (lit_text l) (lit_selector l)))"

datatype parse_failure = Syntax_error string | Raised thrown

type_synonym 'node rsql = "string \<Rightarrow> (literal \<Rightarrow> thrown + operand) \<Rightarrow> parse_failure + 'node"

definition criteria :: "'node rsql \<Rightarrow> string \<Rightarrow> properties option \<Rightarrow> thrown + 'node" where
  "criteria rsql expression properties =
     (case rsql expression (read properties) of
        Inr node \<Rightarrow> Inr node
      | Inl (Syntax_error m) \<Rightarrow> Inl (query_syntax m)
      | Inl (Raised e) \<Rightarrow> Inl e)"

section \<open>Options\<close>

record given_options =
  g_sort :: "string list option"
  g_projection :: "string list option"
  g_rest :: props

record parsed_options =
  o_sort :: "(string \<times> string) list option"
  o_projection :: "string list option"
  o_rest :: props

fun sort_pairs :: "properties \<Rightarrow> string list \<Rightarrow> thrown + (string \<times> string) list" where
  "sort_pairs properties [] = Inr []"
| "sort_pairs properties (sorting # rest) =
     (let parts = split_on (CHR '':'') sorting;
          property = hd parts;
          direction = (case tl parts of [] \<Rightarrow> ''asc'' | d # _ \<Rightarrow> d)
      in if find_property properties property = None then
           Inl (query_syntax (''Sort property '' @ [CHR 0x27] @ property @ [CHR 0x27] @
             '' is not defined''))
         else rbind (sort_pairs properties rest) (\<lambda>ps. Inr ((property, direction) # ps)))"

definition SYSTEM_PROPERTIES :: "string list" where
  "SYSTEM_PROPERTIES = [''VERSION'', ''CREATED'', ''UPDATED'', ''DELETED'', ''REGION'']"

definition projection :: "string list \<Rightarrow> properties \<Rightarrow> thrown + string list" where
  "projection declared properties =
     (case List.find (\<lambda>p. find_property properties p = None) declared of
        Some p \<Rightarrow>
          Inl (query_syntax (''Projection property '' @ [CHR 0x27] @ p @ [CHR 0x27] @
            '' is not defined''))
      | None \<Rightarrow> Inr (foldl (\<lambda>ps p. sadd p ps) declared SYSTEM_PROPERTIES))"

definition options :: "given_options \<Rightarrow> properties \<Rightarrow> thrown + parsed_options" where
  "options given properties =
     rbind (case g_sort given of
              None \<Rightarrow> Inr None
            | Some s \<Rightarrow> rbind (sort_pairs properties s) (Inr \<circ> Some)) (\<lambda>s.
     rbind (case g_projection given of
              None \<Rightarrow> Inr None
            | Some p \<Rightarrow> rbind (projection p properties) (Inr \<circ> Some)) (\<lambda>p.
     Inr \<lparr>o_sort = s, o_projection = p, o_rest = g_rest given\<rparr>))"

section \<open>The query\<close>

record requested =
  r_id :: "string option"
  r_ids :: "string list option"
  r_version :: "int option"
  r_criteria :: "string option"
  r_search :: "string option"
  r_rest :: given_options

record 'node parsed =
  q_id :: "string option"
  q_ids :: "string list option"
  q_version :: "int option"
  q_criteria :: "'node option"
  q_search :: "string option"
  q_options :: "parsed_options option"

text \<open>The parsed expressions a \<open>Query\<close> keeps, in the order of their insertion.\<close>

type_synonym 'node asts = "(string \<times> 'node) list"

definition LIMIT :: nat where
  "LIMIT = 1024"

definition query_criteria ::
  "'node rsql \<Rightarrow> properties \<Rightarrow> 'node asts \<Rightarrow> string \<Rightarrow> (thrown + 'node) \<times> 'node asts" where
  "query_criteria rsql properties asts expression =
     (case map_of asts expression of
        Some known \<Rightarrow> (Inr known, asts)
      | None \<Rightarrow>
          (case criteria rsql expression (Some properties) of
             Inl e \<Rightarrow> (Inl e, asts)
           | Inr ast \<Rightarrow>
               let kept = (if LIMIT \<le> length asts then [] else asts)
               in (Inr ast, AList.update expression ast kept)))"

definition query_options :: "properties \<Rightarrow> given_options \<Rightarrow> thrown + parsed_options option" where
  "query_options properties given =
     (if g_sort given = None \<and> g_projection given = None \<and> g_rest given = [] then Inr None
      else rbind (options given properties) (Inr \<circ> Some))"

definition parse_with ::
  "('s \<Rightarrow> string \<Rightarrow> (thrown + 'node) \<times> 's) \<Rightarrow> properties \<Rightarrow> 's \<Rightarrow> requested \<Rightarrow>
    (thrown + 'node parsed) \<times> 's" where
  "parse_with criterion properties s query =
     (case query_options properties (r_rest query) of
        Inl e \<Rightarrow> (Inl e, s)
      | Inr opts \<Rightarrow>
          let (tree, s') =
            (case r_criteria query of
               None \<Rightarrow> (Inr None, s)
             | Some c \<Rightarrow> (case criterion s c of (r, s') \<Rightarrow> (rbind r (Inr \<circ> Some), s')))
          in (rbind tree (\<lambda>node.
                Inr \<lparr>q_id = r_id query, q_ids = r_ids query, q_version = r_version query,
                     q_criteria = node, q_search = r_search query, q_options = opts\<rparr>), s'))"

definition query_parse ::
  "'node rsql \<Rightarrow> properties \<Rightarrow> 'node asts \<Rightarrow> requested \<Rightarrow> (thrown + 'node parsed) \<times> 'node asts"
  where
  "query_parse rsql properties = parse_with (query_criteria rsql properties) properties"

text \<open>The same translation with nothing kept: the reference the cache is compared with.\<close>

definition parse_fresh ::
  "'node rsql \<Rightarrow> properties \<Rightarrow> requested \<Rightarrow> thrown + 'node parsed" where
  "parse_fresh rsql properties query =
     fst (parse_with (\<lambda>s c. (criteria rsql c (Some properties), s)) properties () query)"

fun query_run ::
  "'node rsql \<Rightarrow> properties \<Rightarrow> 'node asts \<Rightarrow> requested list \<Rightarrow>
    (thrown + 'node parsed) list \<times> 'node asts" where
  "query_run rsql properties asts [] = ([], asts)"
| "query_run rsql properties asts (q # qs) =
     (let (r, asts') = query_parse rsql properties asts q;
          (rs, asts'') = query_run rsql properties asts' qs
      in (r # rs, asts''))"

section \<open>Properties\<close>

subsection \<open>Declared properties\<close>

lemma held_not_array: "p_type (held p) = Some ''array'' \<Longrightarrow> p_items (held p) = None"
  by (induction p rule: held.induct) (auto split: if_splits)

text \<open>
  The paths an entity declares: a name of its own, or a name of an object reached by one. What
  a path reaches is what is held there, an array being read as what it holds.
\<close>

inductive reaches :: "properties \<Rightarrow> string list \<Rightarrow> property \<Rightarrow> bool" where
  own: "map_of ps name = Some p \<Longrightarrow> reaches ps [name] (held p)"
| inner: "map_of ps name = Some p \<Longrightarrow> p_type (held p) = Some ''object'' \<Longrightarrow>
    p_properties (held p) = Some qs \<Longrightarrow> reaches qs path q \<Longrightarrow> reaches ps (name # path) q"

inductive_cases reaches_Cons: "reaches ps (name # path) q"
inductive_cases reaches_Nil: "reaches ps [] q"

lemma follow_reaches:
  "path \<noteq> [] \<Longrightarrow> follow (Some ps) found path = Some q \<longleftrightarrow> reaches ps path q"
proof (induction path arbitrary: ps found)
  case (Cons name path)
  show ?case
  proof (cases "path = []")
    case True
    then show ?thesis
      by (auto simp: Let_def intro: reaches.own elim!: reaches_Cons reaches_Nil split: option.splits)
  next
    case False
    then have none: "follow None f path = None" for f by (cases path) auto
    have some: "follow ds f path = Some q \<longleftrightarrow> (\<exists>qs. ds = Some qs \<and> reaches qs path q)" for ds f
      by (cases ds) (simp_all add: none Cons.IH [OF False])
    show ?thesis
      by (auto simp: Let_def some False intro: reaches.inner elim!: reaches_Cons
          split: option.splits)
  qed
qed simp

text \<open>
  A query names a property by a name the entity declares or by a path of names each of which
  is declared by the object the one before it holds, an array on the way or at the end read as
  what it holds. A name with a dot of its own is found under that name before it is read as a
  path, and nothing that is not declared is found, whatever an object inherits.
\<close>

theorem find_property_iff:
  "find_property ps path = Some q \<longleftrightarrow>
     (case map_of ps path of
        Some p \<Rightarrow> q = held p
      | None \<Rightarrow> CHR ''.'' \<in> set path \<and> reaches ps (split_on (CHR ''.'') path) q)"
  by (auto simp: find_property_def follow_reaches split: option.splits)

subsection \<open>Criteria\<close>

definition conforms :: "property option \<Rightarrow> literal \<Rightarrow> operand \<Rightarrow> bool" where
  "conforms property l v \<longleftrightarrow>
     (if says_nothing l then v = No_value \<and> lit_operator l \<in> set EQUALITY
      else case Option.bind property p_type of
             None \<Rightarrow> v = Text (lit_text l)
           | Some t \<Rightarrow>
               (if t \<in> {''number'', ''integer''}
                then trim (lit_text l) \<noteq> [] \<and>
                  (\<exists>q. v = Number q \<and> js_Number (lit_text l) = Fin q \<and> (t = ''integer'' \<longrightarrow> q \<in> \<int>))
                else if t = ''boolean''
                then (v = Truth True \<and> lit_text l = ''true'') \<or> (v = Truth False \<and> lit_text l = ''false'')
                else v = Text (lit_text l)))"

lemma is_integer_Ints: "is_integer (Fin q) \<longleftrightarrow> q \<in> \<int>"
  by (auto simp: is_integer_def Ints_def image_def)

lemma finite_cast_iff:
  "finite_cast value selector expected = Inr q \<longleftrightarrow> trim value \<noteq> [] \<and> js_Number value = Fin q"
  by (auto simp: finite_cast_def split: jsnum.splits)

lemma cast_conforms:
  "CAST t = Some cast \<Longrightarrow> cast value selector = Inr v \<longleftrightarrow>
     (if t \<in> {''number'', ''integer''}
      then trim value \<noteq> [] \<and>
        (\<exists>q. v = Number q \<and> js_Number value = Fin q \<and> (t = ''integer'' \<longrightarrow> q \<in> \<int>))
      else (v = Truth True \<and> value = ''true'') \<or> (v = Truth False \<and> value = ''false''))"
  by (auto simp: CAST_def result_simps finite_cast_iff is_integer_Ints split: if_splits)

lemma finite_cast_cases:
  obtains "finite_cast value selector expected = Inl (refuse selector expected value)"
  | q where "finite_cast value selector expected = Inr q"
  unfolding finite_cast_def by (cases "if trim value = [] then NaN else js_Number value") simp_all

lemma number_refuses:
  "rbind (finite_cast value selector expected) (Inr \<circ> Number) = Inl e \<Longrightarrow>
     e = refuse selector expected value"
  by (rule finite_cast_cases [of "value" selector expected]) simp_all

lemma integer_refuses:
  "rbind (finite_cast value selector expected) (\<lambda>q.
     if is_integer (Fin q) then Inr (Number q) else Inl (refuse selector expected value)) = Inl e \<Longrightarrow>
     e = refuse selector expected value"
  by (rule finite_cast_cases [of "value" selector expected]) (simp_all split: if_split_asm)

lemma cast_refuses:
  assumes "CAST t = Some cast" "cast value selector = Inl e"
  obtains expected where "e = refuse selector expected value"
proof -
  consider "t = ''number''" | "t = ''integer''" | "t = ''boolean''"
    using assms(1) by (simp add: CAST_def split: if_split_asm)
  then show thesis
  proof cases
    case 1
    with assms show thesis
      by (intro that [of "''a number''"] number_refuses) (auto simp: CAST_def)
  next
    case 2
    with assms show thesis
      by (intro that [of "''an integer''"] integer_refuses) (auto simp: CAST_def)
  next
    case 3
    with assms show thesis
      by (intro that [of "''a boolean''"]) (auto simp add: CAST_def split: if_split_asm)
  qed
qed

lemma CAST_domain: "CAST t = None \<longleftrightarrow> t \<notin> {''number'', ''integer'', ''boolean''}"
  by (simp add: CAST_def)

lemma read_conforms:
  assumes "ps \<noteq> None \<longrightarrow> p \<noteq> None" "p = Option.bind ps (\<lambda>d. find_property d (lit_selector l))"
  shows "read ps l = Inr v \<longleftrightarrow> conforms p l v"
proof (cases "says_nothing l")
  case True
  with assms show ?thesis by (auto simp: read_def conforms_def Let_def)
next
  case False
  show ?thesis
  proof (cases "Option.bind (Option.bind p p_type) CAST")
    case None
    then have "read ps l = Inr (Text (lit_text l))"
      using False assms by (auto simp: read_def Let_def)
    moreover have "conforms p l v \<longleftrightarrow> v = Text (lit_text l)"
    proof (cases "Option.bind p p_type")
      case (Some t)
      with None have "t \<notin> {''number'', ''integer'', ''boolean''}"
        unfolding CAST_domain [symmetric] by simp
      with False Some show ?thesis by (simp add: conforms_def)
    qed (use False in \<open>simp add: conforms_def\<close>)
    ultimately show ?thesis by auto
  next
    case (Some cast)
    then obtain t where "Option.bind p p_type = Some t" "CAST t = Some cast"
      by (auto simp: bind_eq_Some_conv)
    moreover have "t \<in> {''number'', ''integer'', ''boolean''}"
      using CAST_domain [of t] \<open>CAST t = Some cast\<close> by (simp only: option.distinct not_False_eq_True simp_thms)
    moreover have "read ps l = cast (lit_text l) (lit_selector l)"
      using False assms Some by (auto simp: read_def Let_def)
    moreover note cast_conforms [OF \<open>CAST t = Some cast\<close>, of "lit_text l" "lit_selector l" v]
    ultimately show ?thesis
      using False by (elim insertE emptyE) (simp_all add: conforms_def)
  qed
qed

lemma read_undeclared: "find_property ps (lit_selector l) = None \<Longrightarrow> read (Some ps) l \<noteq> Inr v"
  by (simp add: read_def)

lemma read_refuses:
  assumes "read properties l = Inl e"
  obtains m where "e = query_syntax m"
  | t cast where "CAST t = Some cast" "cast (lit_text l) (lit_selector l) = Inl e"
proof (cases "Option.bind (Option.bind (Option.bind properties
    (\<lambda>ps. find_property ps (lit_selector l))) p_type) CAST")
  case None
  with assms show thesis
    by (auto simp: read_def Let_def intro: that(1) split: if_split_asm)
next
  case (Some cast)
  then obtain t where "CAST t = Some cast" by (auto simp: bind_eq_Some_conv)
  with assms Some show thesis
    by (auto simp: read_def Let_def intro: that split: if_split_asm)
qed

text \<open>
  C35. A value of a criteria is read as what the property it is compared with holds, or refused: a
  selector the entity declares answers exactly the values that conform to its type (a finite
  number, an integer, a boolean, or the text as it came), no value is compared with but for
  equality, and a selector the entity does not declare is refused whatever it is compared with.
\<close>

theorem read_typed:
  "(read (Some ps) l = Inr v \<longleftrightarrow>
      find_property ps (lit_selector l) \<noteq> None \<and> conforms (find_property ps (lit_selector l)) l v) \<and>
   (read None l = Inr v \<longleftrightarrow> conforms None l v) \<and>
   (case read properties l of
      Inl e \<Rightarrow> code_of e = Some (Num (int (codes QuerySyntax)))
    | Inr _ \<Rightarrow> True)"
proof -
  have refusal: "code_of (query_syntax m) = Some (Num (int (codes QuerySyntax)))" for m
    by (simp add: query_syntax_def derive_exception_def Exception_def Let_def)
  have "read (Some ps) l = Inr v \<longleftrightarrow> find_property ps (lit_selector l) \<noteq> None \<and>
      conforms (find_property ps (lit_selector l)) l v"
  proof (cases "find_property ps (lit_selector l) = None")
    case False
    then have "read (Some ps) l = Inr v \<longleftrightarrow> conforms (find_property ps (lit_selector l)) l v"
      by (intro read_conforms) simp_all
    with False show ?thesis by blast
  qed (use read_undeclared in blast)
  moreover have "read None l = Inr v \<longleftrightarrow> conforms None l v"
    by (rule read_conforms) simp_all
  moreover have "code_of e = Some (Num (int (codes QuerySyntax)))" if "read properties l = Inl e" for e
    by (rule read_refuses [OF that]) (simp only: refusal, erule cast_refuses, assumption,
      simp only: refuse_def refusal)
  ultimately show ?thesis by (simp split: sum.splits)
qed

subsection \<open>Options\<close>

lemma projection_refuses:
  "(\<exists>e. projection declared ps = Inl e) \<longleftrightarrow> (\<exists>p \<in> set declared. find_property ps p = None)"
  by (auto simp: projection_def find_None_iff find_Some_iff split: option.splits)

text \<open>
  A projection is answered whole, in its order, with the system properties after it and none
  of them twice, and it is refused exactly where it names a property the entity does not declare.
\<close>

theorem projection_complete:
  "case projection declared ps of
     Inl e \<Rightarrow> list_ex (\<lambda>p. find_property ps p = None) declared
   | Inr answered \<Rightarrow>
       list_all (\<lambda>p. find_property ps p \<noteq> None) declared \<and>
       (\<exists>system. answered = declared @ system \<and> distinct system \<and>
          set system = set SYSTEM_PROPERTIES - set declared)"
proof -
  have step: "\<exists>zs. foldl (\<lambda>ps p. sadd p ps) xs ys = xs @ zs \<and> distinct zs \<and>
      set zs = set ys - set xs" for xs ys :: "string list"
  proof (induction ys arbitrary: xs)
    case (Cons y ys)
    obtain zs where zs: "foldl (\<lambda>ps p. sadd p ps) (sadd y xs) ys = sadd y xs @ zs" "distinct zs"
      "set zs = set ys - set (sadd y xs)" using Cons.IH by blast
    show ?case
      by (rule exI [of _ "(if y \<in> set xs then zs else y # zs)"]) (use zs in \<open>auto simp: sadd_def\<close>)
  qed simp
  show ?thesis
    using projection_refuses [of declared ps] step [of declared SYSTEM_PROPERTIES]
    by (auto simp: projection_def list_ex_iff list_all_iff split: option.splits)
qed

subsection \<open>The cache\<close>

definition kept_sound :: "'node rsql \<Rightarrow> properties \<Rightarrow> 'node asts \<Rightarrow> bool" where
  "kept_sound rsql properties asts \<longleftrightarrow>
     distinct (map fst asts) \<and> length asts \<le> LIMIT \<and>
     (\<forall>(expression, ast) \<in> set asts. criteria rsql expression (Some properties) = Inr ast)"

lemma length_update_le: "length (AList.update k v m) \<le> Suc (length m)"
  by (induction m) auto

lemma query_criteria_fresh:
  assumes "kept_sound rsql ps asts"
  shows "fst (query_criteria rsql ps asts c) = criteria rsql c (Some ps)"
    and "kept_sound rsql ps (snd (query_criteria rsql ps asts c))"
proof -
  show "fst (query_criteria rsql ps asts c) = criteria rsql c (Some ps)"
    using assms
    by (auto simp: query_criteria_def kept_sound_def Let_def split: option.splits sum.splits
        dest!: map_of_SomeD)
  have "set (AList.update k v m) \<subseteq> insert (k, v) (set m)" for k v and m :: "'a asts"
    by (induction m) auto
  then have kept: "kept_sound rsql ps (AList.update c ast m)"
    if "kept_sound rsql ps m" "length m < LIMIT" "criteria rsql c (Some ps) = Inr ast" for ast m
    using that length_update_le [of c ast m]
    by (fastforce simp: kept_sound_def distinct_update)
  have "kept_sound rsql ps [(c, ast)]" if "criteria rsql c (Some ps) = Inr ast" for ast
    using that by (simp add: kept_sound_def LIMIT_def)
  then show "kept_sound rsql ps (snd (query_criteria rsql ps asts c))"
    using assms by (auto simp: query_criteria_def Let_def intro: kept
        split: option.splits sum.splits)
qed

lemma query_parse_fresh:
  assumes "kept_sound rsql ps asts"
  shows "fst (query_parse rsql ps asts q) = parse_fresh rsql ps q"
    and "kept_sound rsql ps (snd (query_parse rsql ps asts q))"
  using query_criteria_fresh [OF assms] assms
  by (auto simp: query_parse_def parse_fresh_def parse_with_def case_prod_beta
      split: sum.splits option.splits)

text \<open>
  C34. Keeping the trees of the expressions is not observable and does not grow: over any sequence
  of requests a query answers each exactly as if it were parsed afresh, failures included, and
  never keeps more than the limit.
\<close>

theorem query_cache_transparent:
  "fst (query_run rsql ps [] qs) = map (parse_fresh rsql ps) qs \<and>
   length (snd (query_run rsql ps [] qs)) \<le> LIMIT"
proof -
  have "fst (query_run rsql ps asts qs) = map (parse_fresh rsql ps) qs \<and>
      kept_sound rsql ps (snd (query_run rsql ps asts qs))" if "kept_sound rsql ps asts" for asts
    using that
    by (induction qs arbitrary: asts) (auto simp: query_parse_fresh case_prod_beta)
  moreover have "kept_sound rsql ps []" by (simp add: kept_sound_def)
  ultimately show ?thesis by (auto simp: kept_sound_def)
qed

end
