(* ===== verification/Entity.thy ===== *)
theory Entity
  imports Exceptions
begin

text \<open>
  \<open>runtime/core/source/entities/{entity,set,changeset,factory}.ts\<close> and \<open>guard.ts\<close>: what an
  operation acquires, and what it makes of it. A stored record is a HOL record: the properties
  the runtime writes (the upper-cased names), each \<open>None\<close> where it is \<open>undefined\<close> or \<open>null\<close>, the
  component's own in \<open>rec_fields\<close>, and the two unenumerated ones an entity carries while an algorithm
  runs. Schemas are compiled by a package and bridged guards are the component's, so both are
  functions an \<open>entity_class\<close> is given; the identities come from a generator and the times from a
  clock, so each operation takes what it reads of them.
\<close>

section \<open>Records\<close>

record stored =
  rec_id :: string
  VERSION :: "int option"
  CREATED :: "int option"
  UPDATED :: "int option"
  DELETED :: "int option"
  REGION :: "int option"
  rec_fields :: props
  TRAILERS :: "props option"
  DISCARD :: "bool option"

text \<open>Some of the properties of a record: what a blank states, and what a changeset holds.\<close>

record changes =
  ch_id :: "string option"
  ch_VERSION :: "int option"
  ch_CREATED :: "int option"
  ch_UPDATED :: "int option"
  ch_DELETED :: "int option option"
  ch_REGION :: "int option"
  ch_fields :: props

definition no_changes :: changes where
  "no_changes = \<lparr>ch_id = None, ch_VERSION = None, ch_CREATED = None, ch_UPDATED = None,
     ch_DELETED = None, ch_REGION = None, ch_fields = []\<rparr>"

definition or_else :: "'a option \<Rightarrow> 'a option \<Rightarrow> 'a option" where
  "or_else a b = (case a of None \<Rightarrow> b | Some _ \<Rightarrow> a)"

lemma or_else_simps [simp]: "or_else None b = b" "or_else (Some x) b = Some x"
  by (simp_all add: or_else_def)

definition put_fields :: "props \<Rightarrow> props \<Rightarrow> props" where
  "put_fields base over = foldl (\<lambda>m (k, v). AList.update k v m) base over"

text \<open>\<open>{ ...record, ...changes }\<close>, and \<open>Object.assign(record, changes)\<close>.\<close>

definition spread_changes :: "stored \<Rightarrow> changes \<Rightarrow> stored" where
  "spread_changes r c = r\<lparr>
     rec_id := (case ch_id c of None \<Rightarrow> rec_id r | Some i \<Rightarrow> i),
     VERSION := or_else (ch_VERSION c) (VERSION r),
     CREATED := or_else (ch_CREATED c) (CREATED r),
     UPDATED := or_else (ch_UPDATED c) (UPDATED r),
     DELETED := (case ch_DELETED c of None \<Rightarrow> DELETED r | Some d \<Rightarrow> d),
     REGION := or_else (ch_REGION c) (REGION r),
     rec_fields := put_fields (rec_fields r) (ch_fields c)\<rparr>"

text \<open>A record as a value, its enumerable properties in the order a record is composed in.\<close>

definition opt_num :: "string \<Rightarrow> int option \<Rightarrow> props" where
  "opt_num k v = (case v of None \<Rightarrow> [] | Some n \<Rightarrow> [(k, Num n)])"

definition record_val :: "stored \<Rightarrow> val" where
  "record_val r = Obj ([(''id'', Str (rec_id r))] @ opt_num ''VERSION'' (VERSION r) @
     [(''DELETED'', case DELETED r of None \<Rightarrow> Null | Some n \<Rightarrow> Num n)] @
     opt_num ''REGION'' (REGION r) @ rec_fields r @ opt_num ''CREATED'' (CREATED r) @
     opt_num ''UPDATED'' (UPDATED r))"

definition changes_val :: "changes \<Rightarrow> val" where
  "changes_val c = Obj ((case ch_id c of None \<Rightarrow> [] | Some i \<Rightarrow> [(''id'', Str i)]) @
     opt_num ''VERSION'' (ch_VERSION c) @
     (case ch_DELETED c of None \<Rightarrow> [] | Some None \<Rightarrow> [(''DELETED'', Null)]
      | Some (Some n) \<Rightarrow> [(''DELETED'', Num n)]) @
     opt_num ''REGION'' (ch_REGION c) @ ch_fields c @ opt_num ''CREATED'' (ch_CREATED c) @
     opt_num ''UPDATED'' (ch_UPDATED c))"

text \<open>What \<open>structuredClone\<close> copies: nothing unenumerated.\<close>

definition structured_clone :: "stored \<Rightarrow> stored" where
  "structured_clone r = r\<lparr>TRAILERS := None, DISCARD := None\<rparr>"

section \<open>Entities\<close>

record guard =
  guard_name :: string
  guard_fit :: "stored \<Rightarrow> stored option \<Rightarrow> thrown + val"

record entity_class =
  entity_schema :: "stored \<Rightarrow> schema_error option"
  changeset_schema :: "changes \<Rightarrow> schema_error option"
  blank :: changes
  guards :: "guard list option"
  region :: int

record entity =
  deleted :: bool
  origin :: "stored option"
  state :: stored
  mutable :: bool

record event =
  ev_origin :: "stored option"
  ev_state :: "stored option"
  ev_trailers :: "props option"
  ev_input :: val

text \<open>\<open>#write\<close>: \<open>t1\<close> is the time a missing \<open>CREATED\<close> is filled with, \<open>t2\<close> that of the update.\<close>

definition filled :: "int \<Rightarrow> int \<Rightarrow> stored \<Rightarrow> stored" where
  "filled rank t1 v =
     (let created = or_else (CREATED v) (Some t1) in
      v\<lparr>TRAILERS := or_else (TRAILERS v) (Some []),
        DISCARD := or_else (DISCARD v) (Some False),
        CREATED := created,
        UPDATED := or_else (UPDATED v) created,
        VERSION := or_else (VERSION v) (Some 0),
        REGION := or_else (REGION v) (Some rank)\<rparr>)"

definition stamped :: "int \<Rightarrow> int \<Rightarrow> stored \<Rightarrow> stored" where
  "stamped rank t2 v =
     v\<lparr>UPDATED := Some t2, VERSION := map_option (\<lambda>n. n + 1) (VERSION v), REGION := Some rank\<rparr>"

definition write_first :: "entity_class \<Rightarrow> int \<Rightarrow> stored \<Rightarrow> bool \<times> stored" where
  "write_first c t1 v = (let w = filled (region c) t1 v in (DELETED w \<noteq> None, w))"

definition write_entity :: "entity_class \<Rightarrow> int \<Rightarrow> int \<Rightarrow> entity \<Rightarrow> stored \<Rightarrow> entity" where
  "write_entity c t1 t2 e v =
     (let w = filled (region c) t1 v in
      e\<lparr>deleted := (deleted e \<or> DELETED w \<noteq> None), state := stamped (region c) t2 w\<rparr>)"

definition acquire_entity :: "entity_class \<Rightarrow> int \<Rightarrow> stored \<Rightarrow> bool \<Rightarrow> entity" where
  "acquire_entity c t1 record m =
     (if \<not> m then
        (case write_first c t1 record of
           (d, w) \<Rightarrow> \<lparr>deleted = d, origin = None, state = w, mutable = False\<rparr>)
      else
        (case write_first c t1 (structured_clone record) of
           (d, w) \<Rightarrow> \<lparr>deleted = d, origin = Some record, state = w, mutable = True\<rparr>))"

definition compose :: "entity_class \<Rightarrow> string \<Rightarrow> stored" where
  "compose c i =
     spread_changes
       \<lparr>rec_id = i, VERSION = Some 0, CREATED = None, UPDATED = None, DELETED = None,
        REGION = Some (region c), rec_fields = [], TRAILERS = None, DISCARD = None\<rparr>
       (blank c)"

definition init_entity :: "entity_class \<Rightarrow> int \<Rightarrow> string \<Rightarrow> entity" where
  "init_entity c t1 i =
     (case write_first c t1 (compose c i) of
        (d, w) \<Rightarrow> \<lparr>deleted = d, origin = None, state = w, mutable = True\<rparr>)"

fun guard_all :: "stored \<Rightarrow> stored option \<Rightarrow> guard list \<Rightarrow> thrown + unit" where
  "guard_all v o' [] = Inr ()"
| "guard_all v o' (g # gs) =
     rbind (guard_fit g v o') (\<lambda>ok.
       if ok = Bool False then Inl (Exc (EntityGuardException (guard_name g) (Some (record_val v))))
       else guard_all v o' gs)"

definition check_guards :: "entity_class \<Rightarrow> entity \<Rightarrow> stored \<Rightarrow> thrown + unit" where
  "check_guards c e v = (case guards c of None \<Rightarrow> Inr () | Some gs \<Rightarrow> guard_all v (origin e) gs)"

definition revive :: "entity \<Rightarrow> stored \<Rightarrow> entity \<times> stored" where
  "revive e v =
     (case Option.bind (origin e) DELETED of
        None \<Rightarrow> (e, v)
      | Some d \<Rightarrow>
          if DELETED v \<noteq> Some d then (e, v) else (e\<lparr>deleted := False\<rparr>, v\<lparr>DELETED := None\<rparr>))"

definition read_only_error :: js_error where
  "read_only_error =
     \<lparr>err_message = ''Entity acquired by a read-only operation cannot be modified'',
      err_cause = None, err_stack = None, err_code = None\<rparr>"

definition set_entity ::
  "entity_class \<Rightarrow> int \<Rightarrow> int \<Rightarrow> entity \<Rightarrow> stored \<Rightarrow> thrown + entity" where
  "set_entity c t1 t2 e v =
     (if \<not> mutable e then Inl (Err read_only_error)
      else rbind (check_guards c e v) (\<lambda>_.
        case entity_schema c v of
          Some error \<Rightarrow> Inl (Exc (EntityContractException error (Some (record_val v))))
        | None \<Rightarrow> (case revive e v of (e', v') \<Rightarrow> Inr (write_entity c t1 t2 e' v'))))"

definition entity_event :: "entity \<Rightarrow> val \<Rightarrow> event" where
  "entity_event e input =
     \<lparr>ev_origin = origin e, ev_state = Some (state e), ev_trailers = TRAILERS (state e),
      ev_input = input\<rparr>"

section \<open>Sets of entities\<close>

type_synonym entity_set = "entity list"

definition modified_array :: thrown where
  "modified_array = Exc (SystemException_text ''Objects array must not be modified'')"

fun set_each ::
  "entity_class \<Rightarrow> int \<Rightarrow> int \<Rightarrow> entity list \<Rightarrow> stored list \<Rightarrow> thrown + entity list" where
  "set_each c t1 t2 (e # es) (v # vs) =
     (if DISCARD v = Some True then set_each c t1 t2 es vs
      else rbind (set_entity c t1 t2 e v) (\<lambda>e'.
             rbind (set_each c t1 t2 es vs) (\<lambda>es'. Inr (e' # es'))))"
| "set_each c t1 t2 _ _ = Inr []"

definition set_entities ::
  "entity_class \<Rightarrow> int \<Rightarrow> int \<Rightarrow> entity_set \<Rightarrow> stored list \<Rightarrow> thrown + entity_set" where
  "set_entities c t1 t2 es vs =
     (if length vs \<noteq> length es then Inl modified_array else set_each c t1 t2 es vs)"

definition get_entities :: "entity_set \<Rightarrow> stored list" where
  "get_entities es = map state es"

definition entities_events :: "entity_set \<Rightarrow> val \<Rightarrow> event list" where
  "entities_events es input = map (\<lambda>e. entity_event e input) es"

section \<open>Changesets\<close>

record 'q changeset =
  cs_query :: 'q
  cs_state :: changes

definition new_changeset :: "'q \<Rightarrow> 'q changeset" where
  "new_changeset q = \<lparr>cs_query = q, cs_state = no_changes\<rparr>"

definition set_changeset ::
  "entity_class \<Rightarrow> int \<Rightarrow> 'q changeset \<Rightarrow> changes \<Rightarrow> thrown + 'q changeset" where
  "set_changeset c now cs v =
     (case changeset_schema c v of
        Some error \<Rightarrow> Inl (Exc (EntityContractException error (Some (changes_val v))))
      | None \<Rightarrow> Inr (cs\<lparr>cs_state := v\<lparr>ch_VERSION := None, ch_UPDATED := Some now\<rparr>\<rparr>))"

section \<open>The factory\<close>

definition factory_fit :: "entity_class \<Rightarrow> int \<Rightarrow> string \<Rightarrow> changes \<Rightarrow> thrown + unit" where
  "factory_fit c t1 i values =
     (case entity_schema c (structured_clone (spread_changes (state (init_entity c t1 i)) values)) of
        None \<Rightarrow> Inr ()
      | Some error \<Rightarrow>
          Inl (Err \<lparr>err_message = ''Entity: '' @ refusal_message error, err_cause = None,
                    err_stack = None, err_code = None\<rparr>))"

definition factory_object :: "entity_class \<Rightarrow> int \<Rightarrow> stored \<Rightarrow> bool \<Rightarrow> entity" where
  "factory_object c t1 record m = acquire_entity c t1 record m"

definition factory_objects ::
  "entity_class \<Rightarrow> int \<Rightarrow> stored list \<Rightarrow> string list option \<Rightarrow> bool \<Rightarrow> entity_set" where
  "factory_objects c t1 records init m =
     (let found = map (\<lambda>r. factory_object c t1 r m) records
      in case init of
           None \<Rightarrow> found
         | Some ids \<Rightarrow> foldl (\<lambda>es i. init_entity c t1 i # es) found ids)"

section \<open>Properties\<close>

subsection \<open>The shape of a record an entity holds\<close>

definition well_formed :: "stored \<Rightarrow> bool" where
  "well_formed r \<longleftrightarrow>
     VERSION r \<noteq> None \<and> CREATED r \<noteq> None \<and> UPDATED r \<noteq> None \<and> REGION r \<noteq> None \<and>
     TRAILERS r \<noteq> None \<and> DISCARD r \<noteq> None"

named_theorems entity_simps \<open>the operations of an entity, unfolded\<close>

lemmas [entity_simps] =
  write_first_def write_entity_def filled_def stamped_def acquire_entity_def init_entity_def
  structured_clone_def Let_def

lemma or_else_not_None [simp]: "or_else a b \<noteq> None \<longleftrightarrow> a \<noteq> None \<or> b \<noteq> None"
  by (cases a) auto

lemma filled_well_formed [simp, intro]: "well_formed (filled rank t v)"
  by (simp add: well_formed_def filled_def Let_def or_else_not_None del: not_None_eq)

lemma stamped_well_formed [simp]: "well_formed (stamped rank t v) \<longleftrightarrow>
    VERSION v \<noteq> None \<and> CREATED v \<noteq> None \<and> TRAILERS v \<noteq> None \<and> DISCARD v \<noteq> None"
  by (auto simp: well_formed_def stamped_def)

lemma acquire_well_formed: "well_formed (state (acquire_entity c t r m))"
  by (simp add: acquire_entity_def write_first_def Let_def)

lemma init_well_formed: "well_formed (state (init_entity c t i))"
  by (simp add: init_entity_def write_first_def Let_def)

lemma write_well_formed: "well_formed (state (write_entity c t1 t2 e v))"
  using filled_well_formed [of "region c" t1 v]
  by (auto simp: write_entity_def Let_def well_formed_def stamped_def simp del: filled_well_formed)

subsection \<open>What a set does\<close>

definition revived :: "entity \<Rightarrow> stored \<Rightarrow> bool" where
  "revived e v \<longleftrightarrow> (\<exists>o'. origin e = Some o' \<and> DELETED o' \<noteq> None \<and> DELETED v = DELETED o')"

lemma revive_iff: "revive e v = (if revived e v then (e\<lparr>deleted := False\<rparr>, v\<lparr>DELETED := None\<rparr>) else (e, v))"
  by (auto simp: revive_def revived_def split: option.splits bind_splits)

lemma guard_all_passes:
  "guard_all v o' gs = Inr () \<longleftrightarrow>
     (\<forall>g \<in> set gs. \<exists>ok. guard_fit g v o' = Inr ok \<and> ok \<noteq> Bool False)"
  by (induction gs) (auto simp: result_simps)

definition admitted :: "entity_class \<Rightarrow> entity \<Rightarrow> stored \<Rightarrow> bool" where
  "admitted c e v \<longleftrightarrow> mutable e \<and> check_guards c e v = Inr () \<and> entity_schema c v = None"

lemma set_entity_cases:
  "set_entity c t1 t2 e v =
     (if \<not> mutable e then Inl (Err read_only_error)
      else case check_guards c e v of
             Inl x \<Rightarrow> Inl x
           | Inr _ \<Rightarrow>
               (case entity_schema c v of
                  Some error \<Rightarrow> Inl (Exc (EntityContractException error (Some (record_val v))))
                | None \<Rightarrow>
                    Inr (write_entity c t1 t2
                      (if revived e v then e\<lparr>deleted := False\<rparr> else e)
                      (if revived e v then v\<lparr>DELETED := None\<rparr> else v))))"
  by (simp add: set_entity_def revive_iff split: sum.splits option.splits)

lemma set_entity_Inr:
  "set_entity c t1 t2 e v = Inr e' \<longleftrightarrow> admitted c e v \<and>
     e' = write_entity c t1 t2 (if revived e v then e\<lparr>deleted := False\<rparr> else e)
       (if revived e v then v\<lparr>DELETED := None\<rparr> else v)"
  unfolding set_entity_cases admitted_def by (auto split: sum.splits option.splits)

text \<open>
  A value is written to an entity exactly where the entity may be modified, every guard the
  component declares lets it through and it fits the entity's schema. What is then held is the
  value, one version up, under this region's rank and at this moment, with its creation kept or
  filled in; its pre-image is what it was; and a tombstone the value left as it was read is live
  again, where a new tombstone stays one.
\<close>

theorem set_entity_writes:
  "if admitted c e v then
     (\<exists>e'. set_entity c t1 t2 e v = Inr e' \<and>
        VERSION (state e') = Some (1 + (case VERSION v of None \<Rightarrow> 0 | Some n \<Rightarrow> n)) \<and>
        REGION (state e') = Some (region c) \<and> UPDATED (state e') = Some t2 \<and>
        CREATED (state e') = or_else (CREATED v) (Some t1) \<and>
        DELETED (state e') = (if revived e v then None else DELETED v) \<and>
        rec_id (state e') = rec_id v \<and> rec_fields (state e') = rec_fields v \<and>
        origin e' = origin e \<and> well_formed (state e'))
   else (\<exists>x. set_entity c t1 t2 e v = Inl x)"
proof (cases "admitted c e v")
  case True
  then obtain e' where e': "set_entity c t1 t2 e v = Inr e'"
    "e' = write_entity c t1 t2 (if revived e v then e\<lparr>deleted := False\<rparr> else e)
       (if revived e v then v\<lparr>DELETED := None\<rparr> else v)"
    using set_entity_Inr by blast
  have "VERSION (state e') = Some (1 + (case VERSION v of None \<Rightarrow> 0 | Some n \<Rightarrow> n))"
    by (cases "VERSION v") (simp_all add: e'(2) entity_simps)
  moreover have "well_formed (state e')" unfolding e'(2) by (rule write_well_formed)
  moreover have "REGION (state e') = Some (region c)" "UPDATED (state e') = Some t2"
    "CREATED (state e') = or_else (CREATED v) (Some t1)"
    "DELETED (state e') = (if revived e v then None else DELETED v)"
    "rec_id (state e') = rec_id v" "rec_fields (state e') = rec_fields v" "origin e' = origin e"
    by (simp_all add: e'(2) entity_simps)
  ultimately show ?thesis using True e'(1) by simp
next
  case False
  then show ?thesis
    using set_entity_Inr [of c t1 t2 e v] by (cases "set_entity c t1 t2 e v") auto
qed

text \<open>
  Guards come before the schema, and in their order: a value the component's guards refuse is
  refused by the name of the first that does, whatever the schema would say of it, and one that
  only the schema refuses is refused as a breach of the entity's contract.
\<close>

theorem set_entity_refuses:
  "mutable e \<Longrightarrow> guards c = Some (before @ g # after) \<Longrightarrow>
   list_all (\<lambda>h. guard_fit h v (origin e) = Inr (Bool True)) before \<Longrightarrow>
   guard_fit g v (origin e) = Inr (Bool ok) \<Longrightarrow>
   (\<not> ok \<longrightarrow> set_entity c t1 t2 e v =
      Inl (Exc (EntityGuardException (guard_name g) (Some (record_val v))))) \<and>
   (ok \<and> after = [] \<and> entity_schema c v = Some error \<longrightarrow> set_entity c t1 t2 e v =
      Inl (Exc (EntityContractException error (Some (record_val v)))))"
proof -
  assume a: "mutable e" "guards c = Some (before @ g # after)"
    "list_all (\<lambda>h. guard_fit h v (origin e) = Inr (Bool True)) before"
    "guard_fit g v (origin e) = Inr (Bool ok)"
  have "guard_all v (origin e) (before @ g # after) = guard_all v (origin e) (g # after)"
    using a(3) by (induction before) simp_all
  with a show ?thesis by (cases after) (simp_all add: set_entity_cases check_guards_def)
qed

definition sample_class :: entity_class where
  "sample_class =
     \<lparr>entity_schema = (\<lambda>r. if rec_fields r = [] then Some (Refused_text ''empty'') else None),
      changeset_schema = (\<lambda>_. None), blank = no_changes,
      guards = Some [\<lparr>guard_name = ''live'', guard_fit = (\<lambda>r _. Inr (Bool (DELETED r = None)))\<rparr>],
      region = 2\<rparr>"

definition sample_record :: stored where
  "sample_record = \<lparr>rec_id = ''a'', VERSION = Some 4, CREATED = Some 1, UPDATED = Some 2,
     DELETED = Some 3, REGION = Some 0, rec_fields = [], TRAILERS = None, DISCARD = None\<rparr>"

lemma set_entity_refuses_witness:
  "set_entity sample_class 5 6 (acquire_entity sample_class 5 sample_record True) sample_record =
     Inl (Exc (EntityGuardException ''live'' (Some (record_val sample_record))))"
  using set_entity_refuses
    [of "acquire_entity sample_class 5 sample_record True" sample_class "[]"
      "\<lparr>guard_name = ''live'', guard_fit = (\<lambda>r _. Inr (Bool (DELETED r = None)))\<rparr>" "[]"
      sample_record False 5 6]
  by (simp add: sample_class_def sample_record_def entity_simps)

subsection \<open>Sets\<close>

text \<open>
  What an algorithm discards of a set is left out of what is committed and everything else is
  written in its place: what remains is one written entity for each value not discarded, in
  order, and an array of another length is refused before anything is written.
\<close>

theorem set_entities_keeps:
  "case set_entities c t1 t2 es vs of
     Inr es' \<Rightarrow> length vs = length es \<and>
       list_all2 (\<lambda>(e, v) e'. set_entity c t1 t2 e v = Inr e')
         (filter (\<lambda>(e, v). DISCARD v \<noteq> Some True) (zip es vs)) es'
   | Inl x \<Rightarrow> if length vs = length es
       then list_ex (\<lambda>(e, v). DISCARD v \<noteq> Some True \<and> set_entity c t1 t2 e v = Inl x) (zip es vs)
       else x = modified_array"
proof -
  have "case set_each c t1 t2 es vs of
     Inr es' \<Rightarrow>
       list_all2 (\<lambda>(e, v) e'. set_entity c t1 t2 e v = Inr e')
         (filter (\<lambda>(e, v). DISCARD v \<noteq> Some True) (zip es vs)) es'
   | Inl x \<Rightarrow> list_ex (\<lambda>(e, v). DISCARD v \<noteq> Some True \<and> set_entity c t1 t2 e v = Inl x) (zip es vs)"
  proof (induction c t1 t2 es vs rule: set_each.induct)
    case (1 c t1 t2 e es v vs)
    show ?case
    proof (cases "DISCARD v = Some True")
      case True
      with 1 show ?thesis by (simp split: sum.splits)
    next
      case False
      with 1 show ?thesis
        by (cases "set_entity c t1 t2 e v"; cases "set_each c t1 t2 es vs") simp_all
    qed
  qed simp_all
  then show ?thesis by (simp add: set_entities_def split: sum.splits)
qed

subsection \<open>Changesets and blanks\<close>

lemma set_changeset_unversioned:
  "set_changeset c now cs v = Inr cs' \<Longrightarrow>
     ch_VERSION (cs_state cs') = None \<and> ch_UPDATED (cs_state cs') = Some now \<and>
     cs_query cs' = cs_query cs \<and> changeset_schema c v = None"
  by (auto simp: set_changeset_def split: option.splits)

lemma state_objects:
  "map (rec_id \<circ> state) (factory_objects c t rs None m) = map rec_id rs"
  by (simp add: factory_objects_def factory_object_def entity_simps)

end
