(* ===== verification/Outbox.thy ===== *)
theory Outbox
  imports Entity Trail
begin

text \<open>
  \<open>runtime/core/source/outbox.ts\<close> and \<open>types/outbox.ts\<close>: the intent to publish. A row is
  committed with the change it belongs to, handed to every destination off the operation's path,
  and recovered by a cycle (the pump) where it was not; what a destination confirmed is settled
  in batches.

  The process's state is the record \<open>outbox\<close>. What the source awaits is a step of its own: an
  emission that lands or fails, a page that is read, a settlement that is written or not, the end
  of a wait. The cycle is a small machine (\<open>phase\<close>), and closing runs beside it (\<open>closing_phase\<close>).
  The storage is reached through \<open>outbox_ops\<close>, the operations \<open>types/outbox.ts\<close> asks of one, with
  the laws it states as the locale \<open>outbox_storage\<close>.
\<close>

section \<open>Rows\<close>

record row =
  row_id :: string
  lane :: nat
  published :: bool
  pending :: jsnum
  outstanding :: "string list"
  trail :: "string list option"
  time :: "int option"
  row_event :: event

section \<open>Numbers\<close>

fun num_plus :: "jsnum \<Rightarrow> jsnum \<Rightarrow> jsnum" where
  "num_plus (Fin p) (Fin q) = Fin (p + q)"
| "num_plus (Fin p) (Inf b) = Inf b"
| "num_plus (Inf b) (Fin q) = Inf b"
| "num_plus (Inf a) (Inf b) = (if a = b then Inf a else NaN)"
| "num_plus _ _ = NaN"

text \<open>Multiplication by a positive whole number.\<close>

fun num_scale :: "jsnum \<Rightarrow> nat \<Rightarrow> jsnum" where
  "num_scale (Fin p) n = Fin (p * of_nat n)"
| "num_scale x n = x"

fun num_min :: "jsnum \<Rightarrow> jsnum \<Rightarrow> jsnum" where
  "num_min NaN y = NaN"
| "num_min x NaN = NaN"
| "num_min x y = (if num_le x y then x else y)"

definition declared_number ::
  "(string \<Rightarrow> string option) \<Rightarrow> string \<Rightarrow> jsnum option \<Rightarrow> nat \<Rightarrow> jsnum" where
  "declared_number env variable declared fallback =
     (case declared of
        Some n \<Rightarrow> n
      | None \<Rightarrow>
          let v = js_Number_opt (env variable)
          in if v = NaN \<or> num_le v (Fin 0) then num_of_nat fallback else v)"

section \<open>The process\<close>

definition LANES :: nat where "LANES = 128"
definition UNASSIGNED :: nat where "UNASSIGNED = 10"
definition INTERVAL :: nat where "INTERVAL = 5000"
definition K :: nat where "K = 3"
definition BATCH :: nat where "BATCH = 200"
definition INFLIGHT :: nat where "INFLIGHT = 1000"
definition PUBLISHED :: nat where "PUBLISHED = 10000"
definition SEPARATOR :: string where "SEPARATOR = [CHR 0x00]"

type_synonym by_destination = "(string \<times> string list) list"

type_synonym groups = "(string list \<times> string list) list"

datatype phase =
    Idle
  | Reading "string option"
  | Waiting bool "string option"
  | Marking groups

datatype closing_phase = Open | Draining | Last_marking groups

record outbox =
  destinations :: "string list"
  durable :: bool
  gap :: jsnum
  interval :: jsnum
  batch :: jsnum
  deferred :: bool
  sent_ids :: by_destination
  inflight :: by_destination
  publishing :: by_destination
  pump :: phase
  unassigned :: nat
  closing :: closing_phase

record options_rec =
  opt_interval :: "jsnum option"
  opt_batch :: "jsnum option"
  opt_gap :: "jsnum option"

definition new_outbox ::
  "(string \<Rightarrow> string option) \<Rightarrow> string list \<Rightarrow> bool \<Rightarrow> options_rec \<Rightarrow> outbox" where
  "new_outbox env given durable_storage options =
     (let empty_sets = foldl (\<lambda>m n. AList.update n [] m) [] given;
          every = declared_number env ''TOA_OUTBOX_INTERVAL'' (opt_interval options) INTERVAL
      in \<lparr>destinations = given,
          durable = durable_storage,
          gap = (case opt_gap options of Some g \<Rightarrow> g | None \<Rightarrow> num_scale every K),
          interval = every,
          batch = declared_number env ''TOA_OUTBOX_BATCH'' (opt_batch options) BATCH,
          deferred = (env ''TOA_OUTBOX_DEFER'' = Some ''1''),
          sent_ids = empty_sets, inflight = empty_sets, publishing = empty_sets,
          pump = Idle, unassigned = 0, closing = Open\<rparr>)"

text \<open>
  A lane: one this replica owns, or any at all where it owns none. \<open>u\<close> is what \<open>Math.random\<close>
  answers, from \<open>0\<close> up to \<open>1\<close>.
\<close>

definition draw :: "rat \<Rightarrow> nat \<Rightarrow> nat" where
  "draw u n = nat \<lfloor>u * of_nat n\<rfloor>"

definition choose_lane :: "nat list option \<Rightarrow> rat \<Rightarrow> nat" where
  "choose_lane owned u =
     (case owned of
        None \<Rightarrow> draw u LANES
      | Some [] \<Rightarrow> draw u LANES
      | Some ls \<Rightarrow> ls ! draw u (length ls))"

definition make_row ::
  "outbox \<Rightarrow> string \<Rightarrow> nat list option \<Rightarrow> rat \<Rightarrow> int \<Rightarrow> int \<Rightarrow> invocation option \<Rightarrow> event \<Rightarrow> row" where
  "make_row ob i owned u now now' current ev =
     \<lparr>row_id = i, lane = choose_lane owned u, published = False,
      pending = num_plus (Fin (of_int now)) (gap ob),
      outstanding = destinations ob, trail = map_option hops current, time = Some now',
      row_event = ev\<rparr>"

definition due :: "outbox \<Rightarrow> row \<Rightarrow> string \<Rightarrow> bool" where
  "due ob r name \<longleftrightarrow>
     name \<in> set (outstanding r) \<and>
     (case map_of (sent_ids ob) name of
        None \<Rightarrow> False
      | Some ids \<Rightarrow> row_id r \<notin> set ids \<and> row_id r \<notin> set (dget [] (publishing ob) name))"

text \<open>
  The start of a publication, up to the moment it is awaited. Nothing is started past the caps.
\<close>

definition send :: "row \<Rightarrow> outbox \<Rightarrow> string \<Rightarrow> outbox" where
  "send r ob name =
     (if INFLIGHT \<le> length (dget [] (inflight ob) name) \<or>
         PUBLISHED \<le> length (dget [] (sent_ids ob) name)
      then ob
      else ob\<lparr>publishing := AList.update name (sadd (row_id r) (dget [] (publishing ob) name)) (publishing ob),
              inflight := AList.update name (dget [] (inflight ob) name @ [row_id r]) (inflight ob)\<rparr>)"

definition publish_row :: "outbox \<Rightarrow> row \<Rightarrow> outbox" where
  "publish_row ob r =
     foldl (\<lambda>ob name. if due ob r name then send r ob name else ob) ob (destinations ob)"

text \<open>
  \<open>publish\<close>: without a durable outbox the destinations the row is outstanding for are emitted to
  on the caller's path, which is what is answered in the second place; with one, the row is
  handed over, unless the process is closing or leaves publication to the pump.
\<close>

definition publish :: "outbox \<Rightarrow> row \<Rightarrow> outbox \<times> string list" where
  "publish ob r =
     (if \<not> durable ob then (ob, filter (\<lambda>n. n \<in> set (outstanding r)) (destinations ob))
      else if closing ob \<noteq> Open \<or> deferred ob then (ob, [])
      else (publish_row ob r, []))"

text \<open>The two ends of a publication.\<close>

definition finished :: "string \<Rightarrow> string \<Rightarrow> outbox \<Rightarrow> outbox" where
  "finished name i ob =
     ob\<lparr>inflight := AList.update name (remove1 i (dget [] (inflight ob) name)) (inflight ob),
        publishing := AList.update name (sdel i (dget [] (publishing ob) name)) (publishing ob)\<rparr>"

definition landed :: "string \<Rightarrow> string \<Rightarrow> outbox \<Rightarrow> outbox" where
  "landed name i ob =
     finished name i
       (ob\<lparr>sent_ids := AList.update name (sadd i (dget [] (sent_ids ob) name)) (sent_ids ob)\<rparr>)"

definition failed :: "string \<Rightarrow> string \<Rightarrow> outbox \<Rightarrow> outbox" where
  "failed name i ob = finished name i ob"

section \<open>Groups\<close>

definition complete :: "string \<Rightarrow> by_destination \<Rightarrow> string \<Rightarrow> by_destination" where
  "complete name completed i =
     (case map_of completed i of
        None \<Rightarrow> AList.update i [name] completed
      | Some ns \<Rightarrow> AList.update i (ns @ [name]) completed)"

definition completed :: "by_destination \<Rightarrow> by_destination" where
  "completed sent = foldl (\<lambda>c (name, ids). foldl (complete name) c ids) [] sent"

definition group_step ::
  "(string \<times> (string list \<times> string list)) list \<Rightarrow> string \<times> string list \<Rightarrow>
   (string \<times> (string list \<times> string list)) list" where
  "group_step gs entry =
     (case entry of (i, ns) \<Rightarrow>
        let key = join SEPARATOR ns
        in case map_of gs key of
             None \<Rightarrow> AList.update key (ns, [i]) gs
           | Some (held, ids) \<Rightarrow> AList.update key (held, ids @ [i]) gs)"

definition groups_of :: "by_destination \<Rightarrow> groups" where
  "groups_of sent = map snd (foldl group_step [] (completed sent))"

section \<open>The cycle\<close>

definition assignment :: "nat list option \<Rightarrow> outbox \<Rightarrow> outbox" where
  "assignment owned ob =
     (case owned of
        Some (l # ls) \<Rightarrow> ob\<lparr>unassigned := 0\<rparr>
      | _ \<Rightarrow> ob\<lparr>unassigned := unassigned ob + 1\<rparr>)"

definition starving :: "outbox \<Rightarrow> bool" where
  "starving ob \<longleftrightarrow> 0 < unassigned ob \<and> unassigned ob mod UNASSIGNED = 0"

definition tick :: "nat list option \<Rightarrow> outbox \<Rightarrow> outbox" where
  "tick owned ob =
     (if pump ob \<noteq> Idle then ob else (assignment owned ob)\<lparr>pump := Reading None\<rparr>)"

record 's outbox_ops =
  op_find :: "'s \<Rightarrow> string \<Rightarrow> row option"
  op_pending :: "'s \<Rightarrow> nat list \<Rightarrow> int \<Rightarrow> jsnum \<Rightarrow> string option \<Rightarrow> row list"
  op_settle :: "'s \<Rightarrow> string list \<Rightarrow> string list \<Rightarrow> 's"
  op_insert :: "'s \<Rightarrow> row \<Rightarrow> 's option"

definition read_page ::
  "'s outbox_ops \<Rightarrow> 's \<Rightarrow> nat list option \<Rightarrow> int \<Rightarrow> bool \<Rightarrow> outbox \<Rightarrow> string option \<Rightarrow> row list" where
  "read_page ops table owned now fails ob after =
     (case owned of
        None \<Rightarrow> []
      | Some [] \<Rightarrow> []
      | Some ls \<Rightarrow> if fails then [] else op_pending ops table ls now (batch ob) after)"

definition due_rows :: "outbox \<Rightarrow> row list \<Rightarrow> row list" where
  "due_rows ob page = filter (\<lambda>r. list_ex (due ob r) (destinations ob)) page"

definition count_due ::
  "outbox \<Rightarrow> row list \<Rightarrow> (string \<times> nat) list \<times> (string \<times> jsnum) list \<Rightarrow>
   (string \<times> nat) list \<times> (string \<times> jsnum) list" where
  "count_due ob rows seen =
     foldl (\<lambda>seen r.
       foldl (\<lambda>(counts, oldest) name.
         if \<not> due ob r name then (counts, oldest)
         else (AList.update name (dget 0 counts name + 1) counts,
               AList.update name (num_min (dget (pending r) oldest name) (pending r)) oldest))
         seen (destinations ob)) seen rows"

definition page_read :: "outbox \<Rightarrow> row list \<Rightarrow> outbox" where
  "page_read ob page =
     (if page = [] then ob\<lparr>pump := Marking (groups_of (sent_ids ob))\<rparr>
      else
        (foldl publish_row ob (due_rows ob page))
          \<lparr>pump := Waiting (num_of_nat (length page) = batch ob) (Some (row_id (last page)))\<rparr>)"

definition waited :: "outbox \<Rightarrow> outbox" where
  "waited ob =
     (case pump ob of
        Waiting full after \<Rightarrow>
          if full then ob\<lparr>pump := Reading after\<rparr>
          else ob\<lparr>pump := Marking (groups_of (sent_ids ob))\<rparr>
      | _ \<Rightarrow> ob)"

text \<open>What a settlement that was written takes out of what is held.\<close>

definition settled :: "string list \<Rightarrow> string list \<Rightarrow> outbox \<Rightarrow> outbox" where
  "settled given ids ob =
     ob\<lparr>sent_ids := foldl (\<lambda>m n. AList.update n (filter (\<lambda>i. i \<notin> set ids) (dget [] m n)) m)
          (sent_ids ob) given\<rparr>"

definition close :: "outbox \<Rightarrow> outbox" where
  "close ob = ob\<lparr>closing := Draining\<rparr>"

definition drained :: "outbox \<Rightarrow> outbox" where
  "drained ob = ob\<lparr>closing := Last_marking (groups_of (sent_ids ob))\<rparr>"

section \<open>Replicas over one storage\<close>

text \<open>
  Several processes publish from one table. \<open>confirmed\<close> is what the destinations have confirmed,
  a pair of a name and the identity of a row; \<open>written\<close> is what each row was outstanding for when
  it was committed. Neither is read by a step: they are what the steps are judged by.
\<close>

record 's world =
  table :: 's
  replica :: "nat \<Rightarrow> outbox"
  confirmed :: "(string \<times> string) set"
  written :: "string \<Rightarrow> string list option"

definition put_replica :: "'s world \<Rightarrow> nat \<Rightarrow> outbox \<Rightarrow> 's world" where
  "put_replica w n ob = w\<lparr>replica := (replica w)(n := ob)\<rparr>"

inductive world_step :: "'s outbox_ops \<Rightarrow> 's world \<Rightarrow> 's world \<Rightarrow> bool" for ops where
  commit: "r = make_row (replica w n) i owned u now now' current ev \<Longrightarrow>
    op_insert ops (table w) r = Some t \<Longrightarrow>
    world_step ops w (w\<lparr>table := t, written := (written w)(row_id r \<mapsto> outstanding r)\<rparr>)"
| hand: "durable (replica w n) \<Longrightarrow> world_step ops w (put_replica w n (fst (publish (replica w n) r)))"
| land: "i \<in> set (dget [] (inflight (replica w n)) d) \<Longrightarrow>
    world_step ops w
      ((put_replica w n (landed d i (replica w n)))\<lparr>confirmed := insert (d, i) (confirmed w)\<rparr>)"
| fail: "i \<in> set (dget [] (inflight (replica w n)) d) \<Longrightarrow>
    world_step ops w (put_replica w n (failed d i (replica w n)))"
| ticked: "durable (replica w n) \<Longrightarrow> world_step ops w (put_replica w n (tick owned (replica w n)))"
| read: "pump (replica w n) = Reading after \<Longrightarrow>
    world_step ops w (put_replica w n (page_read (replica w n)
      (read_page ops (table w) owned now fails (replica w n) after)))"
| wait: "pump (replica w n) = Waiting full after \<Longrightarrow> world_step ops w (put_replica w n (waited (replica w n)))"
| mark: "pump (replica w n) = Marking ((ds, ids) # gs) \<Longrightarrow>
    world_step ops w
      ((put_replica w n ((settled ds ids (replica w n))\<lparr>pump := Marking gs\<rparr>))
        \<lparr>table := op_settle ops (table w) ids ds\<rparr>)"
| unmarked: "pump (replica w n) = Marking ((ds, ids) # gs) \<Longrightarrow>
    world_step ops w (put_replica w n ((replica w n)\<lparr>pump := Marking gs\<rparr>))"
| ended: "pump (replica w n) = Marking [] \<Longrightarrow> world_step ops w (put_replica w n ((replica w n)\<lparr>pump := Idle\<rparr>))"
| closes: "closing (replica w n) = Open \<Longrightarrow> world_step ops w (put_replica w n (close (replica w n)))"
| drains: "closing (replica w n) = Draining \<Longrightarrow> world_step ops w (put_replica w n (drained (replica w n)))"
| last_mark: "closing (replica w n) = Last_marking ((ds, ids) # gs) \<Longrightarrow>
    world_step ops w
      ((put_replica w n ((settled ds ids (replica w n))\<lparr>closing := Last_marking gs\<rparr>))
        \<lparr>table := op_settle ops (table w) ids ds\<rparr>)"
| last_unmarked: "closing (replica w n) = Last_marking ((ds, ids) # gs) \<Longrightarrow>
    world_step ops w (put_replica w n ((replica w n)\<lparr>closing := Last_marking gs\<rparr>))"

text \<open>Where every process starts, over a table with no row of theirs.\<close>

definition fresh :: "outbox \<Rightarrow> bool" where
  "fresh ob \<longleftrightarrow> list_all (\<lambda>(n, ids). ids = []) (sent_ids ob) \<and>
     list_all (\<lambda>(n, ids). ids = []) (inflight ob) \<and>
     list_all (\<lambda>(n, ids). ids = []) (publishing ob) \<and> pump ob = Idle \<and> closing ob = Open \<and>
     distinct (map fst (sent_ids ob)) \<and> list_all (\<lambda>n. CHR 0x00 \<notin> set n) (map fst (sent_ids ob))"

inductive reachable :: "'s outbox_ops \<Rightarrow> 's world \<Rightarrow> bool" for ops where
  start: "(\<And>i. op_find ops (table w) i = None) \<Longrightarrow> (\<And>n. fresh (replica w n)) \<Longrightarrow>
    confirmed w = {} \<Longrightarrow> written w = Map.empty \<Longrightarrow> reachable ops w"
| step: "reachable ops w \<Longrightarrow> world_step ops w w' \<Longrightarrow> reachable ops w'"

section \<open>Groups\<close>

text \<open>What the second pass of the grouping makes of the first: a partition by key.\<close>

lemma complete_map_of:
  "map_of (complete n c i) = (map_of c)(i \<mapsto> (case map_of c i of None \<Rightarrow> [n] | Some ns \<Rightarrow> ns @ [n]))"
  by (auto simp: complete_def split: option.splits)

lemma distinct_complete: "distinct (map fst c) \<Longrightarrow> distinct (map fst (complete n c i))"
  by (auto simp: complete_def distinct_update split: option.splits)

definition done_for :: "by_destination \<Rightarrow> string \<Rightarrow> string list" where
  "done_for sent i = map fst (filter (\<lambda>(n, ids). i \<in> set ids) sent)"

definition as_done :: "string list \<Rightarrow> string list option" where
  "as_done ns = (if ns = [] then None else Some ns)"

lemma complete_all:
  assumes "distinct ids"
  shows "map_of (foldl (complete n) c ids) i =
    (if i \<in> set ids then Some ((case map_of c i of None \<Rightarrow> [] | Some ns \<Rightarrow> ns) @ [n]) else map_of c i)"
  using assms by (induction ids arbitrary: c) (auto simp: complete_map_of split: option.splits)

lemma distinct_complete_all: "distinct (map fst c) \<Longrightarrow> distinct (map fst (foldl (complete n) c ids))"
  by (induction ids arbitrary: c) (simp_all add: distinct_complete)

lemma completed_snoc:
  "completed (sent @ [(n, ids)]) = foldl (complete n) (completed sent) ids"
  by (simp add: completed_def)

lemma map_of_completed:
  assumes "list_all (\<lambda>(n, ids). distinct ids) sent"
  shows "map_of (completed sent) i = as_done (done_for sent i)"
  using assms
proof (induction sent rule: rev_induct)
  case Nil
  then show ?case by (simp add: completed_def done_for_def as_done_def)
next
  case (snoc x sent)
  obtain n ids where x: "x = (n, ids)" by (cases x)
  with snoc show ?case
    by (simp add: completed_snoc complete_all done_for_def as_done_def)
qed

lemma distinct_completed: "distinct (map fst (completed sent))"
proof (induction sent rule: rev_induct)
  case (snoc x sent)
  then show ?case by (cases x) (simp add: completed_snoc distinct_complete_all)
qed (simp add: completed_def)

text \<open>The groups built so far, against the entries they were built from.\<close>

definition grouped ::
  "(string \<times> (string list \<times> string list)) list \<Rightarrow> (string \<times> string list) list \<Rightarrow> bool" where
  "grouped gs entries \<longleftrightarrow> distinct (map fst gs) \<and>
     (\<forall>k ns ids. (k, ns, ids) \<in> set gs \<longrightarrow> k = join SEPARATOR ns \<and>
        ns \<in> snd ` set entries \<and>
        ids = map fst (filter (\<lambda>(i, ns'). join SEPARATOR ns' = k) entries)) \<and>
     (\<forall>i ns. (i, ns) \<in> set entries \<longrightarrow> map_of gs (join SEPARATOR ns) \<noteq> None)"

lemma set_update: "distinct (map fst m) \<Longrightarrow>
    set (AList.update k v m) = insert (k, v) {(k', v') \<in> set m. k' \<noteq> k}"
  by (induction m) (auto simp: rev_image_eqI)

lemma grouped_step:
  assumes "grouped gs entries"
  shows "grouped (group_step gs e) (entries @ [e])"
proof -
  obtain i ns where e: "e = (i, ns)" by (cases e)
  show ?thesis
  proof (cases "map_of gs (join SEPARATOR ns)")
    case None
    then have "filter (\<lambda>(i, ns'). join SEPARATOR ns' = join SEPARATOR ns) entries = []"
      using assms by (force simp: grouped_def filter_empty_conv)
    then show ?thesis
      using assms None
      by (auto simp: e grouped_def group_step_def Let_def distinct_update set_update)
  next
    case (Some g)
    obtain held ids where g: "g = (held, ids)" by (cases g)
    with Some have "(join SEPARATOR ns, held, ids) \<in> set gs" by (auto dest: map_of_SomeD)
    then show ?thesis
      using assms Some g
      by (auto simp: e grouped_def group_step_def Let_def distinct_update set_update)
  qed
qed

lemma grouped_all: "grouped (foldl group_step [] entries) entries"
proof (induction entries rule: rev_induct)
  case (snoc e entries)
  then show ?case by (simp add: grouped_step)
qed (simp add: grouped_def)

lemma separator_inject:
  assumes "ns \<noteq> []" "ms \<noteq> []" "\<forall>n \<in> set ns. CHR 0x00 \<notin> set n" "\<forall>m \<in> set ms. CHR 0x00 \<notin> set m"
    and "join SEPARATOR ns = join SEPARATOR ms"
  shows "ns = ms"
  using inj_join [OF assms(1,2,3,4)] assms(5) by (simp add: SEPARATOR_def)

lemma completed_entry:
  assumes "list_all (\<lambda>(n, ids). distinct ids) sent"
  shows "(i, ns) \<in> set (completed sent) \<longleftrightarrow> ns = done_for sent i \<and> ns \<noteq> []"
proof -
  have "(i, ns) \<in> set (completed sent) \<longleftrightarrow> map_of (completed sent) i = Some ns"
    using distinct_completed by simp
  then show ?thesis using map_of_completed [OF assms] by (auto simp: as_done_def)
qed

lemma group_exact:
  assumes wf: "list_all (\<lambda>(n, ids). distinct ids) sent"
    and free: "list_all (\<lambda>n. CHR 0x00 \<notin> set n) (map fst sent)"
    and g: "(ns, ids) \<in> set (groups_of sent)"
  shows "ns \<noteq> [] \<and> (\<forall>i. i \<in> set ids \<longleftrightarrow> ns = done_for sent i)"
proof -
  obtain k where k: "(k, ns, ids) \<in> set (foldl group_step [] (completed sent))"
    using g by (auto simp: groups_of_def)
  note gr = grouped_all [of "completed sent", unfolded grouped_def]
  have key: "k = join SEPARATOR ns" and "ns \<in> snd ` set (completed sent)"
    and ids: "ids = map fst (filter (\<lambda>(i, ns'). join SEPARATOR ns' = k) (completed sent))"
    using gr k by blast+
  then obtain j where j: "ns = done_for sent j" "ns \<noteq> []" using completed_entry [OF wf] by force
  have nul: "\<forall>n \<in> set (done_for sent i). CHR 0x00 \<notin> set n" for i
    using free by (auto simp: done_for_def list_all_iff)
  have "i \<in> set ids \<longleftrightarrow> ns = done_for sent i" for i
  proof
    assume "i \<in> set ids"
    then obtain ms where ms: "(i, ms) \<in> set (completed sent)" "join SEPARATOR ms = k"
      using ids by auto
    then have m: "ms = done_for sent i" "ms \<noteq> []" using completed_entry [OF wf] by auto
    have "ns = ms"
    proof (rule separator_inject [OF j(2) m(2)])
      show "join SEPARATOR ns = join SEPARATOR ms" using key ms(2) by (rule trans [OF sym sym])
      show "\<forall>n \<in> set ns. CHR 0x00 \<notin> set n" unfolding j(1) by (rule nul)
      show "\<forall>n \<in> set ms. CHR 0x00 \<notin> set n" unfolding m(1) by (rule nul)
    qed
    then show "ns = done_for sent i" using m(1) by (rule trans)
  next
    assume "ns = done_for sent i"
    then have "(i, ns) \<in> set (completed sent)"
      unfolding completed_entry [OF wf] using j(2) by (rule conjI)
    then have "(i, ns) \<in> set (filter (\<lambda>(i, ns'). join SEPARATOR ns' = k) (completed sent))"
      by (simp only: set_filter mem_Collect_eq prod.case key simp_thms)
    then have "fst (i, ns) \<in> set ids" unfolding ids set_map by (rule imageI)
    then show "i \<in> set ids" by (simp only: fst_conv)
  qed
  with j(2) show ?thesis by blast
qed

lemma group_cover:
  assumes wf: "list_all (\<lambda>(n, ids). distinct ids) sent"
    and free: "list_all (\<lambda>n. CHR 0x00 \<notin> set n) (map fst sent)"
    and some: "done_for sent i \<noteq> []"
  shows "\<exists>ids. (done_for sent i, ids) \<in> set (groups_of sent) \<and> i \<in> set ids"
proof -
  let ?gs = "foldl group_step [] (completed sent)"
  have "(i, done_for sent i) \<in> set (completed sent)" using completed_entry [OF wf] some by simp
  then obtain ns ids where g: "map_of ?gs (join SEPARATOR (done_for sent i)) = Some (ns, ids)"
    using grouped_all [of "completed sent"] unfolding grouped_def by (metis not_None_eq surj_pair)
  then have mem: "(join SEPARATOR (done_for sent i), ns, ids) \<in> set ?gs" by (rule map_of_SomeD)
  then have group: "(ns, ids) \<in> set (groups_of sent)" by (force simp: groups_of_def)
  have key: "join SEPARATOR ns = join SEPARATOR (done_for sent i)"
    using grouped_all [of "completed sent"] mem unfolding grouped_def by metis
  obtain j where "ns = done_for sent j" "ns \<noteq> []"
    using grouped_all [of "completed sent"] mem completed_entry [OF wf]
    unfolding grouped_def by (metis (no_types, lifting) imageE prod.collapse)
  moreover have "\<forall>n \<in> set (done_for sent i'). CHR 0x00 \<notin> set n" for i'
    using free by (auto simp: done_for_def list_all_iff)
  ultimately have "ns = done_for sent i" using separator_inject [OF _ some _ _ key] by simp
  with group group_exact [OF wf free group] show ?thesis by blast
qed

lemma group_nonempty:
  assumes "(ns, ids) \<in> set (groups_of sent)"
  shows "ids \<noteq> []"
proof -
  obtain k where k: "(k, ns, ids) \<in> set (foldl group_step [] (completed sent))"
    using assms by (auto simp: groups_of_def)
  have "ns \<in> snd ` set (completed sent)" "k = join SEPARATOR ns"
    and "ids = map fst (filter (\<lambda>(i, ns'). join SEPARATOR ns' = k) (completed sent))"
    using grouped_all [of "completed sent"] k unfolding grouped_def by blast+
  then show ?thesis by (auto simp: filter_empty_conv)
qed

text \<open>
  C22. What a cycle settles is exactly what was sent: where no name holds the separator, the
  groups of a marking name a destination for a row if and only if that destination has confirmed
  the row and nothing has settled it since, and no two groups name the same row.
\<close>

theorem groups_partition:
  assumes "list_all (\<lambda>(n, ids). distinct ids) sent"
    and "list_all (\<lambda>n. CHR 0x00 \<notin> set n) (map fst sent)"
  shows "((\<exists>ns ids. (ns, ids) \<in> set (groups_of sent) \<and> n \<in> set ns \<and> i \<in> set ids) \<longleftrightarrow>
      (\<exists>ids. (n, ids) \<in> set sent \<and> i \<in> set ids)) \<and>
    ((ns, ids) \<in> set (groups_of sent) \<and> (ms, js) \<in> set (groups_of sent) \<and>
      i \<in> set ids \<inter> set js \<longrightarrow> ns = ms \<and> set ids = set js)"
proof (intro conjI impI iffI)
  assume "\<exists>ns ids. (ns, ids) \<in> set (groups_of sent) \<and> n \<in> set ns \<and> i \<in> set ids"
  then show "\<exists>ids. (n, ids) \<in> set sent \<and> i \<in> set ids"
    using group_exact [OF assms] by (force simp: done_for_def)
next
  assume "\<exists>ids. (n, ids) \<in> set sent \<and> i \<in> set ids"
  then have "n \<in> set (done_for sent i)" by (force simp: done_for_def)
  then show "\<exists>ns ids. (ns, ids) \<in> set (groups_of sent) \<and> n \<in> set ns \<and> i \<in> set ids"
    using group_cover [OF assms, of i] by force
next
  assume a: "(ns, ids) \<in> set (groups_of sent) \<and> (ms, js) \<in> set (groups_of sent) \<and>
      i \<in> set ids \<inter> set js"
  then have "ns = done_for sent i" "ms = done_for sent i"
    using group_exact [OF assms, of ns ids] group_exact [OF assms, of ms js] by simp_all
  then show "ns = ms" by simp
  with a show "set ids = set js"
    using group_exact [OF assms, of ns ids] group_exact [OF assms, of ms js] by auto
qed

lemma groups_partition_witness:
  "((\<exists>ns ids. (ns, ids) \<in> set (groups_of [(''a'', [''1'', ''2'']), (''b'', [''1''])]) \<and>
       ''b'' \<in> set ns \<and> ''1'' \<in> set ids) \<longleftrightarrow> True) \<and>
   groups_of [(''a'', [''1'', ''2'']), (''b'', [''1''])] =
     [([''a'', ''b''], [''1'']), ([''a''], [''2''])]"
  using groups_partition [of "[(''a'', [''1'', ''2'']), (''b'', [''1''])]" "''b''" "''1''" "[]" "[]"]
  by (simp add: groups_of_def completed_def complete_def group_step_def Let_def SEPARATOR_def)

section \<open>What every step keeps\<close>

text \<open>
  The well-formedness of a process: the three dictionaries have the same names, each once and
  none with the separator in it; what is held for a name is a set; what is being published is
  what is in flight; and neither the flights nor what they may leave behind pass the caps.
\<close>

definition flights :: "string list \<Rightarrow> string list \<Rightarrow> string list \<Rightarrow> bool" where
  "flights being flying sent \<longleftrightarrow>
     being = flying \<and> distinct flying \<and> distinct sent \<and> length flying \<le> INFLIGHT \<and>
     length flying + length sent < INFLIGHT + PUBLISHED"

definition flights_at :: "outbox \<Rightarrow> string \<Rightarrow> bool" where
  "flights_at ob d \<longleftrightarrow>
     flights (dget [] (publishing ob) d) (dget [] (inflight ob) d) (dget [] (sent_ids ob) d) \<and>
     (dget [] (inflight ob) d \<noteq> [] \<longrightarrow> d \<in> fst ` set (sent_ids ob))"

definition outbox_wf :: "outbox \<Rightarrow> bool" where
  "outbox_wf ob \<longleftrightarrow> distinct (map fst (sent_ids ob)) \<and>
     (\<forall>n \<in> fst ` set (sent_ids ob). CHR 0x00 \<notin> set n) \<and> (\<forall>d. flights_at ob d)"

lemma flights_start: "flights p f s \<Longrightarrow> i \<notin> set p \<Longrightarrow> length f < INFLIGHT \<Longrightarrow>
    length s < PUBLISHED \<Longrightarrow> flights (sadd i p) (f @ [i]) s"
  by (auto simp: flights_def sadd_def)

lemma flights_fail: "flights p f s \<Longrightarrow> flights (sdel i p) (remove1 i f) s"
  by (auto simp: flights_def sdel_def distinct_remove1_removeAll distinct_removeAll
      intro: order_trans [OF length_removeAll_less_eq]
        le_less_trans [OF add_right_mono [OF length_removeAll_less_eq]])

lemma flights_land:
  assumes "flights p f s" "i \<in> set f"
  shows "flights (sdel i p) (remove1 i f) (sadd i s)"
proof -
  have "Suc (length (remove1 i f)) = length f"
    using assms(2) by (simp add: length_remove1) (metis Suc_pred length_pos_if_in_set)
  with assms(1) show ?thesis
    by (auto simp: flights_def sdel_def distinct_remove1_removeAll distinct_removeAll sadd_def)
qed

lemma flights_filter: "flights p f s \<Longrightarrow> flights p f (filter P s)"
  by (auto simp: flights_def intro: le_less_trans [OF add_left_mono [OF length_filter_le]])

lemma due_not_publishing: "due ob r d \<Longrightarrow>
    row_id r \<notin> set (dget [] (publishing ob) d) \<and> d \<in> fst ` set (sent_ids ob)"
  by (auto simp: due_def split: option.splits dest: map_of_SomeD intro: rev_image_eqI)

lemma send_wf:
  assumes "outbox_wf ob" "due ob r d"
  shows "outbox_wf (send r ob d)"
proof -
  have "flights_at (send r ob d) d'" for d'
    using assms due_not_publishing [OF assms(2)]
    by (auto simp: outbox_wf_def send_def flights_at_def not_le intro: flights_start)
  then show ?thesis using assms(1) by (simp add: outbox_wf_def send_def)
qed

lemma fold_due_wf: "outbox_wf ob \<Longrightarrow>
    outbox_wf (foldl (\<lambda>ob name. if due ob r name then send r ob name else ob) ob ds)"
  by (induction ds arbitrary: ob) (simp_all add: send_wf)

lemma publish_row_wf: "outbox_wf ob \<Longrightarrow> outbox_wf (publish_row ob r)"
  by (simp add: publish_row_def fold_due_wf)

lemma publish_all_wf: "outbox_wf ob \<Longrightarrow> outbox_wf (foldl publish_row ob rs)"
  by (induction rs arbitrary: ob) (simp_all add: publish_row_wf)

lemma pump_wf [simp]: "outbox_wf (ob\<lparr>pump := p\<rparr>) = outbox_wf ob"
  "outbox_wf (ob\<lparr>closing := c\<rparr>) = outbox_wf ob" "outbox_wf (ob\<lparr>unassigned := u\<rparr>) = outbox_wf ob"
  by (simp_all add: outbox_wf_def flights_at_def)

lemma failed_wf:
  assumes "outbox_wf ob"
  shows "outbox_wf (failed d i ob)"
proof -
  have some: "remove1 i xs \<noteq> [] \<Longrightarrow> xs \<noteq> []" for xs by auto
  have "flights_at (failed d i ob) d'" for d'
    using assms
    by (auto simp: outbox_wf_def failed_def finished_def flights_at_def dest: some intro: flights_fail)
  then show ?thesis using assms by (simp add: outbox_wf_def failed_def finished_def)
qed

lemma landed_wf:
  assumes "outbox_wf ob" "i \<in> set (dget [] (inflight ob) d)"
  shows "outbox_wf (landed d i ob)"
proof -
  have "flights_at ob d" using assms(1) by (simp add: outbox_wf_def)
  then have known: "d \<in> fst ` set (sent_ids ob)" using assms(2) by (auto simp: flights_at_def)
  have "flights_at (landed d i ob) d'" for d'
    using assms known
    by (auto simp: outbox_wf_def landed_def finished_def flights_at_def intro: flights_land)
  then show ?thesis
    using assms(1) known by (auto simp: outbox_wf_def landed_def finished_def distinct_update)
qed

lemma settled_sent:
  "dget [] (sent_ids (settled ds ids ob)) d =
     (if d \<in> set ds then filter (\<lambda>i. i \<notin> set ids) (dget [] (sent_ids ob) d)
      else dget [] (sent_ids ob) d)"
proof -
  have "dget [] (foldl (\<lambda>m n. AList.update n (filter (\<lambda>i. i \<notin> set ids) (dget [] m n)) m) m ds) d =
     (if d \<in> set ds then filter (\<lambda>i. i \<notin> set ids) (dget [] m d) else dget [] m d)" for m
    by (induction ds arbitrary: m) auto
  then show ?thesis by (simp add: settled_def)
qed

lemma settled_names:
  "set ds \<subseteq> fst ` set (sent_ids ob) \<Longrightarrow> distinct (map fst (sent_ids ob)) \<Longrightarrow>
     fst ` set (sent_ids (settled ds ids ob)) = fst ` set (sent_ids ob) \<and>
     distinct (map fst (sent_ids (settled ds ids ob)))"
proof -
  have "set ds \<subseteq> fst ` set m \<Longrightarrow> distinct (map fst m) \<Longrightarrow>
     fst ` set (foldl (\<lambda>m n. AList.update n (filter (\<lambda>i. i \<notin> set ids) (dget [] m n)) m) m ds) = fst ` set m \<and>
     distinct (map fst (foldl (\<lambda>m n. AList.update n (filter (\<lambda>i. i \<notin> set ids) (dget [] m n)) m) m ds))" for m
  proof (induction ds arbitrary: m)
    case (Cons n ds)
    have "insert n (fst ` set m) = fst ` set m" using Cons.prems by auto
    with Cons show ?case by (simp add: distinct_update)
  qed simp
  then show "set ds \<subseteq> fst ` set (sent_ids ob) \<Longrightarrow> distinct (map fst (sent_ids ob)) \<Longrightarrow> ?thesis"
    by (simp add: settled_def)
qed

lemma settled_wf:
  assumes "outbox_wf ob" "set ds \<subseteq> fst ` set (sent_ids ob)"
  shows "outbox_wf (settled ds ids ob)"
proof -
  have kept: "fst ` set (sent_ids (settled ds ids ob)) = fst ` set (sent_ids ob)"
    "distinct (map fst (sent_ids (settled ds ids ob)))"
    using settled_names [OF assms(2)] assms(1) by (auto simp: outbox_wf_def)
  have "inflight (settled ds ids ob) = inflight ob" "publishing (settled ds ids ob) = publishing ob"
    by (simp_all add: settled_def)
  with assms(1) have "flights_at (settled ds ids ob) d" for d
    by (simp add: outbox_wf_def flights_at_def kept settled_sent flights_filter)
  with assms(1) kept show ?thesis by (simp add: outbox_wf_def)
qed

lemma dget_empty: "list_all (\<lambda>(n, ids). ids = []) m \<Longrightarrow> dget [] m d = []"
  by (auto simp: dget_def list_all_iff split: option.splits dest!: map_of_SomeD)

lemma fresh_wf: "fresh ob \<Longrightarrow> outbox_wf ob"
proof -
  assume f: "fresh ob"
  then have "dget [] (sent_ids ob) d = [] \<and> dget [] (inflight ob) d = [] \<and>
      dget [] (publishing ob) d = []" for d
    by (simp add: fresh_def dget_empty)
  then have "flights_at ob d" for d
    by (simp add: flights_at_def flights_def PUBLISHED_def)
  with f show ?thesis by (auto simp: fresh_def outbox_wf_def list_all_iff)
qed

text \<open>Publishing changes nothing but what is in flight.\<close>

lemma send_keeps [simp]:
  "sent_ids (send r ob d) = sent_ids ob" "pump (send r ob d) = pump ob"
  "closing (send r ob d) = closing ob"
  by (simp_all add: send_def)

lemma fold_due_keeps:
  "sent_ids (foldl (\<lambda>ob name. if due ob r name then send r ob name else ob) ob ds) = sent_ids ob \<and>
   pump (foldl (\<lambda>ob name. if due ob r name then send r ob name else ob) ob ds) = pump ob \<and>
   closing (foldl (\<lambda>ob name. if due ob r name then send r ob name else ob) ob ds) = closing ob"
  by (induction ds arbitrary: ob) simp_all

lemma publish_row_keeps [simp]:
  "sent_ids (publish_row ob r) = sent_ids ob" "pump (publish_row ob r) = pump ob"
  "closing (publish_row ob r) = closing ob"
  by (simp_all add: publish_row_def fold_due_keeps)

lemma publish_all_keeps [simp]:
  "sent_ids (foldl publish_row ob rs) = sent_ids ob" "pump (foldl publish_row ob rs) = pump ob"
  "closing (foldl publish_row ob rs) = closing ob"
  by (induction rs arbitrary: ob) simp_all

text \<open>What a process is about to settle, in the cycle and at its close.\<close>

definition to_settle :: "outbox \<Rightarrow> groups" where
  "to_settle ob = (case pump ob of Marking gs \<Rightarrow> gs | _ \<Rightarrow> []) @
     (case closing ob of Last_marking gs \<Rightarrow> gs | _ \<Rightarrow> [])"

definition settles :: "(string \<times> string) set \<Rightarrow> outbox \<Rightarrow> groups \<Rightarrow> bool" where
  "settles c ob gs \<longleftrightarrow>
     (\<forall>(ds, ids) \<in> set gs. set ds \<subseteq> fst ` set (sent_ids ob) \<and> set ds \<times> set ids \<subseteq> c)"

definition honest :: "(string \<times> string) set \<Rightarrow> outbox \<Rightarrow> bool" where
  "honest c ob \<longleftrightarrow> outbox_wf ob \<and> (\<forall>d i. i \<in> set (dget [] (sent_ids ob) d) \<longrightarrow> (d, i) \<in> c) \<and>
     settles c ob (to_settle ob)"

lemma dget_mem: "distinct (map fst m) \<Longrightarrow> (d, ids) \<in> set m \<Longrightarrow> dget [] m d = ids"
  by (simp add: dget_def)

lemma groups_of_settles:
  assumes wf: "outbox_wf ob" and sent: "\<forall>d i. i \<in> set (dget [] (sent_ids ob) d) \<longrightarrow> (d, i) \<in> c"
  shows "settles c ob (groups_of (sent_ids ob))"
proof -
  have d: "distinct (map fst (sent_ids ob))" using wf by (simp add: outbox_wf_def)
  have "list_all (\<lambda>(n, ids). distinct ids) (sent_ids ob)"
    using wf dget_mem [OF d] by (force simp: outbox_wf_def flights_at_def flights_def list_all_iff)
  moreover have "list_all (\<lambda>n. CHR 0x00 \<notin> set n) (map fst (sent_ids ob))"
    using wf by (auto simp: outbox_wf_def list_all_iff)
  note exact = group_exact [OF calculation this]
  have "set ns \<subseteq> fst ` set (sent_ids ob) \<and> set ns \<times> set ids \<subseteq> c"
    if g: "(ns, ids) \<in> set (groups_of (sent_ids ob))" for ns ids
  proof -
    have e: "ns \<noteq> []" "i \<in> set ids \<longleftrightarrow> ns = done_for (sent_ids ob) i" for i
      using exact [OF g] by auto
    have in_c: "(n, i) \<in> c" if "n \<in> set (done_for (sent_ids ob) i)" for n i
      using that sent dget_mem [OF d] by (force simp: done_for_def)
    have "n \<in> fst ` set (sent_ids ob)" if "n \<in> set (done_for (sent_ids ob) i)" for n i
      using that by (force simp: done_for_def)
    moreover obtain i where "ns = done_for (sent_ids ob) i"
      using group_nonempty [OF g] e(2) by (metis list.set_intros(1) neq_Nil_conv)
    ultimately have "set ns \<subseteq> fst ` set (sent_ids ob)" by auto
    moreover have "(n, j) \<in> c" if "n \<in> set ns" "j \<in> set ids" for n j
      using in_c [of n j] e(2) [of j] that by simp
    ultimately show ?thesis by auto
  qed
  then show ?thesis unfolding settles_def by blast
qed

subsection \<open>Every step keeps a process honest\<close>

lemma honest_mono: "honest c ob \<Longrightarrow> c \<subseteq> c' \<Longrightarrow> honest c' ob"
  by (fastforce simp: honest_def settles_def)

lemma settles_cong: "sent_ids ob' = sent_ids ob \<Longrightarrow> settles c ob' gs = settles c ob gs"
  by (simp add: settles_def)

lemma honest_publish: "honest c ob \<Longrightarrow> honest c (fst (publish ob r))"
  using settles_cong [of "publish_row ob r" ob]
  by (auto simp: honest_def publish_def publish_row_wf to_settle_def)

lemma to_settle_finished [simp]:
  "to_settle (landed d i ob) = to_settle ob" "to_settle (failed d i ob) = to_settle ob"
  by (simp_all add: to_settle_def landed_def failed_def finished_def)

lemma honest_failed: "honest c ob \<Longrightarrow> honest c (failed d i ob)"
  using settles_cong [of "failed d i ob" ob]
  by (auto simp: honest_def failed_wf) (simp_all add: failed_def finished_def)

lemma honest_landed:
  assumes "honest c ob" "i \<in> set (dget [] (inflight ob) d)"
  shows "honest (insert (d, i) c) (landed d i ob)"
proof -
  have "sent_ids (landed d i ob) = AList.update d (sadd i (dget [] (sent_ids ob) d)) (sent_ids ob)"
    by (simp add: landed_def finished_def)
  with assms landed_wf [of ob i d] show ?thesis
    by (fastforce simp: honest_def settles_def)
qed

lemma settles_append [simp]: "settles c ob (gs @ hs) \<longleftrightarrow> settles c ob gs \<and> settles c ob hs"
  by (simp add: settles_def ball_Un)

lemma settles_simps [simp]:
  "settles c ob []" "settles c (ob\<lparr>pump := p\<rparr>) gs = settles c ob gs"
  "settles c (ob\<lparr>closing := x\<rparr>) gs = settles c ob gs"
  "settles c (ob\<lparr>unassigned := u\<rparr>) gs = settles c ob gs"
  by (simp_all add: settles_def)

lemma honest_tick: "honest c ob \<Longrightarrow> honest c (tick owned ob)"
  by (simp add: honest_def tick_def assignment_def to_settle_def split: option.splits list.splits)

lemma honest_page: "honest c ob \<Longrightarrow> pump ob = Reading after \<Longrightarrow> honest c (page_read ob page)"
  using settles_cong [of "foldl publish_row ob (due_rows ob page)" ob]
  by (auto simp: honest_def page_read_def publish_all_wf to_settle_def groups_of_settles)

lemma honest_waited: "honest c ob \<Longrightarrow> honest c (waited ob)"
  by (auto simp: honest_def waited_def to_settle_def groups_of_settles split: phase.splits)

lemma honest_drop:
  "honest c ob \<Longrightarrow> pump ob = Marking (g # gs) \<Longrightarrow> honest c (ob\<lparr>pump := Marking gs\<rparr>)"
  "honest c ob \<Longrightarrow> pump ob = Marking [] \<Longrightarrow> honest c (ob\<lparr>pump := Idle\<rparr>)"
  "honest c ob \<Longrightarrow> closing ob = Last_marking (g # gs) \<Longrightarrow> honest c (ob\<lparr>closing := Last_marking gs\<rparr>)"
  by (simp_all add: honest_def to_settle_def settles_def)

lemma honest_close: "honest c ob \<Longrightarrow> honest c (close ob)" "honest c ob \<Longrightarrow> honest c (drained ob)"
  by (auto simp: honest_def close_def drained_def to_settle_def groups_of_settles)

lemma settled_phase:
  "settled ds ids (ob\<lparr>pump := p\<rparr>) = (settled ds ids ob)\<lparr>pump := p\<rparr>"
  "settled ds ids (ob\<lparr>closing := x\<rparr>) = (settled ds ids ob)\<lparr>closing := x\<rparr>"
  by (cases ob; simp add: settled_def)+

lemma honest_settled:
  assumes "honest c ob" "set ds \<subseteq> fst ` set (sent_ids ob)"
  shows "honest c (settled ds ids ob)"
proof -
  have "fst ` set (sent_ids (settled ds ids ob)) = fst ` set (sent_ids ob)"
    using settled_names [OF assms(2)] assms(1) by (simp add: honest_def outbox_wf_def)
  then have "settles c (settled ds ids ob) gs = settles c ob gs" for gs
    by (simp add: settles_def)
  moreover have "to_settle (settled ds ids ob) = to_settle ob"
    by (simp add: to_settle_def settled_def)
  moreover have "i \<in> set (dget [] (sent_ids (settled ds ids ob)) d) \<Longrightarrow>
      i \<in> set (dget [] (sent_ids ob) d)" for d i
    by (auto simp: settled_sent split: if_splits)
  ultimately show ?thesis
    using assms settled_wf [of ob ds ids] by (simp add: honest_def)
qed

section \<open>The storage\<close>

text \<open>
  What \<open>types/outbox.ts\<close> asks of a storage: a row is inserted under an identity no other has; a
  page holds rows of the lanes asked for, due and not settled; and settling takes the destinations
  named out of the rows named, marks published the ones left with none, and touches nothing else.
\<close>

locale outbox_storage =
  fixes ops :: "'s outbox_ops"
    and good :: "'s \<Rightarrow> bool"
  assumes insert_row: "op_insert ops s r = Some t \<Longrightarrow>
      op_find ops s (row_id r) = None \<and>
      (\<forall>i. op_find ops t i = (if i = row_id r then Some r else op_find ops s i))"
    and insert_good: "good s \<Longrightarrow> op_insert ops s r = Some t \<Longrightarrow> good t"
    and settle_good: "good s \<Longrightarrow> good (op_settle ops s ids ds)"
    and pending_rows: "good s \<Longrightarrow> r \<in> set (op_pending ops s lanes now limit after) \<Longrightarrow>
      op_find ops s (row_id r) = Some r \<and> lane r \<in> set lanes \<and> \<not> published r \<and>
      num_le (pending r) (Fin (of_int now))"
    and settle_absent: "op_find ops s i = None \<Longrightarrow> op_find ops (op_settle ops s ids ds) i = None"
    and settle_other: "i \<notin> set ids \<Longrightarrow> op_find ops (op_settle ops s ids ds) i = op_find ops s i"
    and settle_row: "i \<in> set ids \<Longrightarrow> op_find ops s i = Some r \<Longrightarrow>
      \<exists>ns. set ns = set (outstanding r) - set ds \<and>
        op_find ops (op_settle ops s ids ds) i = Some (r\<lparr>outstanding := ns, published := (ns = [])\<rparr>)"
begin

definition accounted :: "'s world \<Rightarrow> string \<Rightarrow> row \<Rightarrow> bool" where
  "accounted w i r \<longleftrightarrow> (\<exists>ns. written w i = Some ns \<and> set (outstanding r) \<subseteq> set ns \<and>
     (set ns - set (outstanding r)) \<times> {i} \<subseteq> confirmed w \<and> (published r \<longrightarrow> outstanding r = []))"

definition world_ok :: "'s world \<Rightarrow> bool" where
  "world_ok w \<longleftrightarrow> (\<forall>n. honest (confirmed w) (replica w n)) \<and>
     (\<forall>i r. op_find ops (table w) i = Some r \<longrightarrow> accounted w i r)"

lemma accounted_settle:
  assumes "op_find ops (op_settle ops (table w) ids ds) i = Some r"
    and "\<forall>i r. op_find ops (table w) i = Some r \<longrightarrow> accounted w i r"
    and "set ds \<times> set ids \<subseteq> confirmed w"
  shows "accounted w i r"
proof (cases "i \<in> set ids")
  case False
  then show ?thesis using assms settle_other by metis
next
  case True
  obtain r' where r': "op_find ops (table w) i = Some r'"
    using assms(1) settle_absent by (metis not_None_eq)
  obtain ns where "set ns = set (outstanding r') - set ds"
    "r = r'\<lparr>outstanding := ns, published := (ns = [])\<rparr>"
    using settle_row [OF True r', of ds] assms(1) by auto
  with assms(2,3) r' True show ?thesis by (fastforce simp: accounted_def)
qed

lemma accounted_cong: "written w' i = written w i \<Longrightarrow> confirmed w \<subseteq> confirmed w' \<Longrightarrow>
    accounted w i r \<Longrightarrow> accounted w' i r"
  by (auto simp: accounted_def)

lemma world_ok_replica:
  assumes "world_ok w" "honest (confirmed w) ob"
  shows "world_ok (put_replica w n ob)"
  using assms by (auto simp: world_ok_def put_replica_def accounted_def)

lemma world_ok_settle:
  assumes "world_ok w" "honest (confirmed w) ob" "set ds \<times> set ids \<subseteq> confirmed w"
  shows "world_ok ((put_replica w n ob)\<lparr>table := op_settle ops (table w) ids ds\<rparr>)"
proof -
  have "accounted w i r" if "op_find ops (op_settle ops (table w) ids ds) i = Some r" for i r
    using accounted_settle [OF that _ assms(3)] assms(1) by (simp add: world_ok_def)
  then show ?thesis
    using assms by (auto simp: world_ok_def put_replica_def accounted_def)
qed

lemma world_ok_start: "(\<And>i. op_find ops (table w) i = None) \<Longrightarrow> (\<And>n. fresh (replica w n)) \<Longrightarrow> world_ok w"
  by (auto simp: world_ok_def honest_def fresh_wf to_settle_def) (auto simp: fresh_def dget_empty)

lemma world_ok_commit:
  assumes "world_ok w" "op_insert ops (table w) r = Some t" "\<not> published r"
  shows "world_ok (w\<lparr>table := t, written := (written w)(row_id r \<mapsto> outstanding r)\<rparr>)"
  using assms insert_row [OF assms(2)] by (auto simp: world_ok_def accounted_def)

lemma honest_replica: "world_ok w \<Longrightarrow> honest (confirmed w) (replica w n)"
  by (simp add: world_ok_def)

lemma honest_marks:
  assumes "world_ok w" "(ds, ids) \<in> set (to_settle (replica w n))"
  shows "set ds \<times> set ids \<subseteq> confirmed w" "set ds \<subseteq> fst ` set (sent_ids (replica w n))"
  using honest_replica [OF assms(1), of n] assms(2) by (auto simp: honest_def settles_def)

lemma world_step_ok:
  assumes "world_step ops w w'" "world_ok w"
  shows "world_ok w'"
  using assms
proof cases
  case (commit r n i owned u now now' current ev t)
  then have "\<not> published r" by (simp add: make_row_def)
  with commit assms(2) show ?thesis by (simp add: world_ok_commit)
next
  case (land i n d)
  have "world_ok (w\<lparr>confirmed := insert (d, i) (confirmed w)\<rparr>)"
    using assms(2)
    by (auto simp: world_ok_def intro: honest_mono accounted_cong [of _ _ w])
  moreover have "honest (insert (d, i) (confirmed w)) (landed d i (replica w n))"
    using land assms(2) by (simp add: honest_landed honest_replica)
  moreover have "(put_replica w n ob)\<lparr>confirmed := c\<rparr> = put_replica (w\<lparr>confirmed := c\<rparr>) n ob" for ob c
    by (cases w) (simp add: put_replica_def)
  ultimately show ?thesis
    using world_ok_replica [of "w\<lparr>confirmed := insert (d, i) (confirmed w)\<rparr>" _ n] land(1) by simp
next
  case (mark n ds ids gs)
  then have m: "(ds, ids) \<in> set (to_settle (replica w n))" by (simp add: to_settle_def)
  have "honest (confirmed w) ((settled ds ids ((replica w n)\<lparr>pump := Marking gs\<rparr>)))"
    using honest_marks(2) [OF assms(2) m] mark assms(2)
    by (intro honest_settled honest_drop(1)) (auto simp: honest_replica)
  then show ?thesis
    using world_ok_settle [OF assms(2) _ honest_marks(1) [OF assms(2) m]] mark
    by (simp add: settled_phase)
next
  case (last_mark n ds ids gs)
  then have m: "(ds, ids) \<in> set (to_settle (replica w n))" by (simp add: to_settle_def)
  have "honest (confirmed w) ((settled ds ids ((replica w n)\<lparr>closing := Last_marking gs\<rparr>)))"
    using honest_marks(2) [OF assms(2) m] last_mark assms(2)
    by (intro honest_settled honest_drop(3)) (auto simp: honest_replica)
  then show ?thesis
    using world_ok_settle [OF assms(2) _ honest_marks(1) [OF assms(2) m]] last_mark
    by (simp add: settled_phase)
qed (auto simp: assms(2) honest_replica intro!: world_ok_replica
    intro: honest_publish honest_failed honest_tick honest_page honest_waited honest_drop honest_close)

lemma reachable_ok: "reachable ops w \<Longrightarrow> world_ok w"
  by (induction rule: reachable.induct) (auto intro: world_ok_start world_step_ok)

text \<open>
  A cycle recovers rows of the lanes this replica owns and of no other, each due and not settled,
  and none where it owns no lane.
\<close>

lemma good_step: "world_step ops w w' \<Longrightarrow> good (table w) \<Longrightarrow> good (table w')"
  by (induction rule: world_step.induct) (auto simp: put_replica_def intro: insert_good settle_good)

lemma page_owned:
  assumes "good s" "r \<in> set (read_page ops s owned now fails ob after)"
  shows "\<exists>lanes. owned = Some lanes \<and> lane r \<in> set lanes \<and> op_find ops s (row_id r) = Some r \<and>
    \<not> published r \<and> num_le (pending r) (Fin (of_int now))"
proof -
  obtain l ls where "owned = Some (l # ls)" "r \<in> set (op_pending ops s (l # ls) now (batch ob) after)"
    using assms(2) by (auto simp: read_page_def split: option.splits list.splits if_splits)
  with pending_rows [OF assms(1) this(2)] show ?thesis by simp
qed

text \<open>A destination is never settled for a row it has not confirmed.\<close>

lemma settled_was_confirmed:
  "reachable ops w \<Longrightarrow> op_find ops (table w) i = Some r \<Longrightarrow> written w i = Some ns \<Longrightarrow>
     d \<in> set ns \<Longrightarrow> d \<notin> set (outstanding r) \<Longrightarrow> (d, i) \<in> confirmed w"
  using reachable_ok by (fastforce simp: world_ok_def accounted_def)

lemma published_was_confirmed:
  "reachable ops w \<Longrightarrow> op_find ops (table w) i = Some r \<Longrightarrow> published r \<Longrightarrow>
     \<exists>ns. written w i = Some ns \<and> set ns \<times> {i} \<subseteq> confirmed w"
  using reachable_ok by (fastforce simp: world_ok_def accounted_def)

lemma replica_bounded:
  "reachable ops w \<Longrightarrow>
     length (dget [] (inflight (replica w n)) d) \<le> INFLIGHT \<and>
     distinct (dget [] (inflight (replica w n)) d) \<and>
     length (dget [] (inflight (replica w n)) d) + length (dget [] (sent_ids (replica w n)) d)
       < INFLIGHT + PUBLISHED"
  using reachable_ok [of w]
  by (auto simp: world_ok_def honest_def outbox_wf_def flights_at_def flights_def)

end

end
