(* ===== verification/State.thy ===== *)
theory State
  imports Outbox Query
begin

text \<open>
  \<open>runtime/core/source/state.ts\<close> with \<open>types/{storages,inbox}.ts\<close>: what an operation acquires and
  commits, one function per scope a manifest may declare. The storage is reached through
  \<open>storage_ops\<close>, the members \<open>types/storages.ts\<close> asks of one; what a component holds is the record
  \<open>held\<close>: the storage's own state, the outbox of the process where there is one, and the rows
  emitted inline so far, to the destinations named. What the source reads of the world while it
  runs (a clock, an identity, a lane, the chain in scope) is the record \<open>moment\<close>.
\<close>

section \<open>The storage\<close>

record call_record =
  call_id :: string
  call_reply :: val
  call_retention :: "int option"

record ('s, 'node) storage_ops =
  st_get :: "'s \<Rightarrow> 'node parsed \<Rightarrow> thrown + stored option"
  st_find :: "'s \<Rightarrow> 'node parsed \<Rightarrow> thrown + stored list"
  st_stream :: "'s \<Rightarrow> 'node parsed \<Rightarrow> thrown + val"
  st_store :: "'s \<Rightarrow> stored \<Rightarrow> row option \<Rightarrow> call_record option \<Rightarrow> (thrown + bool) \<times> 's"
  st_massStore :: "'s \<Rightarrow> stored list \<Rightarrow> row list option \<Rightarrow> (thrown + bool) \<times> 's"
  st_upsert :: "'s \<Rightarrow> 'node parsed \<Rightarrow> changes \<Rightarrow> row option \<Rightarrow> call_record option \<Rightarrow>
     (thrown + (stored \<times> row option) option) \<times> 's"
  st_ensure :: "'s \<Rightarrow> 'node parsed option \<Rightarrow> changes \<Rightarrow> stored \<Rightarrow> row option \<Rightarrow> call_record option \<Rightarrow>
     (thrown + stored) \<times> 's"
  st_recall :: "'s \<Rightarrow> string \<Rightarrow> val option"
  st_raw :: "'s \<Rightarrow> val"

section \<open>The state\<close>

record 's held =
  store_of :: 's
  outbox_of :: "outbox option"
  emissions :: "(string \<times> string) list"

record ticket =
  tk_id :: string
  tk_owned :: "nat list option"
  tk_draw :: rat
  tk_now :: int
  tk_time :: int
  tk_current :: "invocation option"

record moment =
  m_t1 :: int
  m_t2 :: int
  m_id :: string
  m_rows :: "nat \<Rightarrow> ticket"
  m_emit :: "row \<Rightarrow> string \<Rightarrow> thrown option"

record ('s, 'node) state_cfg =
  sc_ops :: "('s, 'node) storage_ops"
  sc_class :: entity_class
  sc_associated :: bool

definition ticket_row :: "outbox \<Rightarrow> ticket \<Rightarrow> event \<Rightarrow> row" where
  "ticket_row ob k ev =
     make_row ob (tk_id k) (tk_owned k) (tk_draw k) (tk_now k) (tk_time k) (tk_current k) ev"

definition state_init :: "('s, 'node) state_cfg \<Rightarrow> moment \<Rightarrow> string option \<Rightarrow> entity" where
  "state_init cfg m i =
     init_entity (sc_class cfg) (m_t1 m) (case i of None \<Rightarrow> m_id m | Some j \<Rightarrow> j)"

definition state_fit :: "('s, 'node) state_cfg \<Rightarrow> moment \<Rightarrow> changes \<Rightarrow> thrown + unit" where
  "state_fit cfg m values = factory_fit (sc_class cfg) (m_t1 m) (m_id m) values"

definition state_entry ::
  "('s, 'node) state_cfg \<Rightarrow> moment \<Rightarrow> 's held \<Rightarrow> 'node parsed \<Rightarrow> bool \<Rightarrow> thrown + entity option" where
  "state_entry cfg m h q mut =
     rbind (st_get (sc_ops cfg) (store_of h) q) (\<lambda>found.
       case found of
         Some record \<Rightarrow> Inr (Some (factory_object (sc_class cfg) (m_t1 m) record mut))
       | None \<Rightarrow>
           if sc_associated cfg \<and> q_id q \<noteq> None \<and> q_criteria q = None \<and> q_version q = None
           then Inr (Some (state_init cfg m (q_id q)))
           else if q_version q \<noteq> None
           then Inl (Exc (derive_exception StatePrecondition None None))
           else Inr None)"

definition state_entries ::
  "('s, 'node) state_cfg \<Rightarrow> moment \<Rightarrow> 's held \<Rightarrow> 'node parsed \<Rightarrow> bool \<Rightarrow> thrown + entity_set" where
  "state_entries cfg m h q mut =
     rbind (st_find (sc_ops cfg) (store_of h) q) (\<lambda>records.
       let init = (case q_ids q of
             None \<Rightarrow> None
           | Some ids \<Rightarrow>
               if sc_associated cfg \<and> length records < length ids
               then Some (filter (\<lambda>i. \<not> list_ex (\<lambda>r. rec_id r = i) records) ids)
               else None)
       in Inr (factory_objects (sc_class cfg) (m_t1 m) records init mut))"

definition state_stream ::
  "('s, 'node) state_cfg \<Rightarrow> 's held \<Rightarrow> 'node parsed \<Rightarrow> thrown + val" where
  "state_stream cfg h q = st_stream (sc_ops cfg) (store_of h) q"

definition state_changeset :: "'node parsed option \<Rightarrow> 'node parsed option changeset" where
  "state_changeset q = new_changeset q"

definition state_recall :: "('s, 'node) state_cfg \<Rightarrow> 's held \<Rightarrow> string \<Rightarrow> val option" where
  "state_recall cfg h i = st_recall (sc_ops cfg) (store_of h) i"

text \<open>
  \<open>#publish\<close>. Inline, every destination is attempted, and the failure of the first of them is the
  caller's.
\<close>

definition state_publish :: "moment \<Rightarrow> 's held \<Rightarrow> row option \<Rightarrow> (thrown + unit) \<times> 's held" where
  "state_publish m h r =
     (case (r, outbox_of h) of
        (Some row, Some ob) \<Rightarrow>
          (case publish ob row of
             (ob', inline) \<Rightarrow>
               ((case List.map_filter (m_emit m row) inline of [] \<Rightarrow> Inr () | e # _ \<Rightarrow> Inl e),
                h\<lparr>outbox_of := Some ob', emissions := emissions h @ map (\<lambda>d. (d, row_id row)) inline\<rparr>))
      | _ \<Rightarrow> (Inr (), h))"

fun state_publish_all ::
  "moment \<Rightarrow> 's held \<Rightarrow> row list \<Rightarrow> (thrown + unit) \<times> 's held" where
  "state_publish_all m h [] = (Inr (), h)"
| "state_publish_all m h (r # rs) =
     (let (one, h') = state_publish m h (Some r);
          (rest, h'') = state_publish_all m h' rs
      in (rbind one (\<lambda>_. rest), h''))"

definition state_ensure ::
  "('s, 'node) state_cfg \<Rightarrow> moment \<Rightarrow> 's held \<Rightarrow> 'node parsed option \<Rightarrow> changes \<Rightarrow> val \<Rightarrow>
   call_record option \<Rightarrow> (thrown + entity) \<times> 's held" where
  "state_ensure cfg m h q properties input call =
     (let object = state_init cfg m None;
          blank = spread_changes (state object) properties
      in case set_entity (sc_class cfg) (m_t1 m) (m_t2 m) object blank of
           Inl e \<Rightarrow> (Inl e, h)
         | Inr object' \<Rightarrow>
             let row = map_option (\<lambda>ob. ticket_row ob (m_rows m 0) (entity_event object' input)) (outbox_of h);
                 (result, s) = st_ensure (sc_ops cfg) (store_of h) q properties (state object') row call;
                 h' = h\<lparr>store_of := s\<rparr>
             in case result of
                  Inl e \<Rightarrow> (Inl e, h')
                | Inr record \<Rightarrow>
                    if rec_id record \<noteq> rec_id (state object')
                    then (Inr (factory_object (sc_class cfg) (m_t1 m) record False), h')
                    else (case state_publish m h' row of
                            (sent, h'') \<Rightarrow> (rbind sent (\<lambda>_. Inr object'), h'')))"

definition state_commit_one ::
  "('s, 'node) state_cfg \<Rightarrow> moment \<Rightarrow> 's held \<Rightarrow> entity \<Rightarrow> val \<Rightarrow> call_record option \<Rightarrow>
   (thrown + bool) \<times> 's held" where
  "state_commit_one cfg m h e input call =
     (let row = map_option (\<lambda>ob. ticket_row ob (m_rows m 0) (entity_event e input)) (outbox_of h);
          (result, s) = st_store (sc_ops cfg) (store_of h) (state e) row call;
          h' = h\<lparr>store_of := s\<rparr>
      in case result of
           Inl x \<Rightarrow> (Inl x, h')
         | Inr ok \<Rightarrow>
             if ok then (case state_publish m h' row of (sent, h'') \<Rightarrow> (rbind sent (\<lambda>_. Inr True), h''))
             else (Inr False, h'))"

definition state_massCommit ::
  "('s, 'node) state_cfg \<Rightarrow> moment \<Rightarrow> 's held \<Rightarrow> entity_set \<Rightarrow> val \<Rightarrow> (thrown + bool) \<times> 's held" where
  "state_massCommit cfg m h es input =
     (if get_entities es = [] then (Inr True, h)
      else
        let rows = map_option (\<lambda>ob. map (\<lambda>(i, ev). ticket_row ob (m_rows m i) ev)
                     (enumerate 0 (entities_events es input))) (outbox_of h);
            (result, s) = st_massStore (sc_ops cfg) (store_of h) (get_entities es) rows;
            h' = h\<lparr>store_of := s\<rparr>
        in case result of
             Inl x \<Rightarrow> (Inl x, h')
           | Inr ok \<Rightarrow>
               (case (ok, rows) of
                  (True, Some rs) \<Rightarrow>
                    (case state_publish_all m h' rs of (sent, h'') \<Rightarrow> (rbind sent (\<lambda>_. Inr True), h''))
                | _ \<Rightarrow> (Inr ok, h')))"

definition state_apply ::
  "('s, 'node) state_cfg \<Rightarrow> moment \<Rightarrow> 's held \<Rightarrow> 'node parsed changeset \<Rightarrow> val \<Rightarrow>
   call_record option \<Rightarrow> (thrown + stored) \<times> 's held" where
  "state_apply cfg m h cs input call =
     (let unfilled = \<lparr>ev_origin = None, ev_state = None, ev_trailers = None, ev_input = input\<rparr>;
          row = map_option (\<lambda>ob. ticket_row ob (m_rows m 0) unfilled) (outbox_of h);
          (result, s) = st_upsert (sc_ops cfg) (store_of h) (cs_query cs) (cs_state cs) row call;
          h' = h\<lparr>store_of := s\<rparr>
      in case result of
           Inl x \<Rightarrow> (Inl x, h')
         | Inr None \<Rightarrow>
             (Inl (Exc (derive_exception
                (if q_version (cs_query cs) = None then StateNotFound else StatePrecondition)
                None None)), h')
         | Inr (Some (record, row')) \<Rightarrow>
             let row'' = map_option (\<lambda>r. r\<lparr>row_event :=
                   (row_event r)\<lparr>ev_state := or_else (ev_state (row_event r)) (Some record)\<rparr>\<rparr>) row'
             in case state_publish m h' row'' of (sent, h'') \<Rightarrow> (rbind sent (\<lambda>_. Inr record), h''))"

section \<open>Properties\<close>

lemma state_publish_store [simp]: "store_of (snd (state_publish m h r)) = store_of h"
  by (auto simp: state_publish_def split: option.splits prod.splits)

lemma state_publish_all_store [simp]: "store_of (snd (state_publish_all m h rs)) = store_of h"
  by (induction rs arbitrary: h) (simp_all add: case_prod_beta)

text \<open>
  A miss by identity is a blank only of an entity its identity makes: where the component is
  associated and the query names an identity and nothing else that selects. Any other miss is the
  precondition of the version it named, where it named one, and nothing otherwise.
\<close>

theorem state_entry_miss:
  "st_get (sc_ops cfg) (store_of h) q = Inr None \<Longrightarrow>
   state_entry cfg m h q mut =
     (case (q_version q, q_id q, q_criteria q) of
        (Some _, _, _) \<Rightarrow> Inl (Exc (derive_exception StatePrecondition None None))
      | (None, Some i, None) \<Rightarrow>
          if sc_associated cfg then Inr (Some (init_entity (sc_class cfg) (m_t1 m) i)) else Inr None
      | _ \<Rightarrow> Inr None)"
  by (auto simp: state_entry_def state_init_def split: option.splits)

lemma foldl_init:
  "map (\<lambda>e. rec_id (state e)) (foldl (\<lambda>es i. init_entity c t i # es) es ids) =
     rev (map (\<lambda>i. rec_id (state (init_entity c t i))) ids) @ map (\<lambda>e. rec_id (state e)) es"
  by (induction ids arbitrary: es) simp_all

lemma init_id: "ch_id (blank c) = None \<Longrightarrow> rec_id (state (init_entity c t i)) = i"
  by (simp add: init_entity_def write_first_def filled_def compose_def spread_changes_def Let_def)

lemma object_id [simp]: "rec_id (state (factory_object c t r m)) = rec_id r"
  by (simp add: factory_object_def entity_simps)

lemma objects_ids:
  "ch_id (blank c) = None \<Longrightarrow> map (rec_id \<circ> state) (factory_objects c t rs init m) =
     (case init of None \<Rightarrow> [] | Some ids \<Rightarrow> rev ids) @ map rec_id rs"
  by (cases init) (simp_all add: factory_objects_def Let_def foldl_init init_id comp_def)

text \<open>
  Over an associated entity, a set asked for by its identities is answered whole: where the
  storage answers each identity at most once and nothing that was not asked for, every identity
  of the query is of exactly the records found or of a blank beside them, and nothing else is.
\<close>

theorem state_entries_complete:
  assumes "sc_associated cfg" "q_ids q = Some ids" "ch_id (blank (sc_class cfg)) = None"
    and "st_find (sc_ops cfg) (store_of h) q = Inr records"
    and "distinct (map rec_id records)" "set (map rec_id records) \<subseteq> set ids"
    and "state_entries cfg m h q mut = Inr es"
  shows "set (map (rec_id \<circ> state) es) = set ids"
proof (cases "length records < length ids")
  case True
  with assms have "set (map (rec_id \<circ> state) es) =
      set (filter (\<lambda>i. \<not> list_ex (\<lambda>r. rec_id r = i) records) ids) \<union> set (map rec_id records)"
    by (auto simp only: state_entries_def rbind_Inr Let_def option.case if_True simp_thms sum.inject
        objects_ids set_append set_rev)
  with assms(6) show ?thesis by (auto simp: list_ex_iff)
next
  case False
  then have "length ids \<le> card (set (map rec_id records))"
    using distinct_card [OF assms(5)] by (simp only: length_map)
  then have "card (set ids) \<le> card (set (map rec_id records))" using card_length le_trans by blast
  then have "set (map rec_id records) = set ids"
    using assms(6) by (meson List.finite_set card_seteq)
  moreover have "set (map (rec_id \<circ> state) es) = set (map rec_id records)"
    using False assms
    by (auto simp only: state_entries_def rbind_Inr Let_def option.case if_False simp_thms sum.inject
        objects_ids append_Nil)
  ultimately show ?thesis by simp
qed

section \<open>What a storage promises\<close>

definition version_of :: "stored \<Rightarrow> int" where
  "version_of r = (case VERSION r of None \<Rightarrow> 0 | Some n \<Rightarrow> n)"

definition is_duplicate_call :: "thrown \<Rightarrow> bool" where
  "is_duplicate_call e \<longleftrightarrow> code_of e = Some (Num (int (codes DuplicateCall)))"

text \<open>
  The part of \<open>types/storages.ts\<close> an operation relies on: a commit that is not made leaves the
  storage as it was; one that is made is a compare-and-swap of one record by its version, with
  the call it carries recorded in the same step; and a call already recorded is refused.
\<close>

locale entity_storage =
  fixes ops :: "('s, 'node) storage_ops"
    and lookup :: "'s \<Rightarrow> string \<Rightarrow> stored option"
  assumes store_refused: "st_store ops s r row call = (res, s') \<Longrightarrow> res \<noteq> Inr True \<Longrightarrow> s' = s"
    and store_written: "st_store ops s r row call = (Inr True, s') \<Longrightarrow>
      lookup s' = (lookup s)(rec_id r \<mapsto> structured_clone r)"
    and store_swapped: "st_store ops s r row call = (Inr True, s') \<Longrightarrow>
      map_option VERSION (lookup s (rec_id r)) =
        (if VERSION r = Some 1 then None else Some (Some (version_of r - 1)))"
    and store_recorded: "st_store ops s r row (Some c) = (Inr True, s') \<Longrightarrow> call_reply c = Obj ps \<Longrightarrow>
      st_recall ops s (call_id c) = None \<and> st_recall ops s' (call_id c) = Some (Obj ps)"
    and store_known: "st_recall ops s (call_id c) \<noteq> None \<Longrightarrow>
      \<exists>e. st_store ops s r row (Some c) = (Inl e, s) \<and> is_duplicate_call e"
    and mass_refused: "st_massStore ops s rs rows = (res, s') \<Longrightarrow> res \<noteq> Inr True \<Longrightarrow> s' = s"
    and upsert_refused: "st_upsert ops s q ch row call = (res2, s') \<Longrightarrow>
      (\<forall>x. res2 \<noteq> Inr (Some x)) \<Longrightarrow> s' = s"
    and upsert_recorded: "st_upsert ops s q ch row (Some k) = (Inr (Some (r, row')), s') \<Longrightarrow>
      call_reply k = Obj ps \<Longrightarrow>
      st_recall ops s (call_id k) = None \<and>
      st_recall ops s' (call_id k) = Some (Obj
        (if dget Undef ps ''output'' = Undef then AList.update ''output'' (record_val r) ps else ps))"
    and upsert_known: "st_recall ops s (call_id k) \<noteq> None \<Longrightarrow>
      st_upsert ops s q ch row (Some k) = (res2, s') \<Longrightarrow>
      s' = s \<and> (\<forall>x. res2 \<noteq> Inr (Some x))"

section \<open>What a commit does to the storage\<close>

lemma publish_storeD:
  "state_publish m h r = (x, h') \<Longrightarrow> store_of h' = store_of h"
  "state_publish_all m h rs = (x, h') \<Longrightarrow> store_of h' = store_of h"
  using state_publish_store [of m h r] state_publish_all_store [of m h rs] by simp_all

lemma rbind_const: "rbind u (\<lambda>_. Inr r) = Inr r \<or> (\<exists>x. rbind u (\<lambda>_. Inr r) = Inl x)"
  by (cases u) simp_all

lemma commit_one_store:
  assumes "state_commit_one cfg m h e input call = (res, h')"
  shows "\<exists>row r. st_store (sc_ops cfg) (store_of h) (state e) row call = (r, store_of h') \<and>
    (case r of Inl x \<Rightarrow> res = Inl x | Inr ok \<Rightarrow> if ok then res \<noteq> Inr False else res = Inr False)"
proof -
  define row where "row = map_option (\<lambda>ob. ticket_row ob (m_rows m 0) (entity_event e input)) (outbox_of h)"
  obtain r s where rs: "st_store (sc_ops cfg) (store_of h) (state e) row call = (r, s)" by fastforce
  have "store_of h' = s \<and>
      (case r of Inl x \<Rightarrow> res = Inl x | Inr ok \<Rightarrow> if ok then res \<noteq> Inr False else res = Inr False)"
    using assms rs
    by (auto simp: state_commit_one_def Let_def row_def [symmetric] result_simps dest: publish_storeD
        split: sum.splits prod.splits if_splits)
  with rs show ?thesis by blast
qed

lemma mass_commit_store:
  assumes "state_massCommit cfg m h es input = (res, h')" "get_entities es \<noteq> []"
  shows "\<exists>rows r. st_massStore (sc_ops cfg) (store_of h) (get_entities es) rows = (r, store_of h') \<and>
    (case r of Inl x \<Rightarrow> res = Inl x | Inr ok \<Rightarrow> if ok then res \<noteq> Inr False else res = Inr False)"
proof -
  define rows where "rows = map_option (\<lambda>ob. map (\<lambda>(i, ev). ticket_row ob (m_rows m i) ev)
    (enumerate 0 (entities_events es input))) (outbox_of h)"
  obtain r s where rs: "st_massStore (sc_ops cfg) (store_of h) (get_entities es) rows = (r, s)"
    by fastforce
  have "store_of h' = s \<and>
      (case r of Inl x \<Rightarrow> res = Inl x | Inr ok \<Rightarrow> if ok then res \<noteq> Inr False else res = Inr False)"
    using assms rs
    by (auto simp: state_massCommit_def Let_def rows_def [symmetric] result_simps dest: publish_storeD
        split: sum.splits prod.splits if_splits option.splits bool.splits)
  with rs show ?thesis by blast
qed

lemma apply_store:
  assumes "state_apply cfg m h cs input call = (res, h')"
  shows "\<exists>row r. st_upsert (sc_ops cfg) (store_of h) (cs_query cs) (cs_state cs) row call = (r, store_of h') \<and>
    (case r of
       Inr (Some (record, row')) \<Rightarrow> res = Inr record \<or> (\<exists>x. res = Inl x)
     | _ \<Rightarrow> \<exists>x. res = Inl x)"
proof -
  define row where "row = map_option (\<lambda>ob. ticket_row ob (m_rows m 0)
    \<lparr>ev_origin = None, ev_state = None, ev_trailers = None, ev_input = input\<rparr>) (outbox_of h)"
  obtain r s where rs: "st_upsert (sc_ops cfg) (store_of h) (cs_query cs) (cs_state cs) row call = (r, s)"
    by fastforce
  have "store_of h' = s \<and>
      (case r of Inr (Some (record, row')) \<Rightarrow> res = Inr record \<or> (\<exists>x. res = Inl x) | _ \<Rightarrow> \<exists>x. res = Inl x)"
    using assms rs
    by (auto simp: state_apply_def Let_def row_def [symmetric] dest: publish_storeD
        split: sum.splits prod.splits option.splits if_splits) (metis rbind_const)
  with rs show ?thesis by blast
qed

end
