(* ===== verification/Operation.thy ===== *)
theory Operation
  imports State
begin

text \<open>
  \<open>runtime/core/source/{operation,transition,assignment,observation,effect,unmanaged}.ts\<close>, with
  \<open>safety.ts\<close>, \<open>parts.ts\<close>, \<open>cascade.ts\<close> and \<open>libraries/generic/source/retry.js\<close>: one call of an
  operation, from the envelope to the reply. The algorithm is the component's and a parameter: a
  function of the input and of what was acquired, answering a reply and what it left of the
  state. Other callers write the same storage meanwhile: what they do while an attempt runs, and
  while one waits to be made again, are functions of the number of the attempt.
\<close>

section \<open>Safety and parts\<close>

datatype op_type = transition | observation | assignment | computation | effect | unmanaged

fun SAFE :: "op_type \<Rightarrow> bool" where
  "SAFE transition = False"
| "SAFE observation = True"
| "SAFE assignment = False"
| "SAFE computation = True"
| "SAFE effect = False"
| "SAFE unmanaged = False"

fun op_type_name :: "op_type \<Rightarrow> string" where
  "op_type_name transition = ''transition''"
| "op_type_name observation = ''observation''"
| "op_type_name assignment = ''assignment''"
| "op_type_name computation = ''computation''"
| "op_type_name effect = ''effect''"
| "op_type_name unmanaged = ''unmanaged''"

definition op_types :: "op_type list" where
  "op_types = [transition, observation, assignment, computation, effect, unmanaged]"

definition safe :: "string \<Rightarrow> bool" where
  "safe t = list_ex (\<lambda>k. op_type_name k = t \<and> SAFE k) op_types"

definition part_entry :: "val \<Rightarrow> val" where "part_entry v = Part [(''entry'', v)]"
definition part_removed :: "string \<Rightarrow> val" where "part_removed i = Part [(''removed'', Str i)]"
definition part_token :: "string option \<Rightarrow> val" where
  "part_token t = Part [(''token'', case t of None \<Rightarrow> Null | Some s \<Rightarrow> Str s)]"

fun is_part :: "val \<Rightarrow> bool" where
  "is_part (Part ps) = True"
| "is_part v = False"

section \<open>What a caller receives of an output\<close>

definition fit :: "props \<Rightarrow> string list \<Rightarrow> val" where
  "fit ps allowed = Obj (filter (\<lambda>(k, v). k \<in> set allowed) ps)"

text \<open>The own enumerable properties of a value that is an object.\<close>

fun own :: "val \<Rightarrow> props" where
  "own (Obj ps) = ps"
| "own (Part ps) = ps"
| "own (Arr vs) = zip (map nat_str [0..<length vs]) vs"
| "own (View bs) = zip (map nat_str [0..<length bs]) (map (Num \<circ> int) bs)"
| "own v = []"

fun fitted :: "val \<Rightarrow> string list \<Rightarrow> val" where
  "fitted (Part ps) allowed =
     (case map_of ps ''entry'' of
        Some v \<Rightarrow> Obj [(''entry'', fit (own v) allowed)]
      | None \<Rightarrow> Part ps)"
| "fitted (Obj ps) allowed = fit ps allowed"
| "fitted (Arr vs) allowed = fit (own (Arr vs)) allowed"
| "fitted v allowed = v"

fun restricted_output :: "val \<Rightarrow> string list \<Rightarrow> val" where
  "restricted_output (Stream True vs) allowed = Stream True (map (\<lambda>v. fitted v allowed) vs)"
| "restricted_output (Stream False vs) allowed = Stream False vs"
| "restricted_output (Arr vs) allowed = Arr (map (\<lambda>v. fitted v allowed) vs)"
| "restricted_output v allowed = fit (own v) allowed"

fun is_object :: "val \<Rightarrow> bool" where
  "is_object Undef = False"
| "is_object Null = False"
| "is_object (Bool _) = False"
| "is_object (Num _) = False"
| "is_object (Str _) = False"
| "is_object v = True"

definition restrict_object :: "props \<Rightarrow> string list \<Rightarrow> props" where
  "restrict_object reply output =
     (case map_of reply ''output'' of
        None \<Rightarrow> reply
      | Some answered \<Rightarrow>
          if is_nullish answered then reply
          else if output = [] then filter (\<lambda>(k, v). k \<noteq> ''output'') reply
          else if \<not> is_object answered then reply
          else AList.update ''output'' (restricted_output answered output) reply)"

definition restrict :: "val \<Rightarrow> string list option \<Rightarrow> val" where
  "restrict reply output =
     (case output of
        None \<Rightarrow> reply
      | Some names' \<Rightarrow>
          (case reply of
             Stream b vs \<Rightarrow>
               (case map_of (restrict_object [(''output'', Stream b vs)] names') ''output'' of
                  None \<Rightarrow> Obj []
                | Some v \<Rightarrow> v)
           | Obj ps \<Rightarrow> Obj (restrict_object ps names')
           | v \<Rightarrow> v))"

section \<open>Requests\<close>

record envelope =
  rq_id :: "string option"
  rq_input :: val
  rq_query :: "requested option"
  rq_entity :: "changes option"
  rq_output :: "string list option"
  rq_authentic :: bool
  rq_readonly :: bool
  rq_trail :: "string list option"

section \<open>Operations\<close>

datatype scope_name = entry | entries | changeset | stream | none

text \<open>What the algorithm is given as the state, and what it leaves of it.\<close>

datatype given_state =
    G_undefined
  | G_null
  | G_record stored
  | G_records "stored list"
  | G_changes changes
  | G_stream val
  | G_raw val

datatype 'node scoped =
    S_undefined
  | S_null
  | S_entity entity
  | S_set entity_set
  | S_changeset "'node parsed option changeset"
  | S_stream val

text \<open>
  What an algorithm answers: a value, or a reply whose \<open>error\<close> is an \<open>Error\<close> of the language
  beside the properties given.
\<close>

datatype answer = Plain val | Errored props js_error

record ('s, 'node) op =
  op_type :: op_type
  op_scope :: scope_name
  op_retry :: bool
  op_once :: bool
  op_retention :: "int option"
  op_local :: bool
  op_algorithm :: "val \<Rightarrow> given_state \<Rightarrow> thrown + answer \<times> given_state"
  op_fit_request :: "envelope \<Rightarrow> thrown option"
  op_fit_reply :: "val \<Rightarrow> thrown option"
  op_properties :: "properties option"
  op_state :: "('s, 'node) state_cfg"

text \<open>What runs beside an invocation: its own moments, and what others write.\<close>

record 's surroundings =
  moment_at :: "nat \<Rightarrow> moment"
  during :: "nat \<Rightarrow> 's \<Rightarrow> 's"
  between :: "nat \<Rightarrow> 's \<Rightarrow> 's"

definition projects :: "op_type \<Rightarrow> bool" where
  "projects t \<longleftrightarrow> t = observation"

definition is_mutable :: "op_type \<Rightarrow> bool" where
  "is_mutable t \<longleftrightarrow> t = transition"

definition request_contract :: "string \<Rightarrow> thrown" where
  "request_contract m = Exc (RequestContractException (Refused_text m) None)"

definition type_error :: thrown where
  "type_error = Err \<lparr>err_message = ''TypeError'', err_cause = None, err_stack = None, err_code = None\<rparr>"

fun given_of :: "'node scoped \<Rightarrow> given_state" where
  "given_of S_undefined = G_undefined"
| "given_of S_null = G_null"
| "given_of (S_entity e) = G_record (state e)"
| "given_of (S_set es) = G_records (get_entities es)"
| "given_of (S_changeset cs) = G_changes (cs_state cs)"
| "given_of (S_stream v) = G_stream v"

text \<open>\<open>Operation.query\<close>: the scope the manifest declared, of the state.\<close>

definition op_query ::
  "('s, 'node) op \<Rightarrow> moment \<Rightarrow> 's held \<Rightarrow> 'node parsed option \<Rightarrow> thrown + 'node scoped" where
  "op_query op m h query =
     (case query of
        None \<Rightarrow> Inl (request_contract ''Request query is required'')
      | Some q \<Rightarrow>
          (case op_scope op of
             entry \<Rightarrow> rbind (state_entry (op_state op) m h q (is_mutable (op_type op))) (\<lambda>e.
               Inr (case e of None \<Rightarrow> S_null | Some e \<Rightarrow> S_entity e))
           | entries \<Rightarrow> rbind (state_entries (op_state op) m h q (is_mutable (op_type op))) (Inr \<circ> S_set)
           | changeset \<Rightarrow> Inr (S_changeset (state_changeset (Some q)))
           | stream \<Rightarrow> rbind (state_stream (op_state op) h q) (Inr \<circ> S_stream)
           | none \<Rightarrow> Inr S_null))"

definition asks_deleted :: "'node parsed option \<Rightarrow> bool" where
  "asks_deleted query =
     (case Option.bind query q_options of
        None \<Rightarrow> False
      | Some opts \<Rightarrow> map_of (o_rest opts) ''deleted'' = Some (Bool True))"

definition is_deleted :: "'node scoped \<Rightarrow> bool" where
  "is_deleted s = (case s of S_entity e \<Rightarrow> deleted e | _ \<Rightarrow> False)"

definition base_acquire ::
  "('s, 'node) op \<Rightarrow> moment \<Rightarrow> 's held \<Rightarrow> 'node parsed option \<Rightarrow> thrown + 'node scoped" where
  "base_acquire op m h query = (if op_scope op = none then Inr S_undefined else op_query op m h query)"

definition not_found :: thrown where
  "not_found = Exc (derive_exception StateNotFound None None)"

text \<open>The state a call goes on with: what it acquired, what the algorithm is given, what is held.\<close>

definition acquire ::
  "('s, 'node) op \<Rightarrow> moment \<Rightarrow> 's held \<Rightarrow> envelope \<Rightarrow> 'node parsed option \<Rightarrow>
   (thrown + 'node scoped \<times> given_state) \<times> 's held" where
  "acquire op m h request query =
     (case op_type op of
        transition \<Rightarrow>
          (rbind (case query of
                    None \<Rightarrow> Inr (S_entity (state_init (op_state op) m None))
                  | Some _ \<Rightarrow> op_query op m h query) (\<lambda>s.
             if s = S_null \<or> (is_deleted s \<and> \<not> asks_deleted query) then Inl not_found
             else Inr (s, given_of s)), h)
      | assignment \<Rightarrow>
          let cs = state_changeset query in (Inr (S_changeset cs, G_changes (cs_state cs)), h)
      | unmanaged \<Rightarrow> (Inr (S_undefined, G_raw (st_raw (sc_ops (op_state op)) (store_of h))), h)
      | effect \<Rightarrow>
          (case rq_entity request of
             None \<Rightarrow> (rbind (base_acquire op m h query) (\<lambda>s. Inr (s, given_of s)), h)
           | Some properties \<Rightarrow>
               (case state_ensure (op_state op) m h query properties (rq_input request) None of
                  (r, h') \<Rightarrow> (rbind r (\<lambda>e. Inr (S_entity e, G_record (state e))), h')))
      | _ \<Rightarrow> (rbind (base_acquire op m h query) (\<lambda>s. Inr (s, given_of s)), h))"

definition refusal :: "js_error \<Rightarrow> thrown + val" where
  "refusal e =
     (if err_message e = [] then
        Inl (Exc (ResponseContractException
          (Refused_text ''an error is returned with its code as the message'') None))
      else Inr (Obj ((''code'', Str (err_message e)) #
        (case err_cause e of None \<Rightarrow> [] | Some c \<Rightarrow> [(''cause'', c)]))))"

definition settle_answer :: "answer \<Rightarrow> thrown + val" where
  "settle_answer a =
     (case a of
        Plain v \<Rightarrow> Inr v
      | Errored ps e \<Rightarrow> rbind (refusal e) (\<lambda>r. Inr (Obj (AList.update ''error'' r ps))))"

fun is_stream :: "val \<Rightarrow> bool" where
  "is_stream (Stream b vs) = True"
| "is_stream v = False"

definition base_run ::
  "('s, 'node) op \<Rightarrow> envelope \<Rightarrow> given_state \<Rightarrow> thrown + val \<times> given_state" where
  "base_run op request given =
     rbind (op_algorithm op (rq_input request) given) (\<lambda>(a, left).
     rbind (settle_answer a) (\<lambda>reply.
       if op_local op \<and> \<not> is_stream reply then
         (case op_fit_reply op reply of Some e \<Rightarrow> Inl e | None \<Rightarrow> Inr (reply, left))
       else Inr (reply, left)))"

definition run ::
  "('s, 'node) op \<Rightarrow> envelope \<Rightarrow> 'node parsed option \<Rightarrow> 'node scoped \<times> given_state \<Rightarrow>
   thrown + val \<times> given_state" where
  "run op request query acquired =
     (case acquired of (s, given) \<Rightarrow>
        if op_type op \<in> {observation, effect} \<and>
           (s = S_null \<or> (is_deleted s \<and> \<not> asks_deleted query))
        then Inr (Null, given)
        else base_run op request given)"

text \<open>\<open>reply.error\<close>, which a reply that is no object raises on.\<close>

definition error_of :: "val \<Rightarrow> thrown + val" where
  "error_of reply =
     (if is_nullish reply then Inl type_error
      else case reply of
        Obj ps \<Rightarrow> Inr (case map_of ps ''error'' of None \<Rightarrow> Undef | Some v \<Rightarrow> v)
      | _ \<Rightarrow> Inr Undef)"

definition the_call :: "('s, 'node) op \<Rightarrow> envelope \<Rightarrow> val \<Rightarrow> call_record option" where
  "the_call op request reply =
     (if \<not> op_once op then None
      else Some \<lparr>call_id = (case rq_id request of None \<Rightarrow> [] | Some i \<Rightarrow> i),
                 call_reply = Obj (own reply), call_retention = op_retention op\<rparr>)"

datatype commit_result = Committed val | Lost | Broken thrown

text \<open>
  \<open>Transition.commit\<close>: an error and a discarded state end here. What an algorithm leaves of a
  state that is no state to commit raises, as reading a property of it does.
\<close>

definition discards :: "given_state \<Rightarrow> bool" where
  "discards left = (case left of G_record r \<Rightarrow> DISCARD r = Some True | _ \<Rightarrow> False)"

fun set_and_commit ::
  "('s, 'node) op \<Rightarrow> moment \<Rightarrow> 's held \<Rightarrow> val \<Rightarrow> call_record option \<Rightarrow> 'node scoped \<Rightarrow> given_state \<Rightarrow>
   (thrown + bool) \<times> 's held" where
  "set_and_commit op m h input call (S_entity en) (G_record v) =
     (case set_entity (sc_class (op_state op)) (m_t1 m) (m_t2 m) en v of
        Inl x \<Rightarrow> (Inl x, h)
      | Inr en' \<Rightarrow> state_commit_one (op_state op) m h en' input call)"
| "set_and_commit op m h input call (S_set es) (G_records vs) =
     (case set_entities (sc_class (op_state op)) (m_t1 m) (m_t2 m) es vs of
        Inl x \<Rightarrow> (Inl x, h)
      | Inr es' \<Rightarrow> state_massCommit (op_state op) m h es' input)"
| "set_and_commit op m h input call _ _ = (Inl type_error, h)"

fun commit_outcome :: "val \<Rightarrow> thrown + bool \<Rightarrow> commit_result" where
  "commit_outcome reply (Inl x) = Broken x"
| "commit_outcome reply (Inr ok) = (if ok then Committed reply else Lost)"

definition commit_transition ::
  "('s, 'node) op \<Rightarrow> moment \<Rightarrow> 's held \<Rightarrow> envelope \<Rightarrow> 'node scoped \<Rightarrow> given_state \<Rightarrow> val \<Rightarrow>
   commit_result \<times> 's held" where
  "commit_transition op m h request s left reply =
     (case error_of reply of
        Inl e \<Rightarrow> (Broken e, h)
      | Inr e \<Rightarrow>
          if e \<noteq> Undef \<or> discards left then (Committed reply, h)
          else map_prod (commit_outcome reply) (\<lambda>h'. h')
            (set_and_commit op m h (rq_input request) (the_call op request reply) s left))"

definition commit_assignment ::
  "('s, 'node) op \<Rightarrow> moment \<Rightarrow> 's held \<Rightarrow> envelope \<Rightarrow> 'node parsed option \<Rightarrow> given_state \<Rightarrow> val \<Rightarrow>
   (thrown + val) \<times> 's held" where
  "commit_assignment op m h request query left reply =
     (case error_of reply of
        Inl e \<Rightarrow> (Inl e, h)
      | Inr e \<Rightarrow>
          if e \<noteq> Undef then (Inr reply, h)
          else (case (left, query) of
            (G_changes v, Some q) \<Rightarrow>
              (case set_changeset (sc_class (op_state op)) (m_t2 m) (new_changeset q) v of
                 Inl x \<Rightarrow> (Inl x, h)
               | Inr cs \<Rightarrow>
                   (case state_apply (op_state op) m h cs (rq_input request) (the_call op request reply) of
                      (Inl x, h') \<Rightarrow> (Inl x, h')
                    | (Inr record, h') \<Rightarrow>
                        (Inr (case reply of
                           Obj ps \<Rightarrow>
                             (if dget Undef ps ''output'' = Undef
                              then Obj (AList.update ''output'' (record_val record) ps) else reply)
                         | v \<Rightarrow> v), h')))
          | _ \<Rightarrow> (Inl type_error, h)))"

definition RETRIES :: nat where "RETRIES = 32"

definition retry_error :: thrown where
  "retry_error = Err \<lparr>err_message = ''Retry failed after 32 attempts'', err_cause = None,
     err_stack = None, err_code = None\<rparr>"

text \<open>One attempt: acquire, run, and commit over what others have written meanwhile.\<close>

definition interfere :: "('s \<Rightarrow> 's) \<Rightarrow> 's held \<Rightarrow> 's held" where
  "interfere f h = h\<lparr>store_of := f (store_of h)\<rparr>"

definition attempt ::
  "('s, 'node) op \<Rightarrow> 's surroundings \<Rightarrow> nat \<Rightarrow> 's held \<Rightarrow> envelope \<Rightarrow> 'node parsed option \<Rightarrow>
   commit_result \<times> 's held" where
  "attempt op sur k h request query =
     (case acquire op (moment_at sur k) h request query of
        (Inl e, h1) \<Rightarrow> (Broken e, h1)
      | (Inr (s, given), h1) \<Rightarrow>
          (case run op request query (s, given) of
             Inl e \<Rightarrow> (Broken e, interfere (during sur k) h1)
           | Inr (reply, left) \<Rightarrow>
               let h2 = interfere (during sur k) h1 in
               (case op_type op of
                  transition \<Rightarrow> commit_transition op (moment_at sur k) h2 request s left reply
                | assignment \<Rightarrow>
                    (case commit_assignment op (moment_at sur k) h2 request query left reply of
                       (Inl e, h3) \<Rightarrow> (Broken e, h3)
                     | (Inr v, h3) \<Rightarrow> (Committed v, h3))
                | _ \<Rightarrow> (Committed reply, h2))))"

definition concurrency_exception :: thrown where
  "concurrency_exception = Exc (derive_exception StateConcurrency None None)"

text \<open>
  \<open>Transition.process\<close>: a commit that lost is made again, waiting in between, as long as the
  operation retries and there is an attempt left of the \<open>32\<close> after the first.
\<close>

fun process ::
  "nat \<Rightarrow> nat \<Rightarrow> ('s, 'node) op \<Rightarrow> 's surroundings \<Rightarrow> 's held \<Rightarrow> envelope \<Rightarrow> 'node parsed option \<Rightarrow>
   (thrown + val) \<times> 's held" where
  "process left k op sur h request query =
     (case attempt op sur k h request query of
        (Committed reply, h') \<Rightarrow> (Inr reply, h')
      | (Broken e, h') \<Rightarrow> (Inl e, h')
      | (Lost, h') \<Rightarrow>
          if \<not> op_retry op then (Inl concurrency_exception, h')
          else (case left of
                  0 \<Rightarrow> (Inl retry_error, h')
                | Suc l \<Rightarrow> process l (Suc k) op sur (interfere (between sur k) h') request query))"

declare process.simps [simp del]

definition process_all ::
  "('s, 'node) op \<Rightarrow> 's surroundings \<Rightarrow> 's held \<Rightarrow> envelope \<Rightarrow> 'node parsed option \<Rightarrow>
   (thrown + val) \<times> 's held" where
  "process_all op = process RETRIES 0 op"

definition exception_props :: "exception \<Rightarrow> val" where
  "exception_props x = Obj ((''code'', Num (int (ex_code x))) # (''message'', Str (ex_message x)) #
     (case ex_cause x of None \<Rightarrow> [] | Some c \<Rightarrow> [(''cause'', c)]) @ ex_detail x)"

fun exception_val :: "thrown \<Rightarrow> val" where
  "exception_val (Exc x) = exception_props x"
| "exception_val (Err e) = exception_props (SystemException e)"
| "exception_val (Threw v) = v"

definition exception_reply :: "thrown \<Rightarrow> val" where
  "exception_reply e = Obj [(''exception'', exception_val e)]"

definition once_call ::
  "('s, 'node) op \<Rightarrow> 's surroundings \<Rightarrow> 's held \<Rightarrow> envelope \<Rightarrow> 'node parsed option \<Rightarrow>
   (thrown + val) \<times> 's held" where
  "once_call op sur h request query =
     (case rq_id request of
        None \<Rightarrow> (Inl (request_contract ''a request to an operation declared `once` carries no id''), h)
      | Some i \<Rightarrow>
          (case state_recall (op_state op) h i of
             Some recalled \<Rightarrow> (Inr recalled, h)
           | None \<Rightarrow>
               (case process_all op sur h request query of
                  (Inr reply, h') \<Rightarrow> (Inr reply, h')
                | (Inl e, h') \<Rightarrow>
                    if \<not> is_duplicate_call e then (Inl e, h')
                    else (Inr (case state_recall (op_state op) h' i of
                                 Some recalled \<Rightarrow> recalled
                               | None \<Rightarrow> exception_reply e), h'))))"

text \<open>\<open>Operation.invoke\<close>, with the expressions its query keeps.\<close>

definition invoke_body ::
  "'node rsql \<Rightarrow> ('s, 'node) op \<Rightarrow> 's surroundings \<Rightarrow> 'node asts \<Rightarrow> 's held \<Rightarrow> envelope \<Rightarrow>
   (thrown + val) \<times> 'node asts \<times> 's held" where
  "invoke_body rsql op sur asts h request =
     (if \<not> projects (op_type op) \<and>
         Option.bind (rq_query request) (\<lambda>q. g_projection (r_rest q)) \<noteq> None
      then (Inl (request_contract ''`projection` is read by an observation alone''), asts, h)
      else case (if rq_authentic request then None else op_fit_request op request) of
        Some e \<Rightarrow> (Inl e, asts, h)
      | None \<Rightarrow>
          let (parsed, asts') =
            (case rq_query request of
               None \<Rightarrow> (Inr None, asts)
             | Some q \<Rightarrow>
                 (case op_properties op of
                    None \<Rightarrow> (Inl type_error, asts)
                  | Some ps \<Rightarrow> (case query_parse rsql ps asts q of
                      (r, a) \<Rightarrow> (rbind r (Inr \<circ> Some), a))))
          in case parsed of
               Inl e \<Rightarrow> (Inl e, asts', h)
             | Inr query \<Rightarrow>
                 (case (case rq_entity request of
                          None \<Rightarrow> Inr ()
                        | Some values \<Rightarrow> state_fit (op_state op) (moment_at sur 0) values) of
                    Inl e \<Rightarrow> (Inl e, asts', h)
                  | Inr _ \<Rightarrow>
                      (case (if op_once op then once_call op sur h request query
                             else process_all op sur h request query) of
                         (r, h') \<Rightarrow>
                           (rbind r (\<lambda>v. Inr (restrict v (rq_output request))), asts', h'))))"

definition invoke ::
  "'node rsql \<Rightarrow> ('s, 'node) op \<Rightarrow> 's surroundings \<Rightarrow> 'node asts \<Rightarrow> 's held \<Rightarrow> envelope \<Rightarrow>
   val \<times> 'node asts \<times> 's held" where
  "invoke rsql op sur asts h request =
     (case invoke_body rsql op sur asts h request of
        (Inr v, asts', h') \<Rightarrow> (v, asts', h')
      | (Inl e, asts', h') \<Rightarrow> (exception_reply e, asts', h'))"

section \<open>What an invocation does to the storage\<close>

lemma interfere_simps [simp]: "store_of (interfere f h) = f (store_of h)"
  "outbox_of (interfere f h) = outbox_of h"
  by (simp_all add: interfere_def)

text \<open>Only an effect writes before its algorithm runs.\<close>

lemma acquire_keeps: "op_type op \<noteq> effect \<Longrightarrow> snd (acquire op m h request query) = h"
  by (cases "op_type op") (simp_all add: acquire_def Let_def)

lemma acquire_set:
  "op_scope op \<noteq> entries \<Longrightarrow> op_type op = transition \<Longrightarrow>
     fst (acquire op m h request query) \<noteq> Inr (S_set es, given)"
  by (auto simp: acquire_def op_query_def result_simps split: option.splits scope_name.splits if_splits)

text \<open>What a manifest lets \<open>once\<close> be declared of.\<close>

definition once_lawful :: "('s, 'node) op \<Rightarrow> bool" where
  "once_lawful op \<longleftrightarrow>
     (op_type op = transition \<and> op_scope op \<noteq> entries) \<or> op_type op = assignment"

text \<open>A commit of a transition is one write of the storage, or none.\<close>

lemma set_and_commit_cases:
  assumes "set_and_commit op m h input call s left = (x, h')"
  obtains "h' = h" "x \<noteq> Inr False"
  | en :: entity and row r where "\<And>es. s \<noteq> S_set es"
      "st_store (sc_ops (op_state op)) (store_of h) (state en) row call = (r, store_of h')"
      "case r of Inl y \<Rightarrow> x = Inl y | Inr ok \<Rightarrow> if ok then x \<noteq> Inr False else x = Inr False"
  | es es' rows r where "s = S_set es"
      "st_massStore (sc_ops (op_state op)) (store_of h) (get_entities es') rows = (r, store_of h')"
      "case r of Inl y \<Rightarrow> x = Inl y | Inr ok \<Rightarrow> if ok then x \<noteq> Inr False else x = Inr False"
  using assms
proof (induction op m h input call s left rule: set_and_commit.induct)
  case (1 op m h input call en v)
  show ?case
  proof (cases "set_entity (sc_class (op_state op)) (m_t1 m) (m_t2 m) en v")
    case (Inl y)
    with 1(4) have "h' = h" "x \<noteq> Inr False" by auto
    then show ?thesis by (rule 1(1))
  next
    case (Inr en')
    with 1 have "state_commit_one (op_state op) m h en' input call = (x, h')" by simp
    from commit_one_store [OF this] obtain row r where
      "st_store (sc_ops (op_state op)) (store_of h) (state en') row call = (r, store_of h')"
      "case r of Inl y \<Rightarrow> x = Inl y | Inr ok \<Rightarrow> if ok then x \<noteq> Inr False else x = Inr False" by blast
    then show ?thesis by (intro 1(2) [of en' row r]) simp_all
  qed
next
  case (2 op m h input call es vs)
  show ?case
  proof (cases "set_entities (sc_class (op_state op)) (m_t1 m) (m_t2 m) es vs")
    case (Inl y)
    with 2(4) have "h' = h" "x \<noteq> Inr False" by auto
    then show ?thesis by (rule 2(1))
  next
    case (Inr es')
    with 2 have c: "state_massCommit (op_state op) m h es' input = (x, h')" by simp
    show ?thesis
    proof (cases "get_entities es' = []")
      case True
      with c have "h' = h" "x \<noteq> Inr False" by (auto simp: state_massCommit_def)
      then show ?thesis by (rule 2(1))
    next
      case False
      from mass_commit_store [OF c False] obtain rows r where
        "st_massStore (sc_ops (op_state op)) (store_of h) (get_entities es') rows = (r, store_of h')"
        "case r of Inl y \<Rightarrow> x = Inl y | Inr ok \<Rightarrow> if ok then x \<noteq> Inr False else x = Inr False" by blast
      then show ?thesis by (intro 2(3) [of es es' rows r]) simp_all
    qed
  qed
qed auto

lemma commit_transition_writes:
  assumes "commit_transition op m h request s left reply = (res, h')"
  shows "h' = h \<or> (error_of reply = Inr Undef \<and> \<not> discards left \<and>
    (\<exists>x. set_and_commit op m h (rq_input request) (the_call op request reply) s left = (x, h') \<and>
      res = commit_outcome reply x))"
  using assms
  by (cases "set_and_commit op m h (rq_input request) (the_call op request reply) s left")
    (auto simp: commit_transition_def split: sum.splits if_splits)

lemma attempt_other:
  "op_type op \<noteq> transition \<Longrightarrow> fst (attempt op sur k h request query) \<noteq> Lost"
  by (cases "op_type op") (auto simp: attempt_def Let_def split: prod.splits sum.splits)

text \<open>Where an attempt of a transition or an assignment leaves the storage, by the part that writes.\<close>

lemma attempt_transition:
  assumes "attempt op sur k h request query = (res, h')" "op_type op = transition"
  obtains "h' = h" "res \<noteq> Lost"
  | "h' = interfere (during sur k) h" "res \<noteq> Lost"
  | s given left reply where
      "acquire op (moment_at sur k) h request query = (Inr (s, given), h)"
      "run op request query (s, given) = Inr (reply, left)"
      "commit_transition op (moment_at sur k) (interfere (during sur k) h) request s left reply = (res, h')"
proof -
  obtain a where a: "acquire op (moment_at sur k) h request query = (a, h)"
    using acquire_keeps [of op "moment_at sur k" h request query] assms(2)
    by (cases "acquire op (moment_at sur k) h request query") simp
  show thesis
  proof (cases a)
    case (Inl e)
    with a assms show thesis by (intro that(1)) (auto simp: attempt_def)
  next
    case (Inr sg)
    obtain s given where sg: "sg = (s, given)" by fastforce
    show thesis
    proof (cases "run op request query (s, given)")
      case (Inl e)
      with a \<open>a = Inr sg\<close> sg assms show thesis by (intro that(2)) (auto simp: attempt_def)
    next
      case (Inr rl)
      obtain reply left where "rl = (reply, left)" by fastforce
      with Inr a \<open>a = Inr sg\<close> sg assms show thesis
        by (intro that(3) [of s given reply left]) (simp_all add: attempt_def Let_def)
    qed
  qed
qed

lemma attempt_assignment:
  assumes "attempt op sur k h request query = (res, h')" "op_type op = assignment"
  obtains "h' = h" "res \<noteq> Lost"
  | "h' = interfere (during sur k) h" "res \<noteq> Lost"
  | left reply x where
      "commit_assignment op (moment_at sur k) (interfere (during sur k) h) request query left reply = (x, h')"
      "res = (case x of Inl e \<Rightarrow> Broken e | Inr v \<Rightarrow> Committed v)"
proof -
  define cs where "cs = state_changeset query"
  have a: "acquire op (moment_at sur k) h request query =
      (Inr (S_changeset cs, G_changes (cs_state cs)), h)"
    by (simp add: acquire_def assms(2) cs_def Let_def)
  show thesis
  proof (cases "run op request query (S_changeset cs, G_changes (cs_state cs))")
    case (Inl e)
    with a assms show thesis by (intro that(2)) (auto simp: attempt_def)
  next
    case (Inr rl)
    obtain reply left where "rl = (reply, left)" by fastforce
    with Inr a assms show thesis
      by (cases "commit_assignment op (moment_at sur k) (interfere (during sur k) h) request query left reply")
        (rule that(3), auto simp: attempt_def Let_def split: sum.splits)
  qed
qed

context entity_storage
begin

text \<open>
  What an attempt under an identity may do to a storage that keeps its promises: leave it as the
  others left it, or write it in the same step that records the identity, which nobody had.
\<close>

definition recorded :: "string \<Rightarrow> 's \<Rightarrow> 's \<Rightarrow> commit_result \<Rightarrow> bool" where
  "recorded i s s' res \<longleftrightarrow> st_recall ops s i = None \<and> st_recall ops s' i \<noteq> None \<and> res \<noteq> Lost \<and>
     (\<forall>ps. res = Committed (Obj ps) \<longrightarrow> st_recall ops s' i = Some (Obj ps))"

lemma transition_records:
  assumes "sc_ops (op_state op) = ops" "op_once op" "rq_id request = Some i" "\<And>es. s \<noteq> S_set es"
    and "commit_transition op m h request s left reply = (res, h')"
  shows "store_of h' = store_of h \<or> recorded i (store_of h) (store_of h') res"
proof -
  define c where "c = \<lparr>call_id = i, call_reply = Obj (own reply), call_retention = op_retention op\<rparr>"
  have call: "the_call op request reply = Some c" using assms(2,3) by (simp add: the_call_def c_def)
  from commit_transition_writes [OF assms(5)] consider "h' = h"
    | x where "set_and_commit op m h (rq_input request) (Some c) s left = (x, h')"
        "res = commit_outcome reply x"
    unfolding call by blast
  then show ?thesis
  proof cases
    case (2 x)
    from 2(1) show ?thesis
    proof (cases rule: set_and_commit_cases)
      case (2 en row r)
      show ?thesis
      proof (cases "r = Inr True")
        case True
        with 2(2) have "st_store ops (store_of h) (state en) row (Some c) = (Inr True, store_of h')"
          by (simp add: assms(1))
        from store_recorded [OF this] have "st_recall ops (store_of h) i = None"
          "st_recall ops (store_of h') i = Some (Obj (own reply))"
          by (simp_all add: c_def)
        moreover have "x \<noteq> Inr False" using 2(3) True by simp
        ultimately show ?thesis
          unfolding recorded_def \<open>res = commit_outcome reply x\<close> by (cases x) (auto split: if_splits)
      next
        case False
        with 2(2) store_refused show ?thesis by (metis assms(1))
      qed
    qed (use assms(4) in auto)
  qed simp
qed

lemma assignment_records:
  assumes "sc_ops (op_state op) = ops" "op_once op" "rq_id request = Some i"
    and "commit_assignment op m h request query left reply = (x, h')"
  shows "store_of h' = store_of h \<or>
    recorded i (store_of h) (store_of h') (case x of Inl e \<Rightarrow> Broken e | Inr v \<Rightarrow> Committed v)"
proof -
  define c where "c = \<lparr>call_id = i, call_reply = Obj (own reply), call_retention = op_retention op\<rparr>"
  have call: "the_call op request reply = Some c" using assms(2,3) by (simp add: the_call_def c_def)
  have "h' = h \<or> (\<exists>q cs y. query = Some q \<and>
      state_apply (op_state op) m h cs (rq_input request) (Some c) = (y, h') \<and>
      x = (case y of Inl e \<Rightarrow> Inl e | Inr record \<Rightarrow> Inr (case reply of
         Obj ps \<Rightarrow> if dget Undef ps ''output'' = Undef
           then Obj (AList.update ''output'' (record_val record) ps) else reply
       | v \<Rightarrow> v)))"
    using assms(4)
    by (auto simp: commit_assignment_def call split: sum.splits if_splits given_state.splits
        option.splits prod.splits)
  then consider "h' = h" | cs y where
      "state_apply (op_state op) m h cs (rq_input request) (Some c) = (y, h')"
      "x = (case y of Inl e \<Rightarrow> Inl e | Inr record \<Rightarrow> Inr (case reply of
         Obj ps \<Rightarrow> if dget Undef ps ''output'' = Undef
           then Obj (AList.update ''output'' (record_val record) ps) else reply
       | v \<Rightarrow> v))" by blast
  then show ?thesis
  proof cases
    case (2 cs y)
    from apply_store [OF 2(1)] obtain row r where
      u: "st_upsert ops (store_of h) (cs_query cs) (cs_state cs) row (Some c) = (r, store_of h')"
      and rr: "case r of Inr (Some (record, row')) \<Rightarrow> y = Inr record \<or> (\<exists>x. y = Inl x) | _ \<Rightarrow> \<exists>x. y = Inl x"
      unfolding assms(1) by blast
    show ?thesis
    proof (cases "\<forall>z. r \<noteq> Inr (Some z)")
      case True
      then show ?thesis using upsert_refused [OF u] by simp
    next
      case False
      then obtain after row' where some: "r = Inr (Some (after, row'))" by auto
      with upsert_recorded [of _ _ _ _ c after row' _ "own reply"] u
      have kept: "st_recall ops (store_of h) i = None" "st_recall ops (store_of h') i = Some (Obj
        (if dget Undef (own reply) ''output'' = Undef
         then AList.update ''output'' (record_val after) (own reply) else own reply))"
        by (auto simp: c_def)
      have "y = Inr after \<or> (\<exists>x. y = Inl x)" using rr some by simp
      with kept 2(2) show ?thesis
        by (cases reply) (auto simp: recorded_def split: if_splits)
    qed
  qed simp
qed

lemma attempt_records:
  assumes "sc_ops (op_state op) = ops" "op_once op" "once_lawful op" "rq_id request = Some i"
    and "attempt op sur k h request query = (res, h')"
  shows "store_of h' = store_of h \<or> store_of h' = during sur k (store_of h) \<or>
    recorded i (during sur k (store_of h)) (store_of h') res"
proof (cases "op_type op = transition")
  case True
  from assms(5) True show ?thesis
  proof (cases rule: attempt_transition)
    case (3 s given left reply)
    have "\<And>es. s \<noteq> S_set es"
      using acquire_set [of op "moment_at sur k" h request query _ given] 3(1) assms(3) True
      by (auto simp: once_lawful_def)
    from transition_records [OF assms(1,2,4) this 3(3)] show ?thesis by simp
  qed simp_all
next
  case False
  with assms(3) have "op_type op = assignment" by (simp add: once_lawful_def)
  from assms(5) this show ?thesis
  proof (cases rule: attempt_assignment)
    case (3 left reply x)
    from assignment_records [OF assms(1,2,4) 3(1)] 3(2) show ?thesis by simp
  qed simp_all
qed

text \<open>With nobody else writing, so does the whole of a call, however often it is attempted.\<close>

definition quiet :: "'s surroundings \<Rightarrow> bool" where
  "quiet sur \<longleftrightarrow> (\<forall>k. during sur k = (\<lambda>s. s) \<and> between sur k = (\<lambda>s. s))"

lemma process_records:
  assumes "sc_ops (op_state op) = ops" "op_once op" "once_lawful op" "rq_id request = Some i" "quiet sur"
    and "process l k op sur h request query = (r, h')" "store_of h' \<noteq> store_of h"
  shows "st_recall ops (store_of h) i = None \<and> st_recall ops (store_of h') i \<noteq> None \<and>
    (\<forall>ps. r = Inr (Obj ps) \<longrightarrow> st_recall ops (store_of h') i = Some (Obj ps))"
  using assms(6,7)
proof (induction l arbitrary: k h)
  case 0
  obtain res h1 where a: "attempt op sur k h request query = (res, h1)" by fastforce
  have "store_of h1 = store_of h \<or> recorded i (store_of h) (store_of h1) res"
    using attempt_records [OF assms(1-4) a] assms(5) by (simp add: quiet_def)
  with 0 a show ?case
    by (auto simp: process.simps [of 0] recorded_def split: commit_result.splits if_splits)
next
  case (Suc l)
  obtain res h1 where a: "attempt op sur k h request query = (res, h1)" by fastforce
  have one: "store_of h1 = store_of h \<or> recorded i (store_of h) (store_of h1) res"
    using attempt_records [OF assms(1-4) a] assms(5) by (simp add: quiet_def)
  show ?case
  proof (cases "res = Lost \<and> op_retry op")
    case True
    with one have "store_of h1 = store_of h" by (auto simp: recorded_def)
    moreover have "process l (Suc k) op sur (interfere (between sur k) h1) request query = (r, h')"
      using Suc.prems(1) True a by (simp add: process.simps [of "Suc l"])
    ultimately show ?thesis
      using Suc.IH [of "Suc k" "interfere (between sur k) h1"] Suc.prems(2) assms(5)
      by (simp add: quiet_def)
  next
    case False
    with one a Suc.prems show ?thesis
      by (auto simp: process.simps [of "Suc l"] recorded_def split: commit_result.splits if_splits)
  qed
qed

lemma once_twice:
  assumes "sc_ops (op_state op) = ops" "op_once op" "once_lawful op" "rq_id request = Some i" "quiet sur"
    and "once_call op sur h request query = (r, h1)" "store_of h1 \<noteq> store_of h"
    and "rq_id request' = Some i"
  shows "\<exists>v. once_call op sur' h1 request' query' = (Inr v, h1) \<and>
    (\<forall>ps. r = Inr (Obj ps) \<longrightarrow> v = Obj ps)"
proof -
  obtain p where p: "process_all op sur h request query = (p, h1)"
    and r: "r = p \<or> r = Inr (case st_recall ops (store_of h1) i of Some v \<Rightarrow> v
        | None \<Rightarrow> exception_reply (projl p))"
    using assms(1,4,6,7)
    by (auto simp: once_call_def state_recall_def split: option.splits sum.splits prod.splits if_splits)
  have "st_recall ops (store_of h1) i \<noteq> None \<and>
      (\<forall>ps. p = Inr (Obj ps) \<longrightarrow> st_recall ops (store_of h1) i = Some (Obj ps))"
    using process_records [OF assms(1-5) p [unfolded process_all_def] assms(7)] by blast
  then show ?thesis
    using assms(1,8) r by (auto simp: once_call_def state_recall_def)
qed

text \<open>A transition over one entity replaces the version it names and no other.\<close>

lemma attempt_swaps:
  assumes "sc_ops (op_state op) = ops" "op_type op = transition" "op_scope op \<noteq> entries"
    and "attempt op sur k h request query = (res, h')"
  shows "store_of h' = store_of h \<or> store_of h' = during sur k (store_of h) \<or>
    (\<exists>r. lookup (store_of h') = (lookup (during sur k (store_of h)))(rec_id r \<mapsto> structured_clone r) \<and>
       map_option VERSION (lookup (during sur k (store_of h)) (rec_id r)) =
         (if VERSION r = Some 1 then None else Some (Some (version_of r - 1))) \<and>
       res \<noteq> Lost)"
  using assms(4,2)
proof (cases rule: attempt_transition)
  case (3 s given left reply)
  have no_set: "\<And>es. s \<noteq> S_set es"
    using acquire_set [of op "moment_at sur k" h request query _ given] 3(1) assms(2,3) by auto
  from commit_transition_writes [OF 3(3)] consider "h' = interfere (during sur k) h"
    | x where "set_and_commit op (moment_at sur k) (interfere (during sur k) h) (rq_input request)
        (the_call op request reply) s left = (x, h')" "res = commit_outcome reply x" by blast
  then show ?thesis
  proof cases
    case (2 x)
    from 2(1) show ?thesis
    proof (cases rule: set_and_commit_cases)
      case (2 en row r)
      show ?thesis
      proof (cases "r = Inr True")
        case True
        with 2(2) have w: "st_store ops (during sur k (store_of h)) (state en) row
            (the_call op request reply) = (Inr True, store_of h')" by (simp add: assms(1))
        have "x \<noteq> Inr False" using 2(3) True by simp
        then have "res \<noteq> Lost" unfolding \<open>res = commit_outcome reply x\<close> by (cases x) (auto split: if_splits)
        with store_written [OF w] store_swapped [OF w] show ?thesis by blast
      next
        case False
        with 2(2) store_refused show ?thesis by (metis assms(1) interfere_simps(1))
      qed
    qed (use no_set in auto)
  qed simp
qed simp_all

end

section \<open>Refusals\<close>

text \<open>An algorithm that refuses, whatever it is given: it raises, or its reply has an error.\<close>

definition refuses :: "('s, 'node) op \<Rightarrow> bool" where
  "refuses op \<longleftrightarrow> (\<forall>input given. case op_algorithm op input given of
     Inl _ \<Rightarrow> True
   | Inr (Errored ps e, left) \<Rightarrow> True
   | Inr (Plain v, left) \<Rightarrow> \<exists>e. error_of v = Inr e \<and> e \<noteq> Undef)"

lemma settle_answer_error: "settle_answer (Errored ps e) = Inr v \<Longrightarrow> \<exists>x. error_of v = Inr x \<and> x \<noteq> Undef"
  by (auto simp: settle_answer_def refusal_def result_simps error_of_def is_nullish_def split: if_splits)

lemma base_run_refuses:
  assumes "refuses op" "base_run op request given = Inr (reply, left)"
  shows "\<exists>e. error_of reply = Inr e \<and> e \<noteq> Undef"
proof -
  obtain a left' where a: "op_algorithm op (rq_input request) given = Inr (a, left')"
    "settle_answer a = Inr reply"
    using assms(2) by (auto simp: base_run_def result_simps split: if_splits option.splits)
  show ?thesis
  proof (cases a)
    case (Plain v)
    then show ?thesis
      using assms(1) [unfolded refuses_def, THEN spec, THEN spec, of "rq_input request" given] a
      by (simp add: settle_answer_def)
  next
    case (Errored ps e)
    with a(2) show ?thesis using settle_answer_error by blast
  qed
qed

lemma attempt_refused:
  assumes "refuses op" "op_type op \<noteq> effect" "attempt op sur k h request query = (res, h')"
  shows "(store_of h' = store_of h \<or> store_of h' = during sur k (store_of h)) \<and> res \<noteq> Lost"
proof -
  obtain a where a: "acquire op (moment_at sur k) h request query = (a, h)"
    using acquire_keeps [OF assms(2), of "moment_at sur k" h request query]
    by (cases "acquire op (moment_at sur k) h request query") simp
  show ?thesis
  proof (cases a)
    case (Inl e)
    with a assms(3) show ?thesis by (auto simp: attempt_def)
  next
    case (Inr sg)
    note sg = Inr
    show ?thesis
    proof (cases "run op request query sg")
      case (Inl e)
      with a sg assms(3) show ?thesis by (cases sg) (auto simp: attempt_def)
    next
      case (Inr rl)
      obtain s given where g: "sg = (s, given)" by fastforce
      obtain reply left where l: "rl = (reply, left)" by fastforce
      have "op_type op \<in> {transition, assignment} \<Longrightarrow> \<exists>e. error_of reply = Inr e \<and> e \<noteq> Undef"
        using Inr base_run_refuses [OF assms(1)] by (auto simp: run_def g l split: if_splits)
      with a sg g l Inr assms(2,3) show ?thesis
        by (cases "op_type op")
          (auto simp: attempt_def Let_def commit_transition_def commit_assignment_def)
    qed
  qed
qed

end
