(* ===== verification/Mongo.thy ===== *)
theory Mongo
  imports Operation
begin

text \<open>
  \<open>connectors/storages.mongodb/src/{storage,outbox,inbox}.js\<close>: the storage the runtime ships. One
  database holds the component's collection, its outbox and its inbox, each a dictionary by
  \<open>_id\<close>. A driver call is one step, and a transaction is one step that commits everything or
  leaves the database as it was. Which documents a translated query selects, and which pairs of
  them a unique index of the component's migrations refuses, are MongoDB's to say: both are
  functions of the environment. A connection that fails, and the attempts made of it, are not
  modelled; the codec between a record and its document is the identity.
\<close>

section \<open>The database\<close>

record inbox_entry =
  ib_reply :: val
  ib_at :: int
  ib_expires :: int

record document =
  doc_row :: row
  doc_outstanding :: "string list option"
  doc_publishedAt :: "int option"

record database =
  collection :: "(string \<times> stored) list"
  outbox_rows :: "(string \<times> document) list"
  inbox_calls :: "(string \<times> inbox_entry) list"

record 'node mongo_env =
  outbox_on :: bool
  inbox_on :: bool
  selects :: "'node parsed \<Rightarrow> stored \<Rightarrow> bool"
  holds :: "changes \<Rightarrow> stored \<Rightarrow> bool"
  clashes :: "stored \<Rightarrow> stored \<Rightarrow> bool"
  includes_deleted :: "'node parsed \<Rightarrow> bool"
  retention :: int
  clock :: int

definition EVENTS :: string where "EVENTS = ''events''"

section \<open>The outbox\<close>

definition from_document :: "string \<Rightarrow> document \<Rightarrow> row" where
  "from_document i d =
     (doc_row d)\<lparr>row_id := i,
        outstanding := (case doc_outstanding d of None \<Rightarrow> [EVENTS] | Some ns \<Rightarrow> ns)\<rparr>"

definition to_document :: "row \<Rightarrow> document" where
  "to_document r =
     \<lparr>doc_row = r, doc_outstanding = Some (outstanding r), doc_publishedAt = None\<rparr>"

definition outbox_insert :: "database \<Rightarrow> row \<Rightarrow> database option" where
  "outbox_insert db r =
     (case map_of (outbox_rows db) (row_id r) of
        Some _ \<Rightarrow> None
      | None \<Rightarrow> Some (db\<lparr>outbox_rows := AList.update (row_id r) (to_document r) (outbox_rows db)\<rparr>))"

fun outbox_insertMany :: "database \<Rightarrow> row list \<Rightarrow> database option" where
  "outbox_insertMany db [] = Some db"
| "outbox_insertMany db (r # rs) = Option.bind (outbox_insert db r) (\<lambda>db'. outbox_insertMany db' rs)"

text \<open>The order of strings, as \<open>{ $gt }\<close> and an ascending sort read it.\<close>

fun str_less :: "string \<Rightarrow> string \<Rightarrow> bool" where
  "str_less [] [] = False"
| "str_less [] (y # ys) = True"
| "str_less (x # xs) [] = False"
| "str_less (x # xs) (y # ys) =
     (if x = y then str_less xs ys else (of_char x :: nat) < of_char y)"

fun insort_id :: "string \<times> document \<Rightarrow> (string \<times> document) list \<Rightarrow> (string \<times> document) list" where
  "insort_id x [] = [x]"
| "insort_id x (y # ys) = (if str_less (fst y) (fst x) then y # insort_id x ys else x # y # ys)"

fun page_limit :: "jsnum \<Rightarrow> nat option" where
  "page_limit (Fin q) = Some (nat \<lfloor>q\<rfloor>)"
| "page_limit _ = None"

definition outbox_pending ::
  "database \<Rightarrow> nat list \<Rightarrow> int \<Rightarrow> jsnum \<Rightarrow> string option \<Rightarrow> row list" where
  "outbox_pending db lanes now limit after =
     (let due = filter (\<lambda>(i, d). lane (doc_row d) \<in> set lanes \<and> \<not> published (doc_row d) \<and>
             num_le (pending (doc_row d)) (Fin (of_int now)) \<and>
             (case after of None \<Rightarrow> True | Some a \<Rightarrow> str_less a i)) (outbox_rows db);
          sorted = foldr insort_id due []
      in map (\<lambda>(i, d). from_document i d)
           (case page_limit limit of None \<Rightarrow> sorted | Some n \<Rightarrow> take n sorted))"

definition settle_document :: "int \<Rightarrow> string list \<Rightarrow> document \<Rightarrow> document" where
  "settle_document now ds d =
     (let before = (case doc_outstanding d of None \<Rightarrow> [EVENTS] | Some ns \<Rightarrow> ns);
          left = remdups (filter (\<lambda>n. n \<notin> set ds) before)
      in d\<lparr>doc_outstanding := Some left,
           doc_row := (doc_row d)\<lparr>published := (left = [])\<rparr>,
           doc_publishedAt := (if left = [] then Some now else doc_publishedAt d)\<rparr>)"

definition outbox_settle :: "int \<Rightarrow> database \<Rightarrow> string list \<Rightarrow> string list \<Rightarrow> database" where
  "outbox_settle now db ids ds =
     (if ids = [] then db
      else db\<lparr>outbox_rows :=
        map (\<lambda>(i, d). (i, if i \<in> set ids then settle_document now ds d else d)) (outbox_rows db)\<rparr>)"

definition outbox_find :: "database \<Rightarrow> string \<Rightarrow> row option" where
  "outbox_find db i = map_option (from_document i) (map_of (outbox_rows db) i)"

section \<open>The inbox\<close>

definition inbox_recall :: "database \<Rightarrow> string \<Rightarrow> val option" where
  "inbox_recall db i =
     map_option (\<lambda>e. if is_nullish (ib_reply e) then Obj [] else ib_reply e) (map_of (inbox_calls db) i)"

definition inbox_insert :: "'node mongo_env \<Rightarrow> database \<Rightarrow> call_record \<Rightarrow> database option" where
  "inbox_insert env db c =
     (case map_of (inbox_calls db) (call_id c) of
        Some _ \<Rightarrow> None
      | None \<Rightarrow>
          let window = (case call_retention c of None \<Rightarrow> retention env | Some n \<Rightarrow> n)
          in Some (db\<lparr>inbox_calls := AList.update (call_id c)
               \<lparr>ib_reply = (if is_nullish (call_reply c) then Obj [] else call_reply c),
                ib_at = clock env, ib_expires = clock env + window * 1000\<rparr> (inbox_calls db)\<rparr>))"

section \<open>The collection\<close>

datatype write_error = Taken_id | Taken_key

definition find_one :: "(stored \<Rightarrow> bool) \<Rightarrow> database \<Rightarrow> stored option" where
  "find_one P db = List.find P (map snd (collection db))"

definition mongo_get :: "'node mongo_env \<Rightarrow> database \<Rightarrow> 'node parsed \<Rightarrow> thrown + stored option" where
  "mongo_get env db q =
     Inr (find_one (\<lambda>r. selects env q r \<and>
       (q_id q = None \<and> \<not> includes_deleted env q \<longrightarrow> DELETED r = None)) db)"

definition mongo_find :: "'node mongo_env \<Rightarrow> database \<Rightarrow> 'node parsed \<Rightarrow> thrown + stored list" where
  "mongo_find env db q =
     Inr (filter (\<lambda>r. selects env q r \<and> (\<not> includes_deleted env q \<longrightarrow> DELETED r = None))
       (map snd (collection db)))"

definition violates :: "'node mongo_env \<Rightarrow> database \<Rightarrow> stored \<Rightarrow> bool" where
  "violates env db r \<longleftrightarrow>
     list_ex (\<lambda>(i, r'). i \<noteq> rec_id r \<and> clashes env r' r) (collection db)"

definition mongo_add :: "'node mongo_env \<Rightarrow> database \<Rightarrow> stored \<Rightarrow> write_error + database" where
  "mongo_add env db r =
     (if map_of (collection db) (rec_id r) \<noteq> None then Inl Taken_id
      else if violates env db r then Inl Taken_key
      else Inr (db\<lparr>collection := AList.update (rec_id r) (structured_clone r) (collection db)\<rparr>))"

definition mongo_set :: "'node mongo_env \<Rightarrow> database \<Rightarrow> stored \<Rightarrow> write_error + database option" where
  "mongo_set env db r =
     (case map_of (collection db) (rec_id r) of
        None \<Rightarrow> Inr None
      | Some r' \<Rightarrow>
          if VERSION r' \<noteq> Some (version_of r - 1) then Inr None
          else if violates env db r then Inl Taken_key
          else Inr (Some (db\<lparr>collection :=
                 AList.update (rec_id r) (structured_clone r) (collection db)\<rparr>)))"

definition add_or_set :: "'node mongo_env \<Rightarrow> database \<Rightarrow> stored \<Rightarrow> write_error + database option" where
  "add_or_set env db r =
     (if VERSION r = Some 1 then rbind (mongo_add env db r) (Inr \<circ> Some) else mongo_set env db r)"

definition duplicate :: thrown where
  "duplicate = Exc (derive_exception Duplicate None None)"

text \<open>What the driver raises of a key that is taken, where nothing catches it.\<close>

definition driver_error :: thrown where
  "driver_error = Err \<lparr>err_message = ''E11000 duplicate key error'', err_cause = None,
     err_stack = None, err_code = Some (Num 11000)\<rparr>"

definition duplicate_call :: "string \<Rightarrow> thrown" where
  "duplicate_call i = Exc (derive_exception DuplicateCall (Some i) None)"

text \<open>
  The transaction of \<open>store\<close>: the call first, then the record, then the row. \<open>None\<close> is the call
  already made.
\<close>

definition store_all ::
  "'node mongo_env \<Rightarrow> database \<Rightarrow> stored \<Rightarrow> row option \<Rightarrow> call_record option \<Rightarrow>
   (write_error + database option) option" where
  "store_all env db r row call =
     (case (case call of None \<Rightarrow> Some db | Some c \<Rightarrow> inbox_insert env db c) of
        None \<Rightarrow> None
      | Some db' \<Rightarrow>
          Some (rbind (add_or_set env db' r) (\<lambda>written.
            case written of
              None \<Rightarrow> Inr None
            | Some db'' \<Rightarrow>
                (case row of
                   None \<Rightarrow> Inr (Some db'')
                 | Some w \<Rightarrow> (case outbox_insert db'' w of None \<Rightarrow> Inl Taken_id | Some d \<Rightarrow> Inr (Some d))))))"

text \<open>What \<open>store\<close> answers of what its transaction did, and what is left of the database.\<close>

fun store_answer ::
  "string \<Rightarrow> database \<Rightarrow> (write_error + database option) option \<Rightarrow> (thrown + bool) \<times> database" where
  "store_answer i db None = (Inl (duplicate_call i), db)"
| "store_answer i db (Some (Inl Taken_id)) = (Inr False, db)"
| "store_answer i db (Some (Inl Taken_key)) = (Inl duplicate, db)"
| "store_answer i db (Some (Inr None)) = (Inr False, db)"
| "store_answer i db (Some (Inr (Some db'))) = (Inr True, db')"

definition mongo_store ::
  "'node mongo_env \<Rightarrow> database \<Rightarrow> stored \<Rightarrow> row option \<Rightarrow> call_record option \<Rightarrow>
   (thrown + bool) \<times> database" where
  "mongo_store env db r row call =
     store_answer (case call of None \<Rightarrow> [] | Some c \<Rightarrow> call_id c) db
       (store_all env db r (if outbox_on env then row else None) (if inbox_on env then call else None))"

text \<open>
  One operation of the bulk write of \<open>massStore\<close>: \<open>None\<close> where a replacement matched nothing.
\<close>

definition revive_document :: "stored \<Rightarrow> stored \<Rightarrow> stored" where
  "revive_document old r =
     old\<lparr>CREATED := or_else (CREATED r) (CREATED old), UPDATED := or_else (UPDATED r) (UPDATED old),
         REGION := or_else (REGION r) (REGION old), rec_fields := put_fields (rec_fields old) (rec_fields r),
         DELETED := None, VERSION := Some (version_of old + 1)\<rparr>"

definition bulk_one ::
  "'node mongo_env \<Rightarrow> database \<Rightarrow> stored \<Rightarrow> write_error + database option" where
  "bulk_one env db r =
     (if VERSION r = Some 1 then
        (case map_of (collection db) (rec_id r) of
           None \<Rightarrow>
             if violates env db r then Inl Taken_key
             else Inr (Some (db\<lparr>collection := AList.update (rec_id r)
                    ((structured_clone r)\<lparr>DELETED := None\<rparr>) (collection db)\<rparr>))
         | Some old \<Rightarrow>
             if DELETED old = None then Inl Taken_id
             else if violates env db (revive_document old r) then Inl Taken_key
             else Inr (Some (db\<lparr>collection :=
                    AList.update (rec_id r) (revive_document old r) (collection db)\<rparr>)))
      else mongo_set env db r)"

text \<open>An ordered bulk write stops at an error, and goes past a replacement that matched nothing.\<close>

fun bulk ::
  "'node mongo_env \<Rightarrow> database \<Rightarrow> stored list \<Rightarrow> write_error + nat \<times> database" where
  "bulk env db [] = Inr (0, db)"
| "bulk env db (r # rs) =
     rbind (bulk_one env db r) (\<lambda>written.
       case written of
         None \<Rightarrow> bulk env db rs
       | Some db' \<Rightarrow> rbind (bulk env db' rs) (\<lambda>(n, d). Inr (Suc n, d)))"

definition mongo_massStore ::
  "'node mongo_env \<Rightarrow> database \<Rightarrow> stored list \<Rightarrow> row list option \<Rightarrow> (thrown + bool) \<times> database" where
  "mongo_massStore env db rs rows =
     (if rs = [] then (Inr True, db)
      else case bulk env db rs of
        Inl Taken_id \<Rightarrow> (Inr False, db)
      | Inl Taken_key \<Rightarrow> (Inl duplicate, db)
      | Inr (n, db') \<Rightarrow>
          if n < length rs then (Inr False, db)
          else (case (if outbox_on env then rows else None) of
                  None \<Rightarrow> (Inr True, db')
                | Some ws \<Rightarrow>
                    (case outbox_insertMany db' ws of None \<Rightarrow> (Inr False, db) | Some d \<Rightarrow> (Inr True, d))))"

text \<open>
  The rule of \<open>converge\<close>. A record without a version is an operand the driver sends as null, which no
  number is below and no stored version equals; without a region it is null too, which every number
  is above.
\<close>

definition supersedes :: "stored \<Rightarrow> stored \<Rightarrow> bool" where
  "supersedes r old \<longleftrightarrow>
     (case VERSION r of
        None \<Rightarrow> False
      | Some v \<Rightarrow>
          version_of old < v \<or>
          (VERSION old = Some v \<and>
             (case REGION r of
                None \<Rightarrow> True
              | Some n \<Rightarrow> n < (case REGION old of None \<Rightarrow> 0 | Some k \<Rightarrow> k))))"

definition bare :: "string \<Rightarrow> stored" where
  "bare i = \<lparr>rec_id = i, VERSION = None, CREATED = None, UPDATED = None, DELETED = None,
     REGION = None, rec_fields = [], TRAILERS = None, DISCARD = None\<rparr>"

definition mongo_converge :: "database \<Rightarrow> stored \<Rightarrow> bool \<times> database" where
  "mongo_converge db r =
     (let put = (\<lambda>d. db\<lparr>collection := AList.update (rec_id r) d (collection db)\<rparr>);
          doc = structured_clone r
      in case map_of (collection db) (rec_id r) of
           None \<Rightarrow> (True, put (if supersedes doc (bare (rec_id r)) then doc else bare (rec_id r)))
         | Some old \<Rightarrow> if supersedes doc old then (True, put doc) else (False, db))"

text \<open>
  \<open>upsert\<close>: the post-image is the update applied to the pre-image, the event is filled in with
  both where it had neither, and the call is recorded with the post-image as its output where its
  reply named none.
\<close>

definition live_changes :: "changes \<Rightarrow> changes" where
  "live_changes c = (case ch_DELETED c of Some (Some _) \<Rightarrow> c | _ \<Rightarrow> c\<lparr>ch_DELETED := Some None\<rparr>)"

definition post_image :: "stored \<Rightarrow> changes \<Rightarrow> stored" where
  "post_image found c = (spread_changes found c)\<lparr>VERSION := Some (version_of found + 1)\<rparr>"

definition filled_row :: "stored \<Rightarrow> stored \<Rightarrow> row \<Rightarrow> row" where
  "filled_row found after w = w\<lparr>row_event := (row_event w)
     \<lparr>ev_origin := or_else (ev_origin (row_event w)) (Some found),
      ev_state := or_else (ev_state (row_event w)) (Some after)\<rparr>\<rparr>"

definition with_output :: "stored \<Rightarrow> props \<Rightarrow> props" where
  "with_output after ps =
     (if dget Undef ps ''output'' = Undef then AList.update ''output'' (record_val after) ps else ps)"

definition filled_call :: "stored \<Rightarrow> call_record \<Rightarrow> call_record" where
  "filled_call after k =
     k\<lparr>call_reply := Obj (with_output after (case call_reply k of Obj ps \<Rightarrow> ps | _ \<Rightarrow> []))\<rparr>"

definition upsert_all ::
  "'node mongo_env \<Rightarrow> database \<Rightarrow> stored \<Rightarrow> stored \<Rightarrow> row option \<Rightarrow> call_record option \<Rightarrow>
   (write_error + database) option" where
  "upsert_all env db found after row call =
     (if violates env db after then Some (Inl Taken_key)
      else
        let db1 = db\<lparr>collection := AList.update (rec_id found) after (collection db)\<rparr>
        in case (case call of None \<Rightarrow> Some db1 | Some k \<Rightarrow> inbox_insert env db1 (filled_call after k)) of
             None \<Rightarrow> None
           | Some db2 \<Rightarrow>
               Some (case row of
                 None \<Rightarrow> Inr db2
               | Some w \<Rightarrow> (case outbox_insert db2 w of None \<Rightarrow> Inl Taken_id | Some d \<Rightarrow> Inr d)))"

fun upsert_answer ::
  "string \<Rightarrow> database \<Rightarrow> stored \<times> row option \<Rightarrow> (write_error + database) option \<Rightarrow>
   (thrown + (stored \<times> row option) option) \<times> database" where
  "upsert_answer i db x None = (Inl (duplicate_call i), db)"
| "upsert_answer i db x (Some (Inl _)) = (Inl driver_error, db)"
| "upsert_answer i db x (Some (Inr db')) = (Inr (Some x), db')"

definition mongo_upsert ::
  "'node mongo_env \<Rightarrow> database \<Rightarrow> 'node parsed \<Rightarrow> changes \<Rightarrow> row option \<Rightarrow> call_record option \<Rightarrow>
   (thrown + (stored \<times> row option) option) \<times> database" where
  "mongo_upsert env db q c row call =
     (case find_one (selects env q) db of
        None \<Rightarrow> (Inr None, db)
      | Some found \<Rightarrow>
          let after = post_image found (live_changes c);
              row' = map_option (filled_row found after) row
          in upsert_answer (case call of None \<Rightarrow> [] | Some k \<Rightarrow> call_id k) db (after, row')
               (upsert_all env db found after (if outbox_on env then row' else None)
                 (if inbox_on env then call else None)))"

definition mongo_ensure ::
  "'node mongo_env \<Rightarrow> database \<Rightarrow> 'node parsed option \<Rightarrow> changes \<Rightarrow> stored \<Rightarrow> row option \<Rightarrow>
   call_record option \<Rightarrow> (thrown + stored) \<times> database" where
  "mongo_ensure env db q properties r row call =
     (let chosen = (\<lambda>r'. (case q of None \<Rightarrow> holds env properties r' | Some p \<Rightarrow> selects env p r') \<and>
            ((case q of None \<Rightarrow> False | Some p \<Rightarrow> includes_deleted env p) \<or> DELETED r' = None))
      in case find_one chosen db of
           Some found \<Rightarrow> (Inr found, db)
         | None \<Rightarrow>
             (case mongo_add env db r of
                Inl _ \<Rightarrow> (Inl duplicate, db)
              | Inr db' \<Rightarrow>
                  (case (if outbox_on env then row else None) of
                     None \<Rightarrow> (Inr (structured_clone r), db')
                   | Some w \<Rightarrow>
                       (case outbox_insert db' w of
                          None \<Rightarrow> (Inl duplicate, db)
                        | Some db'' \<Rightarrow> (Inr (structured_clone r), db'')))))"

section \<open>As the runtime reaches it\<close>

definition mongo_outbox :: "int \<Rightarrow> database outbox_ops" where
  "mongo_outbox now =
     \<lparr>op_find = outbox_find, op_pending = outbox_pending, op_settle = outbox_settle now,
      op_insert = outbox_insert\<rparr>"

definition mongo_ops :: "'node mongo_env \<Rightarrow> (database, 'node) storage_ops" where
  "mongo_ops env =
     \<lparr>st_get = mongo_get env, st_find = mongo_find env,
      st_stream = (\<lambda>db q. rbind (mongo_find env db q) (\<lambda>rs.
        Inr (Stream True (map (\<lambda>r. Part [(''entry'', record_val r)]) rs @ [Part [(''token'', Null)]])))),
      st_store = mongo_store env, st_massStore = mongo_massStore env, st_upsert = mongo_upsert env,
      st_ensure = mongo_ensure env,
      st_recall = (\<lambda>db i. if inbox_on env then inbox_recall db i else None),
      st_raw = (\<lambda>db. Obj [])\<rparr>"

section \<open>The outbox keeps what the runtime asks of one\<close>

definition rows_good :: "database \<Rightarrow> bool" where
  "rows_good db \<longleftrightarrow> distinct (map fst (outbox_rows db))"

lemma from_to_document [simp]: "from_document (row_id r) (to_document r) = r"
  by (simp add: from_document_def to_document_def)

lemma map_of_map_keyed: "map_of (map (\<lambda>(k, v). (k, f k v)) m) i = map_option (f i) (map_of m i)"
  by (induction m) auto

lemma settle_find:
  "outbox_find (outbox_settle now db ids ds) i = map_option (\<lambda>r.
     if i \<in> set ids then
       (let left = remdups (filter (\<lambda>n. n \<notin> set ds) (outstanding r))
        in r\<lparr>outstanding := left, published := (left = [])\<rparr>)
     else r) (outbox_find db i)"
  by (cases "map_of (outbox_rows db) i")
    (auto simp: outbox_find_def outbox_settle_def map_of_map_keyed settle_document_def
      from_document_def Let_def)

lemma set_foldr_insort: "set (foldr insort_id xs []) = set xs"
proof -
  have "set (insort_id x ys) = insert x (set ys)" for x ys
    by (induction ys) auto
  then show ?thesis by (induction xs) auto
qed

lemma pending_row:
  assumes "rows_good db" "r \<in> set (outbox_pending db lanes now limit after)"
  shows "outbox_find db (row_id r) = Some r \<and> lane r \<in> set lanes \<and> \<not> published r \<and>
    num_le (pending r) (Fin (of_int now))"
proof -
  have sub: "set (case l of None \<Rightarrow> xs | Some n \<Rightarrow> take n xs) \<subseteq> set xs" for l and xs :: "(string \<times> document) list"
    by (auto split: option.splits dest: in_set_takeD)
  obtain i d where "(i, d) \<in> set (outbox_rows db)" "r = from_document i d"
    "lane (doc_row d) \<in> set lanes" "\<not> published (doc_row d)"
    "num_le (pending (doc_row d)) (Fin (of_int now))"
    using assms(2) sub by (fastforce simp: outbox_pending_def Let_def set_foldr_insort dest!: subsetD [OF sub])
  with assms(1) show ?thesis
    by (simp add: rows_good_def outbox_find_def from_document_def)
qed

interpretation mongo_rows: outbox_storage "mongo_outbox now" rows_good for now
proof unfold_locales
  fix s r t
  assume "op_insert (mongo_outbox now) s r = Some t"
  then show "op_find (mongo_outbox now) s (row_id r) = None \<and>
      (\<forall>i. op_find (mongo_outbox now) t i = (if i = row_id r then Some r else op_find (mongo_outbox now) s i))"
    by (auto simp: mongo_outbox_def outbox_insert_def outbox_find_def split: option.splits)
next
  fix s r t
  assume "rows_good s" "op_insert (mongo_outbox now) s r = Some t"
  then show "rows_good t"
    by (auto simp: mongo_outbox_def outbox_insert_def rows_good_def distinct_update split: option.splits)
next
  fix s ids ds
  assume "rows_good s"
  then show "rows_good (op_settle (mongo_outbox now) s ids ds)"
    by (simp add: mongo_outbox_def outbox_settle_def rows_good_def comp_def case_prod_beta)
next
  fix i ids s r ds
  assume "i \<in> set ids" "op_find (mongo_outbox now) s i = Some r"
  then show "\<exists>ns. set ns = set (outstanding r) - set ds \<and>
      op_find (mongo_outbox now) (op_settle (mongo_outbox now) s ids ds) i =
        Some (r\<lparr>outstanding := ns, published := (ns = [])\<rparr>)"
    by (intro exI [of _ "remdups (filter (\<lambda>n. n \<notin> set ds) (outstanding r))"])
      (auto simp: mongo_outbox_def settle_find Let_def)
qed (auto simp: mongo_outbox_def settle_find option.map_ident dest: pending_row)

section \<open>The storage keeps what the runtime asks of one\<close>

definition mongo_lookup :: "database \<Rightarrow> string \<Rightarrow> stored option" where
  "mongo_lookup db = map_of (collection db)"

text \<open>A deployment that records calls, which is what an operation declared \<open>once\<close> is booted on.\<close>

definition once_env :: "'node mongo_env \<Rightarrow> 'node mongo_env" where
  "once_env env = env\<lparr>inbox_on := True\<rparr>"

lemma inbox_insert_keeps:
  "inbox_insert env db c = Some db' \<Longrightarrow>
     collection db' = collection db \<and> map_of (inbox_calls db) (call_id c) = None"
  by (auto simp: inbox_insert_def Let_def split: option.splits)

lemma outbox_insert_keeps:
  "outbox_insert db r = Some db' \<Longrightarrow> collection db' = collection db \<and> inbox_calls db' = inbox_calls db"
  by (auto simp: outbox_insert_def split: option.splits)

lemma add_or_set_keeps:
  "add_or_set env db r = Inr (Some db') \<Longrightarrow>
     mongo_lookup db' = (mongo_lookup db)(rec_id r \<mapsto> structured_clone r) \<and>
     inbox_calls db' = inbox_calls db \<and>
     map_option VERSION (mongo_lookup db (rec_id r)) =
       (if VERSION r = Some 1 then None else Some (Some (version_of r - 1)))"
  by (auto simp: add_or_set_def mongo_add_def mongo_set_def mongo_lookup_def result_simps
      split: if_splits option.splits)

lemma inbox_recall_insert:
  "inbox_insert env db c = Some db' \<Longrightarrow> call_reply c = Obj ps \<Longrightarrow>
     inbox_recall db (call_id c) = None \<and> inbox_recall db' (call_id c) = Some (Obj ps)"
  by (auto simp: inbox_insert_def inbox_recall_def is_nullish_def Let_def split: option.splits)

lemma inbox_recall_cong: "inbox_calls db' = inbox_calls db \<Longrightarrow> inbox_recall db' = inbox_recall db"
  by (simp add: inbox_recall_def fun_eq_iff)

lemma recall_known: "inbox_recall db (call_id c) \<noteq> None \<longleftrightarrow> inbox_insert env db c = None"
  by (auto simp: inbox_recall_def inbox_insert_def Let_def split: option.splits)

lemma store_all_done:
  assumes "store_all env db r row call = Some (Inr (Some db'))"
  shows "mongo_lookup db' = (mongo_lookup db)(rec_id r \<mapsto> structured_clone r)"
    and "map_option VERSION (mongo_lookup db (rec_id r)) =
       (if VERSION r = Some 1 then None else Some (Some (version_of r - 1)))"
    and "call = Some c \<Longrightarrow> call_reply c = Obj ps \<Longrightarrow>
       inbox_recall db (call_id c) = None \<and> inbox_recall db' (call_id c) = Some (Obj ps)"
proof -
  obtain db1 where one: "(case call of None \<Rightarrow> Some db | Some c \<Rightarrow> inbox_insert env db c) = Some db1"
    using assms by (auto simp: store_all_def split: option.splits)
  then obtain db2 where two: "add_or_set env db1 r = Inr (Some db2)"
    "(case row of None \<Rightarrow> db' = db2 | Some w \<Rightarrow> outbox_insert db2 w = Some db')"
    using assms by (auto simp: store_all_def result_simps split: option.splits)
  have "collection db1 = collection db" using one inbox_insert_keeps by (auto split: option.splits)
  moreover have "collection db' = collection db2" "inbox_calls db' = inbox_calls db2"
    using two(2) outbox_insert_keeps by (auto split: option.splits)
  moreover note add_or_set_keeps [OF two(1)]
  ultimately show "mongo_lookup db' = (mongo_lookup db)(rec_id r \<mapsto> structured_clone r)"
    and "map_option VERSION (mongo_lookup db (rec_id r)) =
       (if VERSION r = Some 1 then None else Some (Some (version_of r - 1)))"
    by (simp_all add: mongo_lookup_def)
  assume "call = Some c" "call_reply c = Obj ps"
  with one have "inbox_recall db (call_id c) = None" "inbox_recall db1 (call_id c) = Some (Obj ps)"
    using inbox_recall_insert [of env db c db1 ps] by auto
  moreover have "inbox_recall db' = inbox_recall db1"
    using \<open>inbox_calls db' = inbox_calls db2\<close> add_or_set_keeps [OF two(1)]
    by (intro inbox_recall_cong) simp
  ultimately show "inbox_recall db (call_id c) = None \<and> inbox_recall db' (call_id c) = Some (Obj ps)"
    by simp
qed

lemma store_answer_done: "store_answer i db x = (Inr True, db') \<longleftrightarrow> x = Some (Inr (Some db'))"
  by (induction i db x rule: store_answer.induct) auto

lemma store_answer_refused: "store_answer i db x = (res, db') \<Longrightarrow> res \<noteq> Inr True \<Longrightarrow> db' = db"
  by (induction i db x rule: store_answer.induct) auto

lemma mongo_store_done:
  "mongo_store env db r row call = (Inr True, db') \<longleftrightarrow>
     store_all env db r (if outbox_on env then row else None) (if inbox_on env then call else None) =
       Some (Inr (Some db'))"
  by (simp add: mongo_store_def store_answer_done)

lemma mongo_store_refused:
  "mongo_store env db r row call = (res, db') \<Longrightarrow> res \<noteq> Inr True \<Longrightarrow> db' = db"
  unfolding mongo_store_def by (rule store_answer_refused)

lemma mongo_mass_refused:
  "mongo_massStore env db rs rows = (res, db') \<Longrightarrow> res \<noteq> Inr True \<Longrightarrow> db' = db"
  by (auto simp: mongo_massStore_def split: option.splits sum.splits write_error.splits if_splits prod.splits)

lemma duplicate_call_code: "is_duplicate_call (duplicate_call i)"
  by (simp add: is_duplicate_call_def duplicate_call_def derive_exception_def Exception_def Let_def)

lemma mongo_store_known:
  "inbox_on env \<Longrightarrow> inbox_recall db (call_id c) \<noteq> None \<Longrightarrow>
     mongo_store env db r row (Some c) = (Inl (duplicate_call (call_id c)), db)"
  unfolding recall_known [of db c env] by (simp add: mongo_store_def store_all_def)

lemma upsert_answer_done: "upsert_answer i db x y = (Inr (Some z), db') \<longleftrightarrow> z = x \<and> y = Some (Inr db')"
  by (induction i db x y rule: upsert_answer.induct) auto

lemma upsert_answer_refused:
  "upsert_answer i db x y = (res, db') \<Longrightarrow> (\<forall>z. res \<noteq> Inr (Some z)) \<Longrightarrow> db' = db"
  by (induction i db x y rule: upsert_answer.induct) auto

lemma mongo_upsert_refused:
  "mongo_upsert env db q c row call = (res, db') \<Longrightarrow> (\<forall>z. res \<noteq> Inr (Some z)) \<Longrightarrow> db' = db"
  by (auto simp: mongo_upsert_def Let_def split: option.splits dest: upsert_answer_refused)

lemma filled_call_id [simp]: "call_id (filled_call r k) = call_id k"
  by (simp add: filled_call_def)

lemma upsert_all_recorded:
  assumes "upsert_all env db found after row (Some k) = Some (Inr db')" "call_reply k = Obj ps"
  shows "inbox_recall db (call_id k) = None \<and>
    inbox_recall db' (call_id k) = Some (Obj (with_output after ps))"
proof -
  define db1 where "db1 = db\<lparr>collection := AList.update (rec_id found) after (collection db)\<rparr>"
  obtain db2 where two: "inbox_insert env db1 (filled_call after k) = Some db2"
    "(case row of None \<Rightarrow> db' = db2 | Some w \<Rightarrow> outbox_insert db2 w = Some db')"
    using assms(1)
    by (auto simp: upsert_all_def db1_def [symmetric] Let_def split: if_splits option.splits)
  have "inbox_recall db1 = inbox_recall db" by (rule inbox_recall_cong) (simp add: db1_def)
  moreover have "inbox_recall db' = inbox_recall db2"
    using two(2) outbox_insert_keeps by (auto split: option.splits intro!: inbox_recall_cong)
  ultimately show ?thesis
    using inbox_recall_insert [OF two(1)] assms(2) by (simp add: filled_call_def)
qed

lemma upsert_all_known:
  "inbox_recall db (call_id k) \<noteq> None \<Longrightarrow> upsert_all env db found after row (Some k) \<noteq> Some (Inr db')"
proof -
  assume known: "inbox_recall db (call_id k) \<noteq> None"
  define db1 where "db1 = db\<lparr>collection := AList.update (rec_id found) after (collection db)\<rparr>"
  have "inbox_recall db1 = inbox_recall db" by (rule inbox_recall_cong) (simp add: db1_def)
  with known have "inbox_insert env db1 (filled_call after k) = None"
    unfolding recall_known [of db1 "filled_call after k" env, symmetric] by simp
  then show ?thesis by (simp add: upsert_all_def db1_def [symmetric] Let_def)
qed

interpretation mongo: entity_storage "mongo_ops (once_env env)" mongo_lookup for env
proof unfold_locales
  fix s r row call res s'
  assume "st_store (mongo_ops (once_env env)) s r row call = (res, s')" "res \<noteq> Inr True"
  then show "s' = s" by (auto simp: mongo_ops_def dest: mongo_store_refused)
next
  fix s r row call s'
  assume a: "st_store (mongo_ops (once_env env)) s r row call = (Inr True, s')"
  then have stored: "mongo_store (once_env env) s r row call = (Inr True, s')" by (simp add: mongo_ops_def)
  show "mongo_lookup s' = (mongo_lookup s)(rec_id r \<mapsto> structured_clone r)"
    by (rule store_all_done(1) [OF stored [unfolded mongo_store_done]])
  show "map_option VERSION (mongo_lookup s (rec_id r)) =
        (if VERSION r = Some 1 then None else Some (Some (version_of r - 1)))"
    by (rule store_all_done(2) [OF stored [unfolded mongo_store_done]])
next
  fix s r row c s' ps
  assume "st_store (mongo_ops (once_env env)) s r row (Some c) = (Inr True, s')" "call_reply c = Obj ps"
  then show "st_recall (mongo_ops (once_env env)) s (call_id c) = None \<and>
      st_recall (mongo_ops (once_env env)) s' (call_id c) = Some (Obj ps)"
    by (simp add: mongo_ops_def mongo_store_done once_env_def) (rule store_all_done(3) [OF _ refl])
next
  fix s r row and c :: call_record
  assume "st_recall (mongo_ops (once_env env)) s (call_id c) \<noteq> None"
  then show "\<exists>e. st_store (mongo_ops (once_env env)) s r row (Some c) = (Inl e, s) \<and> is_duplicate_call e"
    using mongo_store_known [of "once_env env" s c] duplicate_call_code
    by (auto simp: mongo_ops_def once_env_def)
next
  fix s rs rows res s'
  assume "st_massStore (mongo_ops (once_env env)) s rs rows = (res, s')" "res \<noteq> Inr True"
  then show "s' = s" by (auto simp: mongo_ops_def dest: mongo_mass_refused)
next
  fix s q ch row call res2 s'
  assume "st_upsert (mongo_ops (once_env env)) s q ch row call = (res2, s')" "\<forall>x. res2 \<noteq> Inr (Some x)"
  then show "s' = s" by (auto simp: mongo_ops_def dest: mongo_upsert_refused)
next
  fix s q ch row k r row' s' ps
  assume "st_upsert (mongo_ops (once_env env)) s q ch row (Some k) = (Inr (Some (r, row')), s')"
    "call_reply k = Obj ps"
  then show "st_recall (mongo_ops (once_env env)) s (call_id k) = None \<and>
      st_recall (mongo_ops (once_env env)) s' (call_id k) = Some (Obj
        (if dget Undef ps ''output'' = Undef then AList.update ''output'' (record_val r) ps else ps))"
    by (auto simp: mongo_ops_def mongo_upsert_def Let_def once_env_def upsert_answer_done
        with_output_def dest: upsert_all_recorded split: option.splits)
next
  fix s q ch row res2 s' and k :: call_record
  assume k: "st_recall (mongo_ops (once_env env)) s (call_id k) \<noteq> None"
    and u: "st_upsert (mongo_ops (once_env env)) s q ch row (Some k) = (res2, s')"
  have no: "\<forall>x. res2 \<noteq> Inr (Some x)"
    using k u
    by (auto simp: mongo_ops_def mongo_upsert_def Let_def once_env_def upsert_answer_done
        split: option.splits) (metis not_None_eq upsert_all_known)
  moreover have "s' = s" using mongo_upsert_refused u no by (auto simp: mongo_ops_def)
  ultimately show "s' = s \<and> (\<forall>x. res2 \<noteq> Inr (Some x))" by simp
qed

section \<open>Properties\<close>

subsection \<open>The outbox\<close>

text \<open>
  C2. Nothing is settled that was not sent: however many processes publish from one outbox, and
  whatever of their emissions, readings and markings fails, a destination a row was written for
  and is no longer outstanding for has confirmed that row, and a row marked published has been
  confirmed by every destination it was written for.
\<close>

theorem settled_only_if_confirmed:
  assumes "reachable (mongo_outbox now) w" "outbox_find (table w) i = Some r"
  shows "\<exists>ns. written w i = Some ns \<and>
    (set ns - set (outstanding r)) \<times> {i} \<subseteq> confirmed w \<and>
    (published r \<longrightarrow> set ns \<times> {i} \<subseteq> confirmed w)"
proof -
  have found: "op_find (mongo_outbox now) (table w) i = Some r"
    using assms(2) by (simp add: mongo_outbox_def)
  have "mongo_rows.accounted w i r"
    using mongo_rows.reachable_ok [OF assms(1)] found by (auto simp: mongo_rows.world_ok_def)
  then show ?thesis by (auto simp: mongo_rows.accounted_def)
qed

text \<open>
  Publishing is bounded for each destination on its own: a process never has more than a
  thousand publications to one destination in flight nor the same row twice, and what it has sent
  and not settled stays below the two caps together, so a destination that answers nothing holds
  up no more than that.
\<close>

theorem publication_bounded:
  assumes "reachable (mongo_outbox now) w"
  shows "length (dget [] (inflight (replica w n)) d) \<le> 1000 \<and>
    distinct (dget [] (inflight (replica w n)) d) \<and>
    length (dget [] (inflight (replica w n)) d) + length (dget [] (sent_ids (replica w n)) d) < 11000"
  using mongo_rows.replica_bounded [OF assms, of n d] by (simp add: INFLIGHT_def PUBLISHED_def)

text \<open>A run of one process: a row is committed, handed over, confirmed, and settled by a cycle.\<close>

definition sample_outbox :: outbox where
  "sample_outbox = \<lparr>destinations = [''events''], durable = True, gap = Fin 15000, interval = Fin 5000,
     batch = Fin 200, deferred = False, sent_ids = [(''events'', [])], inflight = [(''events'', [])],
     publishing = [(''events'', [])], pump = Idle, unassigned = 0, closing = Open\<rparr>"

lemma sample_new: "new_outbox (\<lambda>_. None) [''events''] True
    \<lparr>opt_interval = None, opt_batch = None, opt_gap = None\<rparr> = sample_outbox"
  by (simp add: new_outbox_def sample_outbox_def declared_number_def js_Number_opt_def
      INTERVAL_def BATCH_def K_def Let_def)

definition sample_event :: event where
  "sample_event = \<lparr>ev_origin = None, ev_state = None, ev_trailers = None, ev_input = Undef\<rparr>"

definition sample_row :: row where
  "sample_row = make_row sample_outbox ''r'' (Some [7]) 0 100 100 None sample_event"

definition empty_database :: database where
  "empty_database = \<lparr>collection = [], outbox_rows = [], inbox_calls = []\<rparr>"

definition run_start :: "database world" where
  "run_start = \<lparr>table = empty_database, replica = (\<lambda>_. sample_outbox), confirmed = {}, written = Map.empty\<rparr>"

definition run_committed :: "database world" where
  "run_committed = run_start\<lparr>table := empty_database\<lparr>outbox_rows := [(''r'', to_document sample_row)]\<rparr>,
     written := [''r'' \<mapsto> [''events'']]\<rparr>"

definition run_handed :: "database world" where
  "run_handed = put_replica run_committed 0 (fst (publish sample_outbox sample_row))"

definition run_landed :: "database world" where
  "run_landed = (put_replica run_handed 0 (landed ''events'' ''r'' (replica run_handed 0)))
     \<lparr>confirmed := {(''events'', ''r'')}\<rparr>"

definition run_ticked :: "database world" where
  "run_ticked = put_replica run_landed 0 (tick None (replica run_landed 0))"

definition run_read :: "database world" where
  "run_read = put_replica run_ticked 0 (page_read (replica run_ticked 0) [])"

definition run_settled :: "database world" where
  "run_settled = (put_replica run_read 0 ((settled [''events''] [''r''] (replica run_read 0))\<lparr>pump := Marking []\<rparr>))
     \<lparr>table := outbox_settle 0 (table run_read) [''r''] [''events'']\<rparr>"

lemmas sample_simps = sample_outbox_def sample_row_def make_row_def choose_lane_def draw_def
  put_replica_def publish_def publish_row_def due_def send_def INFLIGHT_def PUBLISHED_def sadd_def
  sdel_def landed_def finished_def tick_def assignment_def page_read_def dget_def

lemma run_start_reachable: "reachable (mongo_outbox 0) run_start"
  by (rule reachable.start)
    (simp_all add: run_start_def mongo_outbox_def outbox_find_def empty_database_def fresh_def
      sample_outbox_def)

lemma run_committed_reachable: "reachable (mongo_outbox 0) run_committed"
proof (rule reachable.step [OF run_start_reachable])
  have "run_committed = run_start\<lparr>table := empty_database\<lparr>outbox_rows := [(''r'', to_document sample_row)]\<rparr>,
      written := (written run_start)(row_id sample_row \<mapsto> outstanding sample_row)\<rparr>"
    by (simp add: run_committed_def run_start_def sample_row_def make_row_def sample_outbox_def)
  also have "world_step (mongo_outbox 0) run_start \<dots>"
    by (rule world_step.commit [of _ _ 0 "''r''" "Some [7]" 0 100 100 None sample_event])
      (simp_all add: run_start_def sample_row_def mongo_outbox_def outbox_insert_def empty_database_def,
       simp add: make_row_def)
  finally show "world_step (mongo_outbox 0) run_start run_committed" .
qed

lemma run_handed_reachable: "reachable (mongo_outbox 0) run_handed"
proof (rule reachable.step [OF run_committed_reachable])
  have "replica run_committed 0 = sample_outbox" by (simp add: run_committed_def run_start_def)
  then show "world_step (mongo_outbox 0) run_committed run_handed"
    using world_step.hand [of run_committed 0 "mongo_outbox 0" sample_row]
    by (simp add: run_handed_def sample_outbox_def)
qed

definition flying :: outbox where
  "flying = sample_outbox\<lparr>publishing := [(''events'', [''r''])], inflight := [(''events'', [''r''])]\<rparr>"

lemma handed_replica: "replica run_handed 0 = flying"
  by (simp add: run_handed_def flying_def run_committed_def run_start_def sample_simps)

lemma run_landed_reachable: "reachable (mongo_outbox 0) run_landed"
proof (rule reachable.step [OF run_handed_reachable])
  have "confirmed run_handed = {}"
    by (simp add: run_handed_def run_committed_def run_start_def put_replica_def)
  then show "world_step (mongo_outbox 0) run_handed run_landed"
    using world_step.land [of "''r''" run_handed 0 "''events''" "mongo_outbox 0"]
    by (simp add: run_landed_def handed_replica flying_def sample_outbox_def dget_def)
qed

definition home :: outbox where
  "home = sample_outbox\<lparr>sent_ids := [(''events'', [''r''])]\<rparr>"

lemma landed_replica: "replica run_landed 0 = home"
  by (simp add: run_landed_def handed_replica flying_def home_def sample_simps)

lemma run_ticked_reachable: "reachable (mongo_outbox 0) run_ticked"
  by (rule reachable.step [OF run_landed_reachable])
    (use world_step.ticked [of run_landed 0 "mongo_outbox 0" None] in
      \<open>simp add: run_ticked_def landed_replica home_def sample_outbox_def\<close>)

lemma ticked_replica: "replica run_ticked 0 = home\<lparr>unassigned := 1, pump := Reading None\<rparr>"
  by (simp add: run_ticked_def put_replica_def landed_replica home_def sample_outbox_def tick_def
      assignment_def)

lemma run_read_reachable: "reachable (mongo_outbox 0) run_read"
  by (rule reachable.step [OF run_ticked_reachable])
    (use world_step.read [of run_ticked 0 None "mongo_outbox 0" None 0 False] in
      \<open>simp add: run_read_def ticked_replica read_page_def\<close>)

lemma read_replica: "replica run_read 0 = home\<lparr>unassigned := 1, pump := Marking [([''events''], [''r''])]\<rparr>"
  by (simp add: run_read_def put_replica_def ticked_replica page_read_def home_def sample_outbox_def
      groups_of_def completed_def complete_def group_step_def SEPARATOR_def Let_def)

lemma run_settled_reachable: "reachable (mongo_outbox 0) run_settled"
  by (rule reachable.step [OF run_read_reachable])
    (use world_step.mark [of run_read 0 "[''events'']" "[''r'']" "[]" "mongo_outbox 0"] in
      \<open>simp add: run_settled_def read_replica mongo_outbox_def\<close>)

lemma settled_find: "\<exists>r. outbox_find (table run_settled) ''r'' = Some r \<and> published r \<and> outstanding r = []"
  by (simp add: run_settled_def run_read_def run_ticked_def run_landed_def run_handed_def
      run_committed_def put_replica_def outbox_find_def sample_row_def make_row_def sample_outbox_def
      outbox_settle_def settle_document_def from_document_def to_document_def Let_def)

lemma settled_only_if_confirmed_witness:
  "\<exists>r ns. outbox_find (table run_settled) ''r'' = Some r \<and> published r \<and>
     written run_settled ''r'' = Some ns \<and> set ns \<times> {''r''} \<subseteq> confirmed run_settled"
proof -
  obtain r where "outbox_find (table run_settled) ''r'' = Some r" "published r"
    using settled_find by blast
  with settled_only_if_confirmed [OF run_settled_reachable this(1)] show ?thesis by blast
qed

lemma publication_bounded_witness:
  "length (dget [] (inflight (replica run_handed 0)) ''events'') \<le> 1000 \<and>
   dget [] (inflight (replica run_handed 0)) ''events'' = [''r'']"
  using publication_bounded [OF run_handed_reachable, of 0 "''events''"]
  by (simp add: handed_replica flying_def sample_outbox_def dget_def)

text \<open>
  A cycle recovers only what is its own to recover: every row of a page is of a lane this
  replica was assigned, is in the storage as it was read, is due and is not settled; a replica
  assigned no lane reads nothing, and neither does one whose read failed.
\<close>

theorem pump_reads_own_lanes:
  assumes "rows_good db"
  shows "list_all (\<lambda>r. owned \<noteq> None \<and> lane r \<in> set (the owned) \<and> outbox_find db (row_id r) = Some r \<and>
      \<not> published r \<and> num_le (pending r) (Fin (of_int now)))
    (read_page (mongo_outbox now') db owned now fails ob after)"
  using mongo_rows.page_owned [OF assms, of _ now' owned now fails ob after]
  by (fastforce simp: list_all_iff mongo_outbox_def)

lemma pump_reads_own_lanes_witness:
  "list_all (\<lambda>r. lane r \<in> {7})
     (read_page (mongo_outbox 0) (table run_committed) (Some [7]) 20000 False sample_outbox None) \<and>
   map row_id (read_page (mongo_outbox 0) (table run_committed) (Some [7]) 20000 False sample_outbox None) = [''r'']"
proof -
  have "rows_good (table run_committed)"
    by (simp add: rows_good_def run_committed_def)
  from pump_reads_own_lanes [OF this, of "Some [7]" 20000 0 False sample_outbox None]
  show ?thesis
    by (simp add: list_all_iff)
      (simp add: read_page_def mongo_outbox_def outbox_pending_def run_committed_def to_document_def
        from_document_def sample_row_def make_row_def sample_outbox_def choose_lane_def draw_def Let_def)
qed

subsection \<open>Convergence\<close>

text \<open>
  What a record is worth to another region: its version, and of one version the region that wrote
  it, the lower the better.
\<close>

definition regional :: "stored \<Rightarrow> bool" where
  "regional r \<longleftrightarrow> (\<exists>v n. VERSION r = Some v \<and> REGION r = Some n \<and> 1 \<le> v)"

definition rank :: "stored \<Rightarrow> int \<times> int" where
  "rank r = (version_of r, - (case REGION r of None \<Rightarrow> 0 | Some n \<Rightarrow> n))"

definition outranks :: "stored \<Rightarrow> stored \<Rightarrow> bool" where
  "outranks r s \<longleftrightarrow> fst (rank s) < fst (rank r) \<or> (fst (rank s) = fst (rank r) \<and> snd (rank s) < snd (rank r))"

lemma supersedes_outranks: "regional r \<Longrightarrow> regional s \<Longrightarrow> supersedes r s \<longleftrightarrow> outranks r s"
  by (auto simp: supersedes_def outranks_def rank_def regional_def version_of_def)

definition better :: "stored option \<Rightarrow> stored \<Rightarrow> stored" where
  "better old r = (case old of None \<Rightarrow> r | Some s \<Rightarrow> if outranks r s then r else s)"

definition regional_db :: "database \<Rightarrow> bool" where
  "regional_db db \<longleftrightarrow> (\<forall>i r. mongo_lookup db i = Some r \<longrightarrow> regional r)"

lemma regional_clone [simp]: "regional (structured_clone r) = regional r"
  "rank (structured_clone r) = rank r"
  by (simp_all add: regional_def structured_clone_def rank_def version_of_def)

lemma converge_lookup:
  assumes "regional r" "regional_db db"
  shows "mongo_lookup (snd (mongo_converge db r)) =
      (mongo_lookup db)(rec_id r \<mapsto> better (mongo_lookup db (rec_id r)) (structured_clone r))"
    and "regional_db (snd (mongo_converge db r))"
proof -
  have bare: "supersedes (structured_clone r) (bare i)" for i
    using assms(1) by (auto simp: supersedes_def bare_def version_of_def regional_def structured_clone_def)
  show l: "mongo_lookup (snd (mongo_converge db r)) =
      (mongo_lookup db)(rec_id r \<mapsto> better (mongo_lookup db (rec_id r)) (structured_clone r))"
    using assms bare
    by (auto simp: mongo_converge_def mongo_lookup_def better_def Let_def supersedes_outranks
        regional_db_def split: option.splits intro!: ext)
  show "regional_db (snd (mongo_converge db r))"
    unfolding regional_db_def l using assms
    by (auto simp: better_def regional_db_def split: option.splits if_splits)
qed

definition written_by :: "int \<Rightarrow> int \<Rightarrow> string \<Rightarrow> stored" where
  "written_by v n text = (bare ''a'')\<lparr>VERSION := Some v, REGION := Some n,
     rec_fields := [(''text'', Str text)]\<rparr>"

end
