(* ===== verification/Invocation.thy ===== *)
theory Invocation
  imports Mongo
begin

text \<open>
  Calls of operations over the storage the runtime ships: the properties of
  \<open>runtime/core/source/operation.ts\<close> and its subclasses that rest on what the storage promises,
  through the interpretation of \<open>entity_storage\<close> on the model of MongoDB's.
\<close>

section \<open>What a caller receives\<close>

lemma fit_keys: "own (fit ps allowed) = filter (\<lambda>(k, v). k \<in> set allowed) ps"
  by (simp add: fit_def)

definition received_only :: "string list \<Rightarrow> val \<Rightarrow> val \<Rightarrow> bool" where
  "received_only allowed v w \<longleftrightarrow>
     (case v of
        Obj ps \<Rightarrow> w = Obj (filter (\<lambda>(k, x). k \<in> set allowed) ps)
      | Arr vs \<Rightarrow> (\<exists>ws. w = Arr ws \<and> list_all2 (\<lambda>x y. case x of
            Obj ps \<Rightarrow> y = Obj (filter (\<lambda>(k, x). k \<in> set allowed) ps) | Num n \<Rightarrow> y = x | Str s \<Rightarrow> y = x
          | Bool b \<Rightarrow> y = x | View b \<Rightarrow> y = x | Null \<Rightarrow> y = x | _ \<Rightarrow> True) vs ws)
      | Stream False vs \<Rightarrow> w = v
      | Stream True vs \<Rightarrow> (\<exists>ws. w = Stream True ws \<and> list_all2 (\<lambda>x y. case x of
            Obj ps \<Rightarrow> y = Obj (filter (\<lambda>(k, x). k \<in> set allowed) ps)
          | Part ps \<Rightarrow> (case map_of ps ''entry'' of
              Some (Obj es) \<Rightarrow> y = Obj [(''entry'', Obj (filter (\<lambda>(k, x). k \<in> set allowed) es))]
            | None \<Rightarrow> y = x | _ \<Rightarrow> True)
          | _ \<Rightarrow> True) vs ws)
      | Num n \<Rightarrow> w = v | Str s \<Rightarrow> w = v | Bool b \<Rightarrow> w = v
      | _ \<Rightarrow> True)"

lemma restricted_received:
  "is_object v \<Longrightarrow> received_only allowed v (restricted_output v allowed)"
  by (cases "(v, allowed)" rule: restricted_output.cases)
    (auto simp: received_only_def fit_def list_all2_conv_all_nth split: val.splits option.splits)

text \<open>
  What a caller receives of an output is no more than the properties it named, of every
  object the output is or holds: their values are untouched and in the order they were built in;
  what the reply says besides is untouched; and a caller that names none receives no output.
\<close>

theorem restrict_receives:
  "restrict (Obj reply) None = Obj reply \<and>
   (case map_of reply ''output'' of
      None \<Rightarrow> restrict (Obj reply) (Some allowed) = Obj reply
    | Some v \<Rightarrow>
        if is_nullish v then restrict (Obj reply) (Some allowed) = Obj reply
        else \<exists>ps. restrict (Obj reply) (Some allowed) = Obj ps \<and>
          (if allowed = [] then map_of ps = (map_of reply)(''output'' := None)
           else \<exists>w. received_only allowed v w \<and> map_of ps = (map_of reply)(''output'' \<mapsto> w)))"
proof -
  have drop: "map_of (filter (\<lambda>(k, v). k \<noteq> a) m) = (map_of m)(a := None)" for a and m :: props
    by (induction m) (auto simp: fun_eq_iff)
  have same: "map_of reply ''output'' = Some v \<Longrightarrow> (map_of reply)(''output'' \<mapsto> v) = map_of reply" for v
    by (rule map_upd_triv)
  have plain: "\<not> is_object v \<Longrightarrow> \<not> is_nullish v \<Longrightarrow> received_only allowed v v" for v
    by (cases v) (auto simp: received_only_def is_nullish_def)
  show ?thesis
  proof (cases "map_of reply ''output''")
    case None
    then show ?thesis by (simp add: restrict_def restrict_object_def)
  next
    case (Some v)
    then show ?thesis
      using plain [of v] same [OF Some] restricted_received [of v allowed]
      by (cases "is_object v") (auto simp: restrict_def restrict_object_def drop)
  qed
qed

text \<open>
  A view of bytes answered as the output itself is lost to a caller that names properties:
  where a view among the values of an array or a stream is answered as it is, one that is the
  output is read as an object whose properties are its indices, and nothing of it is left unless
  the caller named those.
\<close>

theorem restrict_loses_view:
  "list_all (\<lambda>k. k \<noteq> [] \<and> \<not> is_digit (hd k)) allowed \<Longrightarrow> allowed \<noteq> [] \<Longrightarrow>
   restrict (Obj [(''output'', View bytes)]) (Some allowed) = Obj [(''output'', Obj [])] \<and>
   restrict (Obj [(''output'', Arr [View bytes])]) (Some allowed) = Obj [(''output'', Arr [View bytes])]"
proof -
  assume a: "list_all (\<lambda>k. k \<noteq> [] \<and> \<not> is_digit (hd k)) allowed" "allowed \<noteq> []"
  have "nat_str n \<notin> set allowed" for n
  proof
    assume "nat_str n \<in> set allowed"
    with a(1) have "nat_str n \<noteq> []" "\<not> is_digit (hd (nat_str n))" by (auto simp: list_all_iff)
    then show False using nat_str_digits [of "hd (nat_str n)" n] by (meson hd_in_set)
  qed
  then have "filter (\<lambda>(k, v). k \<in> set allowed) (own (View bytes)) = []"
    by (auto simp: filter_empty_conv dest!: set_zip_leftD)
  with a(2) show ?thesis
    by (simp add: restrict_def restrict_object_def is_nullish_def fit_def)
qed

lemma restrict_loses_view_witness:
  "restrict (Obj [(''output'', View [1, 2])]) (Some [''name'']) = Obj [(''output'', Obj [])]"
  using restrict_loses_view [of "[''name'']" "[1, 2]"] by (simp add: is_digit_def)

section \<open>Once\<close>

lemma once_env_same: "inbox_on env \<Longrightarrow> once_env env = env"
  by (simp add: once_env_def)


text \<open>
  C12. Two arrivals of one call that race are still one change: an attempt whose identity another
  recorded while it ran writes nothing, and an attempt that writes records its identity in the
  same step, with the reply it then answers.
\<close>

theorem once_race_writes_once:
  assumes "sc_ops (op_state op) = mongo_ops env" "inbox_on env" "op_once op" "once_lawful op"
    and "rq_id request = Some i" "attempt op sur k h request query = (res, h')"
    and "meanwhile = during sur k (store_of h)"
  shows "if inbox_recall meanwhile i \<noteq> None
    then store_of h' = store_of h \<or> store_of h' = meanwhile
    else store_of h' = store_of h \<or> store_of h' = meanwhile \<or>
      (inbox_recall (store_of h') i \<noteq> None \<and> res \<noteq> Lost \<and>
       (\<forall>ps. res = Committed (Obj ps) \<longrightarrow> inbox_recall (store_of h') i = Some (Obj ps)))"
proof -
  have ops: "sc_ops (op_state op) = mongo_ops (once_env env)" using assms(1,2) by (simp add: once_env_same)
  have recall: "st_recall (mongo_ops (once_env env)) db i = inbox_recall db i" for db
    by (simp add: mongo_ops_def once_env_def)
  show ?thesis
    using mongo.attempt_records [OF ops assms(3-6)] assms(7)
    by (auto simp: mongo.recorded_def recall)
qed


section \<open>What does not write\<close>


section \<open>A component to apply them to\<close>

text \<open>
  An associated entity selected by its identity, over a database that records calls; a transition
  of it that writes what it is given and is declared \<open>once\<close>; and one that refuses.
\<close>

definition note_env :: "unit mongo_env" where
  "note_env = \<lparr>outbox_on = True, inbox_on = True, selects = (\<lambda>q r. q_id q = Some (rec_id r)),
     holds = (\<lambda>_ _. False), clashes = (\<lambda>_ _. False), includes_deleted = (\<lambda>_. False),
     retention = 3600, clock = 50\<rparr>"

definition note_class :: entity_class where
  "note_class = \<lparr>entity_schema = (\<lambda>_. None), changeset_schema = (\<lambda>_. None), blank = no_changes,
     guards = None, region = 0\<rparr>"

definition note_state :: "(database, unit) state_cfg" where
  "note_state = \<lparr>sc_ops = mongo_ops note_env, sc_class = note_class, sc_associated = True\<rparr>"

definition note_moment :: moment where
  "note_moment = \<lparr>m_t1 = 10, m_t2 = 20, m_id = ''n'',
     m_rows = (\<lambda>_. \<lparr>tk_id = ''r'', tk_owned = None, tk_draw = 0, tk_now = 10, tk_time = 10, tk_current = None\<rparr>),
     m_emit = (\<lambda>_ _. None)\<rparr>"

definition note_alone :: "database surroundings" where
  "note_alone = \<lparr>moment_at = (\<lambda>_. note_moment), during = (\<lambda>_ s. s), between = (\<lambda>_ s. s)\<rparr>"

definition note_writes :: "val \<Rightarrow> given_state \<Rightarrow> thrown + answer \<times> given_state" where
  "note_writes input given =
     (case given of
        G_record r \<Rightarrow> Inr (Plain (Obj [(''output'', input)]), G_record (r\<lparr>rec_fields := [(''text'', input)]\<rparr>))
      | g \<Rightarrow> Inr (Plain (Obj []), g))"

definition note_op :: "(val \<Rightarrow> given_state \<Rightarrow> thrown + answer \<times> given_state) \<Rightarrow> (database, unit) op" where
  "note_op algorithm = \<lparr>op_type = transition, op_scope = entry, op_retry = False, op_once = True,
     op_retention = None, op_local = False, op_algorithm = algorithm, op_fit_request = (\<lambda>_. None),
     op_fit_reply = (\<lambda>_. None), op_properties = None, op_state = note_state\<rparr>"

definition note_request :: envelope where
  "note_request = \<lparr>rq_id = Some ''c'', rq_input = Num 1, rq_query = None, rq_entity = None,
     rq_output = None, rq_authentic = True, rq_readonly = False, rq_trail = None\<rparr>"

definition note_held :: "database held" where
  "note_held = \<lparr>store_of = empty_database, outbox_of = None, emissions = []\<rparr>"

definition note_record :: stored where
  "note_record = \<lparr>rec_id = ''n'', VERSION = Some 1, CREATED = Some 10, UPDATED = Some 20,
     DELETED = None, REGION = Some 0, rec_fields = [(''text'', Num 1)], TRAILERS = None, DISCARD = None\<rparr>"

definition note_database :: database where
  "note_database = \<lparr>collection = [(''n'', note_record)], outbox_rows = [],
     inbox_calls = [(''c'', \<lparr>ib_reply = Obj [(''output'', Num 1)], ib_at = 50, ib_expires = 3600050\<rparr>)]\<rparr>"

lemmas note_simps = note_env_def note_class_def note_state_def note_moment_def note_alone_def
  note_writes_def note_op_def note_request_def note_held_def note_record_def note_database_def
  empty_database_def

lemma note_attempt:
  "attempt (note_op note_writes) note_alone 0 note_held note_request None =
     (Committed (Obj [(''output'', Num 1)]), note_held\<lparr>store_of := note_database\<rparr>)"
  by (simp add: attempt_def note_simps acquire_def state_init_def init_entity_def write_first_def
      filled_def compose_def spread_changes_def no_changes_def put_fields_def is_deleted_def
      run_def base_run_def settle_answer_def interfere_def commit_transition_def error_of_def
      is_nullish_def discards_def set_entity_def check_guards_def revive_def write_entity_def
      stamped_def the_call_def state_commit_one_def state_publish_def mongo_ops_def mongo_store_def
      store_all_def inbox_insert_def add_or_set_def mongo_add_def violates_def structured_clone_def
      Let_def)



lemma note_lawful: "once_lawful (note_op a)" "op_once (note_op a)"
  "sc_ops (op_state (note_op a)) = mongo_ops note_env" "inbox_on note_env"
  by (simp_all add: once_lawful_def note_op_def note_state_def note_env_def)


lemma once_race_writes_once_witness:
  "inbox_recall note_database ''c'' = Some (Obj [(''output'', Num 1)]) \<and>
   store_of (snd (attempt (note_op note_writes) note_alone 0 note_held note_request None)) = note_database"
  using once_race_writes_once [OF note_lawful(3,4,2,1) _ note_attempt refl, where i = "''c''"]
  by (simp add: note_attempt) (simp add: note_simps inbox_recall_def is_nullish_def)




text \<open>The scopes of the state over the same database.\<close>

definition by_id :: "string \<Rightarrow> unit parsed" where
  "by_id i = \<lparr>q_id = Some i, q_ids = None, q_version = None, q_criteria = None, q_search = None,
     q_options = None\<rparr>"

lemma state_entry_miss_witness:
  "state_entry note_state note_moment note_held (by_id ''z'') True =
     Inr (Some (init_entity note_class 10 ''z''))"
proof -
  have "st_get (sc_ops note_state) (store_of note_held) (by_id ''z'') = Inr None"
    by (simp add: note_simps mongo_ops_def mongo_get_def find_one_def)
  from state_entry_miss [OF this, of note_moment True] show ?thesis
    by (simp add: by_id_def note_state_def note_moment_def)
qed

definition by_ids :: "string list \<Rightarrow> unit parsed" where
  "by_ids ids = (by_id [])\<lparr>q_id := None, q_ids := Some ids\<rparr>"

definition note_set_state :: "(database, unit) state_cfg" where
  "note_set_state = note_state\<lparr>sc_ops := mongo_ops (note_env\<lparr>selects := (\<lambda>q r.
     case q_ids q of None \<Rightarrow> False | Some ids \<Rightarrow> rec_id r \<in> set ids)\<rparr>)\<rparr>"

lemma state_entries_complete_witness:
  "\<exists>es. state_entries note_set_state note_moment (note_held\<lparr>store_of := note_database\<rparr>)
      (by_ids [''n'', ''z'']) True = Inr es \<and>
    set (map (rec_id \<circ> state) es) = {''n'', ''z''}"
proof -
  let ?h = "note_held\<lparr>store_of := note_database\<rparr>" and ?q = "by_ids [''n'', ''z'']"
  have found: "st_find (sc_ops note_set_state) (store_of ?h) ?q = Inr [note_record]"
    by (simp add: note_set_state_def note_simps mongo_ops_def mongo_find_def by_ids_def)
  then obtain es where es: "state_entries note_set_state note_moment ?h ?q True = Inr es"
    by (simp add: state_entries_def Let_def)
  have "sc_associated note_set_state" "q_ids ?q = Some [''n'', ''z'']"
    "ch_id (blank (sc_class note_set_state)) = None" "distinct (map rec_id [note_record])"
    "set (map rec_id [note_record]) \<subseteq> set [''n'', ''z'']"
    by (simp_all add: note_set_state_def note_simps by_ids_def no_changes_def)
  from state_entries_complete [OF this(1,2,3) found this(4,5) es] es show ?thesis by auto
qed

text \<open>
  C37. What is declared safe changes nothing: an observation or a computation leaves the storage as
  it was, or as others made it while it ran, whatever its algorithm answers.
\<close>

theorem safe_operation_writes_nothing:
  assumes "SAFE (op_type op)" "process_all op sur h request query = (r, h')"
  shows "(store_of h' = store_of h \<or> store_of h' = during sur 0 (store_of h)) \<and> emissions h' = emissions h"
proof -
  have types: "op_type op = observation \<or> op_type op = computation" using assms(1) by (cases "op_type op") auto
  obtain a where a: "acquire op (moment_at sur 0) h request query = (a, h)"
    using acquire_keeps [of op "moment_at sur 0" h request query] types
    by (cases "acquire op (moment_at sur 0) h request query") auto
  have "snd (attempt op sur 0 h request query) \<in> {h, interfere (during sur 0) h} \<and>
      fst (attempt op sur 0 h request query) \<noteq> Lost"
    using types a by (auto simp: attempt_def Let_def split: sum.splits prod.splits)
  with assms(2) show ?thesis
    by (auto simp: process_all_def process.simps [of RETRIES] interfere_def split: prod.splits commit_result.splits)
qed

lemma safe_operation_writes_nothing_witness:
  "store_of (snd (process_all ((note_op note_writes)\<lparr>op_type := computation, op_scope := none\<rparr>) note_alone
     note_held note_request None)) = empty_database"
proof -
  let ?op = "(note_op note_writes)\<lparr>op_type := computation, op_scope := none\<rparr>"
  obtain r h' where p: "process_all ?op note_alone note_held note_request None = (r, h')" by fastforce
  have "SAFE (op_type ?op)" by simp
  from safe_operation_writes_nothing [OF this p] p show ?thesis
    by (auto simp: note_alone_def note_held_def)
qed

end
