(* ===== verification/Call.thy ===== *)
theory Call
  imports Contract Operation
begin

text \<open>
  \<open>runtime/core/source/{call,transmission,abandon,component,remote,receiver,event,emission,
  rendering,regional,instance,locator}.ts\<close>: how a call is made, carried, received and answered,
  and how a committed row becomes events. The invocation in scope is an argument, as in \<open>Trail\<close>;
  bindings, bridges and destinations are functions; spans, logs and meters are left out. What a
  caller waits for ends in one of the ways \<open>wait_end\<close> names.
\<close>

section \<open>Names\<close>

record locator =
  loc_name :: string
  loc_namespace :: "string option"

definition locator_id :: "locator \<Rightarrow> string" where
  "locator_id l = (case loc_namespace l of None \<Rightarrow> [] | Some n \<Rightarrow> n @ ''.'') @ loc_name l"

definition locator_parse :: "string \<Rightarrow> locator" where
  "locator_parse s =
     (case split_on (CHR ''.'') s of
        [n] \<Rightarrow> \<lparr>loc_name = n, loc_namespace = None\<rparr>
      | ns # n # _ \<Rightarrow> \<lparr>loc_name = n, loc_namespace = Some ns\<rparr>
      | [] \<Rightarrow> \<lparr>loc_name = [], loc_namespace = None\<rparr>)"

section \<open>Calls\<close>

datatype source =
    From_operation string string string
  | From_event string string string
  | From_service string

record call_request =
  cq_input :: val
  cq_query :: "requested option"
  cq_entity :: "changes option"
  cq_task :: bool
  cq_instance :: "string option"
  cq_id :: "string option"
  cq_source :: "source option"
  cq_trail :: "string list option"
  cq_output :: "string list option"
  cq_encoded :: bool
  cq_readonly :: bool
  cq_authentic :: bool

record call_options =
  co_timeout :: "jsnum option"
  co_signal :: "bool option"

record terms =
  t_instance :: string
  t_timeout :: jsnum

record call_cfg =
  c_target :: string
  c_source :: "source option"
  c_stateful :: bool
  c_safe :: bool
  c_streamed :: "string option"
  c_once :: bool
  c_fit :: "call_request \<Rightarrow> thrown option"

fun readable_at :: "val \<Rightarrow> string \<Rightarrow> val" where
  "readable_at (Obj ps) k = dget Undef ps k"
| "readable_at (Part ps) k = dget Undef ps k"
| "readable_at v k = Undef"

definition carries :: "val \<Rightarrow> string \<Rightarrow> bool" where
  "carries input property =
     (let carried = readable_at input property
      in is_stream carried \<or> is_stream (readable_at carried ''stream''))"

definition service :: "source option \<Rightarrow> string list option" where
  "service s = (case s of Some (From_service n) \<Rightarrow> Some [n] | _ \<Rightarrow> None)"

definition quoted_target :: "call_cfg \<Rightarrow> string \<Rightarrow> string" where
  "quoted_target c m = [CHR 0x27] @ c_target c @ [CHR 0x27] @ m"

definition positive_finite :: "jsnum \<Rightarrow> bool" where
  "positive_finite n \<longleftrightarrow> is_finite n \<and> num_lt (Fin 0) n"

definition safety_exception :: "call_cfg \<Rightarrow> thrown" where
  "safety_exception c = Exc (derive_exception Safety
     (Some (quoted_target c '' may change state, and this call may only read'')) None)"

text \<open>\<open>#refuse\<close>, in the order its conditions are tried.\<close>

definition refuse_call :: "call_cfg \<Rightarrow> call_request \<Rightarrow> call_options \<Rightarrow> bool \<Rightarrow> thrown option" where
  "refuse_call c q opts readonly =
     (if readonly \<and> \<not> c_safe c then Some (safety_exception c)
      else if c_stateful c \<and> cq_instance q = None then
        Some (request_contract (quoted_target c '' is stateful, and a call to it names `instance`''))
      else if \<not> c_stateful c \<and> cq_instance q \<noteq> None then
        Some (request_contract (quoted_target c '' is stateless, and a call to it names no `instance`''))
      else if c_stateful c \<and> cq_task q then
        Some (request_contract (quoted_target c '' is stateful, and a call to it is no task''))
      else if cq_task q \<and> (co_timeout opts \<noteq> None \<or> co_signal opts \<noteq> None) then
        Some (request_contract ''A task names no `timeout` and no `signal`'')
      else if \<not> c_stateful c \<and> (co_timeout opts \<noteq> None \<or> co_signal opts \<noteq> None) then
        Some (request_contract (quoted_target c
          '' is stateless, and a call to it names no `timeout` and no `signal`''))
      else if c_streamed c \<noteq> None \<and> cq_task q then
        Some (request_contract (quoted_target c '' takes a stream, and a task carries none''))
      else if c_streamed c \<noteq> None \<and> \<not> carries (cq_input q) (the (c_streamed c)) then
        Some (request_contract (quoted_target c ('' takes a stream at '' @ [CHR 0x27] @
          the (c_streamed c) @ [CHR 0x27] @ '', which this call carries none of'')))
      else if (case co_timeout opts of None \<Rightarrow> False | Some t \<Rightarrow> \<not> positive_finite t) then
        Some (request_contract ''`timeout` is a positive number of milliseconds'')
      else None)"

text \<open>
  \<open>#identity\<close>: derived where a call is being served, minted otherwise. The digest of the standard
  library and the generator are parameters.
\<close>

record identities =
  id_derive :: "id_part list \<Rightarrow> string"
  id_new :: string

definition identity :: "identities \<Rightarrow> call_cfg \<Rightarrow> invocation option \<Rightarrow> string \<times> invocation option" where
  "identity ids c current =
     (case current of
        None \<Rightarrow> (id_new ids, None)
      | Some iv \<Rightarrow>
          (case inv_id iv of
             None \<Rightarrow> (id_new ids, Some iv)
           | Some i \<Rightarrow>
               (case ordinal iv (c_target c) of
                  (n, iv') \<Rightarrow> (id_derive ids [IdText i, IdText (c_target c), IdNumber n], Some iv'))))"

definition envelope_of :: "call_cfg \<Rightarrow> invocation option \<Rightarrow> string \<Rightarrow> bool \<Rightarrow> call_request \<Rightarrow> call_request" where
  "envelope_of c current i readonly q =
     q\<lparr>cq_instance := None, cq_readonly := readonly, cq_authentic := True,
       cq_input := (if is_nullish (cq_input q) then Null else cq_input q),
       cq_id := Some i,
       cq_trail := or_else (cq_trail q) (or_else (map_option hops current) (service (c_source c))),
       cq_source := or_else (cq_source q) (c_source c)\<rparr>"

definition TIMEOUT :: nat where "TIMEOUT = 5000"

definition addressed_timeout :: "(string \<Rightarrow> string option) \<Rightarrow> jsnum" where
  "addressed_timeout env =
     (let v = js_Number_opt (env ''TOA_ADDRESSED_TIMEOUT'')
      in if is_integer v \<and> num_lt (Fin 0) v then v else num_of_nat TIMEOUT)"

definition terms_of :: "(string \<Rightarrow> string option) \<Rightarrow> call_request \<Rightarrow> call_options \<Rightarrow> terms option" where
  "terms_of env q opts =
     (case cq_instance q of
        None \<Rightarrow> None
      | Some i \<Rightarrow> Some \<lparr>t_instance = i,
          t_timeout = (case co_timeout opts of None \<Rightarrow> addressed_timeout env | Some t \<Rightarrow> t)\<rparr>)"

subsection \<open>Transmission\<close>

text \<open>
  A binding answers a request, says it does not carry it (\<open>None\<close>) or fails; \<open>b_task\<close> is absent
  where it cannot enqueue.
\<close>

record binding =
  b_request :: "call_request \<Rightarrow> terms option \<Rightarrow> thrown + val option"
  b_task :: "(call_request \<Rightarrow> thrown option) option"

fun try_bindings :: "binding list \<Rightarrow> call_request \<Rightarrow> terms option \<Rightarrow> thrown + val option" where
  "try_bindings [] q t = Inr None"
| "try_bindings (b # bs) q t =
     (if cq_task q then
        (case b_task b of
           None \<Rightarrow> try_bindings bs q t
         | Some f \<Rightarrow> (case f q of Some e \<Rightarrow> Inl e | None \<Rightarrow> Inr (Some Null)))
      else
        (case b_request b q t of
           Inl e \<Rightarrow> Inl e
         | Inr None \<Rightarrow> try_bindings bs q t
         | Inr (Some reply) \<Rightarrow> Inr (Some reply)))"

definition all_rejected :: "nat \<Rightarrow> thrown" where
  "all_rejected n = Exc (derive_exception Transmission
     (Some (''All ('' @ nat_str n @ '') bindings rejected.'')) None)"

definition transmit :: "binding list \<Rightarrow> call_request \<Rightarrow> terms option \<Rightarrow> thrown + val" where
  "transmit bs q t =
     (case try_bindings bs q t of
        Inl e \<Rightarrow> Inl e
      | Inr (Some reply) \<Rightarrow> Inr reply
      | Inr None \<Rightarrow> Inl (all_rejected (length bs)))"

text \<open>
  \<open>waiting\<close>: whether the caller had stopped waiting before, stopped while it waited, or was
  answered. However a wait that was abandoned ended, its caller is told it was.
\<close>

datatype wait_end = Aborted_before | Aborted_while | Settled

definition abandoned :: "string \<Rightarrow> thrown" where
  "abandoned target = Exc (derive_exception Abandoned
     (Some ([CHR 0x27] @ target @ [CHR 0x27] @ '' went unanswered'')) None)"

fun waiting :: "wait_end \<Rightarrow> string \<Rightarrow> thrown + val \<Rightarrow> thrown + val" where
  "waiting Settled target r = r"
| "waiting _ target r = Inl (abandoned target)"

subsection \<open>What the caller is answered\<close>

datatype called = Value val | Coded string "val option"

definition read_reply :: "val \<Rightarrow> thrown + called" where
  "read_reply reply =
     (case reply of
        Null \<Rightarrow> Inr (Value Null)
      | Stream b vs \<Rightarrow> Inr (Value (Stream b vs))
      | Obj ps \<Rightarrow>
          (case dget Undef ps ''exception'' of
             Undef \<Rightarrow>
               (case dget Undef ps ''error'' of
                  Undef \<Rightarrow> Inr (Value (dget Undef ps ''output''))
                | Obj es \<Rightarrow> Inr (Coded (case map_of es ''code'' of Some (Str s) \<Rightarrow> s | _ \<Rightarrow> [])
                              (map_of es ''cause''))
                | _ \<Rightarrow> Inr (Coded [] None))
           | e \<Rightarrow> Inl (Threw e))
      | Undef \<Rightarrow> Inl type_error
      | v \<Rightarrow> Inr (Value Undef))"

text \<open>\<open>Call.invoke\<close>: what is sent, where anything is, and the invocation it leaves.\<close>

definition unrepeatable :: "call_cfg \<Rightarrow> thrown" where
  "unrepeatable c = Exc (derive_exception Unrepeatable (Some (quoted_target c
     '' is made once, and a transition retried on a lost write would make it again'')) None)"

definition prepare_call ::
  "identities \<Rightarrow> call_cfg \<Rightarrow> invocation option \<Rightarrow> call_request \<Rightarrow> call_options \<Rightarrow>
   (thrown + call_request) \<times> invocation option" where
  "prepare_call ids c current q opts =
     (let readonly = (cq_readonly q \<or> (case current of None \<Rightarrow> False | Some iv \<Rightarrow> inv_readonly iv)) in
      if c_once c \<and> (case current of None \<Rightarrow> False | Some iv \<Rightarrow> inv_retried iv)
      then (Inl (unrepeatable c), current)
      else case refuse_call c q opts readonly of
        Some e \<Rightarrow> (Inl e, current)
      | None \<Rightarrow>
          let (i, current') = (case cq_id q of Some i \<Rightarrow> (i, current) | None \<Rightarrow> identity ids c current);
              e = envelope_of c current i readonly q
          in (case c_fit c e of Some x \<Rightarrow> (Inl x, current') | None \<Rightarrow> (Inr e, current')))"

definition call_invoke ::
  "(string \<Rightarrow> string option) \<Rightarrow> identities \<Rightarrow> call_cfg \<Rightarrow> binding list \<Rightarrow> wait_end \<Rightarrow>
   invocation option \<Rightarrow> call_request \<Rightarrow> call_options \<Rightarrow> (thrown + called) \<times> invocation option" where
  "call_invoke env ids c bs ended current q opts =
     (case prepare_call ids c current q opts of
        (Inl x, current') \<Rightarrow> (Inl x, current')
      | (Inr e, current') \<Rightarrow>
          let terms = terms_of env q opts;
              end' = (if terms = None then Settled else ended);
              reply = (if end' = Aborted_before then Inl (abandoned (c_target c))
                       else waiting end' (c_target c) (transmit bs e terms))
          in (rbind reply read_reply, current'))"

section \<open>Components\<close>

datatype kind = server | client

record 'r invocable =
  i_unchained :: bool
  i_retried :: bool
  i_safe :: bool
  i_invoke :: "call_request \<Rightarrow> invocation option \<Rightarrow> 'r"

record 'r component =
  k_locator :: locator
  k_kind :: kind
  k_disposed :: bool
  k_operations :: "(string \<times> 'r invocable) list"
  k_limits :: limits_rec

definition hop_of :: "'r component \<Rightarrow> string \<Rightarrow> string" where
  "hop_of k endpoint = locator_id (k_locator k) @ ''.'' @ endpoint"

definition disposed_exception :: "'r component \<Rightarrow> thrown" where
  "disposed_exception k =
     Exc (derive_exception Disposed (Some ([CHR 0x27] @ locator_id (k_locator k) @ [CHR 0x27] @
       '' has been taken down, and what reached it here was started by something that outlived it'')) None)"

definition endpoint_exception :: "'r component \<Rightarrow> string \<Rightarrow> thrown" where
  "endpoint_exception k endpoint =
     Exc (derive_exception Endpoint (Some ([CHR 0x27] @ endpoint @ [CHR 0x27] @
       '' is not provided by '' @ [CHR 0x27] @ locator_id (k_locator k) @ [CHR 0x27])) None)"

datatype 'r invoked = Raises thrown | Answers val | Runs 'r

text \<open>
  \<open>Component.invoke\<close>. An endpoint is looked for with \<open>in\<close>, which finds what every object inherits
  besides what is provided; calling what is found there raises.
\<close>

definition component_invoke ::
  "'r component \<Rightarrow> string \<Rightarrow> call_request \<Rightarrow> invocation option \<Rightarrow> 'r invoked" where
  "component_invoke k endpoint q current =
     (if k_disposed k \<and> k_kind k = server then Raises (disposed_exception k)
      else if \<not> js_in endpoint (k_operations k) then Raises (endpoint_exception k endpoint)
      else
        let operation = map_of (k_operations k) endpoint;
            run = (\<lambda>scope. case operation of None \<Rightarrow> Raises type_error | Some o' \<Rightarrow> Runs (i_invoke o' q scope))
        in if k_kind k = server \<and> \<not> (endpoint \<noteq> [] \<and> hd endpoint = CHR ''.'') then
             let inbound = (if (case operation of None \<Rightarrow> False | Some o' \<Rightarrow> i_unchained o') then None else cq_trail q)
             in case Trail.extend (case inbound of None \<Rightarrow> Undef | Some hs \<Rightarrow> Arr (map Str hs)) (hop_of k endpoint) (k_limits k) of
                  Inl x \<Rightarrow> Answers (exception_reply (Exc x))
                | Inr hs \<Rightarrow>
                    run (Some \<lparr>hops = hs, inv_id = cq_id q,
                      inv_readonly = (cq_readonly q \<or> (case operation of None \<Rightarrow> False | Some o' \<Rightarrow> i_safe o')),
                      inv_retried = (case operation of None \<Rightarrow> False | Some o' \<Rightarrow> i_retried o'), calls = []\<rparr>)
           else run current)"

definition remote_explain :: "'r component \<Rightarrow> ('r invocable \<Rightarrow> 'd) \<Rightarrow> string \<Rightarrow> thrown + 'd" where
  "remote_explain k explain endpoint =
     (if \<not> js_in endpoint (k_operations k) then Inl (endpoint_exception k endpoint)
      else case map_of (k_operations k) endpoint of
        None \<Rightarrow> Inl type_error
      | Some o' \<Rightarrow> Inr (explain o'))"

section \<open>Events\<close>

record message =
  msg_payload :: val
  msg_id :: "string option"
  msg_trail :: val
  msg_time :: "int option"

record event_cfg =
  e_label :: string
  e_conditioned :: "bool option"
  e_subjective :: bool
  e_condition :: "(event \<Rightarrow> thrown + val) option"
  e_payload :: "(event \<Rightarrow> thrown + val) option"
  e_published :: bool

definition state_payload :: "event \<Rightarrow> val" where
  "state_payload ev = (case ev_state ev of None \<Rightarrow> Undef | Some r \<Rightarrow> record_val r)"

definition event_render :: "event_cfg \<Rightarrow> row \<Rightarrow> thrown + val option" where
  "event_render e r =
     rbind (if e_conditioned e = Some False then Inr True
            else case e_condition e of
              None \<Rightarrow> Inr False
            | Some f \<Rightarrow> rbind (f (row_event r)) (\<lambda>v. Inr (v = Bool True))) (\<lambda>holds.
       if \<not> holds then Inr None
       else if e_subjective e then
         (case e_payload e of
            None \<Rightarrow> Inr (Some Undef)
          | Some f \<Rightarrow> rbind (f (row_event r)) (Inr \<circ> Some))
       else Inr (Some (state_payload (row_event r))))"

definition event_message :: "(id_part list \<Rightarrow> string) \<Rightarrow> event_cfg \<Rightarrow> row \<Rightarrow> val \<Rightarrow> message" where
  "event_message derive_id e r payload =
     \<lparr>msg_payload = payload, msg_id = Some (derive_id [IdText (row_id r), IdText (e_label e)]),
      msg_trail = (case trail r of None \<Rightarrow> Undef | Some hs \<Rightarrow> Arr (map Str hs)), msg_time = time r\<rparr>"

text \<open>What an event publishes of a row: nothing, a message, or a failure.\<close>

definition event_emit :: "(id_part list \<Rightarrow> string) \<Rightarrow> event_cfg \<Rightarrow> row \<Rightarrow> thrown + message option" where
  "event_emit derive_id e r =
     rbind (event_render e r) (\<lambda>raised.
       case raised of
         None \<Rightarrow> Inr None
       | Some payload \<Rightarrow>
           if e_published e then Inr (Some (event_message derive_id e r payload))
           else Inl (Err \<lparr>err_message = ''Event '' @ [CHR 0x27] @ e_label e @ [CHR 0x27] @ '' is not published'',
                     err_cause = None, err_stack = None, err_code = None\<rparr>))"

definition emission_emit ::
  "(id_part list \<Rightarrow> string) \<Rightarrow> event_cfg list \<Rightarrow> row \<Rightarrow> (thrown option) \<times> message list" where
  "emission_emit derive_id es r =
     (let emitted = map (\<lambda>e. event_emit derive_id e r) es
      in (case List.map_filter (\<lambda>x. case x of Inl e \<Rightarrow> Some e | Inr _ \<Rightarrow> None) emitted of
            [] \<Rightarrow> None | e # _ \<Rightarrow> Some e,
          List.map_filter (\<lambda>x. case x of Inr m \<Rightarrow> m | Inl _ \<Rightarrow> None) emitted))"

definition rendering_render :: "(string \<times> event_cfg) list \<Rightarrow> string \<Rightarrow> row \<Rightarrow> thrown + val option" where
  "rendering_render events label r =
     (case map_of events label of
        None \<Rightarrow> Inl (Err \<lparr>err_message = ''Event '' @ [CHR 0x27] @ label @ [CHR 0x27] @ '' is not rendered'',
                  err_cause = None, err_stack = None, err_code = None\<rparr>)
      | Some e \<Rightarrow> event_render e r)"

section \<open>Receivers\<close>

record receiver_cfg =
  v_conditioned :: bool
  v_adaptive :: bool
  v_endpoint :: string
  v_destination :: string
  v_origin :: "source option"
  v_condition :: "(val \<Rightarrow> thrown + val) option"
  v_request :: "val \<Rightarrow> thrown + call_request"

definition plain_request :: "val \<Rightarrow> call_request" where
  "plain_request payload =
     \<lparr>cq_input = payload, cq_query = None, cq_entity = None, cq_task = False, cq_instance = None,
      cq_id = None, cq_source = None, cq_trail = None, cq_output = None, cq_encoded = False,
      cq_readonly = False, cq_authentic = False\<rparr>"

text \<open>
  \<open>Receiver.receive\<close>, up to the invocation it makes: \<open>None\<close> where the condition says nothing is to
  be done. \<open>adds\<close> is what the rest of the message adds to the request.
\<close>

definition receive ::
  "receiver_cfg \<Rightarrow> (call_request \<Rightarrow> call_request) \<Rightarrow> message \<Rightarrow> thrown + call_request option" where
  "receive v adds m =
     rbind (if \<not> v_conditioned v then Inr True
            else case v_condition v of
              None \<Rightarrow> Inr True
            | Some f \<Rightarrow> rbind (f (msg_payload m)) (\<lambda>x. Inr (x \<noteq> Bool False))) (\<lambda>wanted.
       if \<not> wanted then Inr None
       else rbind (if v_adaptive v then v_request v (msg_payload m) else Inr (plain_request (msg_payload m)))
         (\<lambda>q. let q' = adds q in
            Inr (Some (q'\<lparr>cq_source := or_else (v_origin v) (cq_source q'),
                         cq_id := or_else (msg_id m) (cq_id q'),
                         cq_trail := Some (received (msg_trail m) @ [event_hop (v_destination v)])\<rparr>))))"

section \<open>Regional destinations\<close>

record regional_destination =
  rd_export :: "row \<Rightarrow> thrown + val"
  rd_import :: "val \<Rightarrow> thrown option"

definition regional_export :: "(string \<times> regional_destination) list \<Rightarrow> row \<Rightarrow> props option" where
  "regional_export ds r =
     (let parts = filter (\<lambda>(n, part). part \<noteq> Undef)
            (map (\<lambda>(n, d). (n, case rd_export d r of Inl _ \<Rightarrow> Undef | Inr v \<Rightarrow> v)) ds)
      in if parts = [] then None else Some parts)"

definition regional_import :: "(string \<times> regional_destination) list \<Rightarrow> props \<Rightarrow> thrown option \<times> (string \<times> val) list" where
  "regional_import ds carried =
     (let known = filter (\<lambda>(n, part). map_of ds n \<noteq> None) carried;
          failures = List.map_filter (\<lambda>(n, part). rd_import (the (map_of ds n)) part) known
      in (case failures of [] \<Rightarrow> None | e # _ \<Rightarrow> Some e, known))"

section \<open>Properties\<close>

subsection \<open>Reading alone\<close>






subsection \<open>Transmission\<close>

definition carried :: "call_request \<Rightarrow> terms option \<Rightarrow> binding \<Rightarrow> thrown + val option" where
  "carried q t b = (if cq_task q
     then (case b_task b of None \<Rightarrow> Inr None | Some f \<Rightarrow> (case f q of Some e \<Rightarrow> Inl e | None \<Rightarrow> Inr (Some Null)))
     else b_request b q t)"

text \<open>
  A call goes to the first binding that carries it and to no other after: it is answered with
  what that binding answers or fails with what it raises, a binding that cannot enqueue is passed
  by for a task, and only where every binding passes it by is the call rejected.
\<close>

theorem transmit_first_carrier:
  "transmit bs q t =
     (case List.find (\<lambda>b. carried q t b \<noteq> Inr None) bs of
        Some b \<Rightarrow> (case carried q t b of Inl e \<Rightarrow> Inl e | Inr reply \<Rightarrow> Inr (the reply))
      | None \<Rightarrow> Inl (all_rejected (length bs)))"
proof -
  have "try_bindings bs q t = (case List.find (\<lambda>b. carried q t b \<noteq> Inr None) bs of
      None \<Rightarrow> Inr None | Some b \<Rightarrow> carried q t b)"
    by (induction bs) (auto simp: carried_def split: option.splits sum.splits)
  moreover have "List.find (\<lambda>b. carried q t b \<noteq> Inr None) bs = Some b \<Longrightarrow> carried q t b \<noteq> Inr None" for b
    by (auto simp: find_Some_iff)
  ultimately show ?thesis
    by (auto simp: transmit_def split: option.splits sum.splits)
qed

subsection \<open>Endpoints\<close>

text \<open>
  An endpoint is looked for among what every object inherits besides: a call to one named so
  that no operation of the component provides is not refused as an endpoint that is not provided,
  but raises a \<open>TypeError\<close>, as a system failure that is worth another attempt.
\<close>

theorem inherited_endpoint_raises:
  "endpoint \<in> set inherited \<Longrightarrow> map_of (k_operations k) endpoint = None \<Longrightarrow> \<not> k_disposed k \<Longrightarrow>
   k_kind k = client \<or> \<not> isl (Trail.extend (case cq_trail q of None \<Rightarrow> Undef | Some hs \<Rightarrow> Arr (map Str hs))
     (hop_of k endpoint) (k_limits k)) \<Longrightarrow>
   component_invoke k endpoint q current = Raises type_error \<and> \<not> permanent type_error"
  by (auto simp: component_invoke_def js_in_def Let_def type_error_def permanent_code
      split: sum.splits)


definition reading_component :: "invocation option component" where
  "reading_component = \<lparr>k_locator = \<lparr>loc_name = ''b'', loc_namespace = Some ''a''\<rparr>, k_kind = server,
     k_disposed = False,
     k_operations = [(''read'', \<lparr>i_unchained = False, i_retried = False, i_safe = False,
       i_invoke = (\<lambda>_ scope. scope)\<rparr>)],
     k_limits = \<lparr>repeats = Fin 3, depth = Fin 32\<rparr>\<rparr>"



lemma inherited_endpoint_raises_witness:
  "component_invoke reading_component ''toString'' (plain_request Null) None = Raises type_error"
  using inherited_endpoint_raises [of "''toString''" reading_component "plain_request Null" None]
  by (simp add: reading_component_def inherited_def plain_request_def Trail.extend_def clip_def
      hop_of_def locator_id_def Let_def)


subsection \<open>Receivers\<close>

text \<open>
  A message continues the chain that led to it and cannot say where it came from: whatever the
  message adds to the request and whatever its receiver made of it, the request's chain is the
  message's with the event as a hop of its own after it, its origin is the receiver's where that
  has one, and its identity is the message's where that carries one.
\<close>

theorem receive_stamps:
  "case receive v adds m of
     Inr (Some q) \<Rightarrow>
       cq_trail q = Some (received (msg_trail m) @ [event_hop (v_destination v)]) \<and>
       (case v_origin v of Some o' \<Rightarrow> cq_source q = Some o' | None \<Rightarrow> True) \<and>
       (case msg_id m of Some i \<Rightarrow> cq_id q = Some i | None \<Rightarrow> True)
   | _ \<Rightarrow> True"
  unfolding receive_def Let_def
  by (cases "v_conditioned v"; cases "v_condition v"; cases "v_adaptive v")
    (auto simp: rbind_def split: sum.splits option.splits)

subsection \<open>Regional destinations\<close>

lemma map_of_filter_snd: "distinct (map fst m) \<Longrightarrow>
    map_of (filter (\<lambda>(k, v). P v) m) k = (case map_of m k of Some v \<Rightarrow> if P v then Some v else None | None \<Rightarrow> None)"
  by (induction m) (auto simp: map_of_eq_None_iff rev_image_eqI split: option.splits)

text \<open>
  What regional destinations export is carried by name and isolated: a part is carried exactly
  for each destination that exported one, one that fails takes out its own part and no other, and
  where nothing was exported nothing is carried.
\<close>

theorem regional_export_isolates:
  assumes "distinct (map fst ds)"
  shows "(case regional_export ds r of None \<Rightarrow> Map.empty | Some parts \<Rightarrow> map_of parts) =
    (\<lambda>n. case map_of ds n of
        None \<Rightarrow> None
      | Some d \<Rightarrow> (case rd_export d r of Inl _ \<Rightarrow> None | Inr v \<Rightarrow> if v = Undef then None else Some v))"
proof -
  let ?m = "map (\<lambda>(n, d). (n, case rd_export d r of Inl _ \<Rightarrow> Undef | Inr v \<Rightarrow> v)) ds"
  have d: "distinct (map fst ?m)" using assms by (simp add: comp_def case_prod_beta)
  have m: "map_of ?m n = map_option (\<lambda>d. case rd_export d r of Inl _ \<Rightarrow> Undef | Inr v \<Rightarrow> v) (map_of ds n)" for n
    by (induction ds) auto
  have "(case regional_export ds r of None \<Rightarrow> Map.empty | Some parts \<Rightarrow> map_of parts) =
      map_of (filter (\<lambda>(n, part). part \<noteq> Undef) ?m)"
    by (simp add: regional_export_def Let_def)
  then show ?thesis
    by (auto simp: map_of_filter_snd [OF d] m fun_eq_iff split: option.splits sum.splits)
qed

lemma regional_export_isolates_witness:
  "\<forall>r. (case regional_export [(''a'', \<lparr>rd_export = (\<lambda>_. Inl type_error), rd_import = (\<lambda>_. None)\<rparr>),
      (''b'', \<lparr>rd_export = (\<lambda>_. Inr (Num 1)), rd_import = (\<lambda>_. None)\<rparr>)] r of
      None \<Rightarrow> Map.empty | Some parts \<Rightarrow> map_of parts) = [''b'' \<mapsto> Num 1]"
  by (rule allI, subst regional_export_isolates) (auto simp: fun_eq_iff)

end
