(* ===== verification/Connector.thy ===== *)
theory Connector
  imports Prelude
begin

text \<open>
  \<open>halt\<close> and \<open>restore\<close> of \<open>runtime/core/source/{connector,gate}.ts\<close>: the hierarchy everything that
  holds a connection is part of, and the walks that stop and start what it does of its own accord.
  Connectors are objects that refer to one another, so the hierarchy is an explicit store from
  addresses to nodes. A recursive walk that shares the set of what it has visited is a worklist
  here: the tasks still to be done, in the order the recursion does them. \<open>pause\<close> and \<open>unpause\<close> are
  the subclass's and leave a trace; whether one fails is not asked, since a failure is reported
  and changes nothing. Connecting and disconnecting are not modelled.
\<close>

section \<open>The hierarchy\<close>

record node =
  dependencies :: "nat list"
  halted :: bool
  live :: "nat option"

type_synonym hierarchy = "(nat \<times> node) list"

definition new_node :: node where
  "new_node = \<lparr>dependencies = [], halted = False, live = None\<rparr>"

definition node_of :: "hierarchy \<Rightarrow> nat \<Rightarrow> node" where
  "node_of h n = dget new_node h n"

definition alter :: "(node \<Rightarrow> node) \<Rightarrow> nat \<Rightarrow> hierarchy \<Rightarrow> hierarchy" where
  "alter f n h = AList.update n (f (node_of h n)) h"

lemma node_alter [simp]: "node_of (alter f n h) m = (if m = n then f (node_of h n) else node_of h m)"
  by (simp add: node_of_def alter_def)

lemma dom_alter [simp]: "fst ` set (alter f n h) = insert n (fst ` set h)"
  by (simp add: alter_def)

text \<open>What a walk goes to from a connector: a gate's own subtree is no dependency of it.\<close>

definition below :: "hierarchy \<Rightarrow> nat \<Rightarrow> nat list" where
  "below h n = dependencies (node_of h n) @ (case live (node_of h n) of None \<Rightarrow> [] | Some l \<Rightarrow> [l])"

section \<open>Halting\<close>

text \<open>
  \<open>Connector.halt\<close> and \<open>Gate.halt\<close>: what is visited, the connectors paused, in order, and the
  hierarchy left. Addresses outside the store are none of its connectors.
\<close>

definition pause_node :: "nat \<Rightarrow> hierarchy \<times> nat list \<Rightarrow> hierarchy \<times> nat list" where
  "pause_node n s =
     (case s of (h, trace) \<Rightarrow>
        if halted (node_of h n) then (h, trace) else (alter (\<lambda>x. x\<lparr>halted := True\<rparr>) n h, trace @ [n]))"

lemma pause_node_keeps [simp]:
  "n \<in> fst ` set (fst s) \<Longrightarrow> fst ` set (fst (pause_node n s)) = fst ` set (fst s)"
  by (auto simp: pause_node_def insert_absorb split: prod.splits)

lemma pause_node_below [simp]: "below (fst (pause_node n s)) m = below (fst s) m"
  by (auto simp: pause_node_def below_def split: prod.splits)

function halt_all ::
  "nat list \<Rightarrow> nat list \<Rightarrow> hierarchy \<times> nat list \<Rightarrow> nat list \<times> hierarchy \<times> nat list" where
  "halt_all [] visited s = (visited, s)"
| "halt_all (n # ns) visited s =
     (if n \<in> set visited \<or> n \<notin> fst ` set (fst s) then halt_all ns visited s
      else halt_all (below (fst s) n @ ns) (visited @ [n]) (pause_node n s))"
  by pat_completeness auto

termination
proof (relation "measures [\<lambda>(ns, visited, s). card (fst ` set (fst s) - set visited), \<lambda>(ns, _, _). length ns]",
    goal_cases)
  case (3 n ns visited s)
  then have "n \<in> fst ` set (fst s) - set visited" by simp
  then have "card (fst ` set (fst s) - set (visited @ [n])) < card (fst ` set (fst s) - set visited)"
    by (intro psubset_card_mono) auto
  with 3 show ?case by simp
qed simp_all

definition halt :: "nat \<Rightarrow> hierarchy \<Rightarrow> nat list \<times> hierarchy \<times> nat list" where
  "halt n h = halt_all [n] [] (h, [])"

section \<open>Restoring\<close>

text \<open>
  \<open>Connector.restore\<close> and \<open>Gate.restore\<close>: what a gate holds first, then the dependencies, then the
  connector itself. A gate is marked visited before what it holds is walked rather than after,
  which is the same walk as long as what a gate holds does not lead back to it.
\<close>

datatype task = Enter nat | Super nat | Leave nat

definition unpause_node :: "nat \<Rightarrow> hierarchy \<times> nat list \<Rightarrow> hierarchy \<times> nat list" where
  "unpause_node n s =
     (case s of (h, trace) \<Rightarrow>
        if \<not> halted (node_of h n) then (h, trace) else (alter (\<lambda>x. x\<lparr>halted := False\<rparr>) n h, trace @ [n]))"

lemma unpause_node_keeps [simp]:
  "n \<in> fst ` set (fst s) \<Longrightarrow> fst ` set (fst (unpause_node n s)) = fst ` set (fst s)"
  by (auto simp: unpause_node_def insert_absorb split: prod.splits)

fun weight :: "task \<Rightarrow> nat" where
  "weight (Enter n) = 4"
| "weight (Super n) = 2"
| "weight (Leave n) = 1"

function restore_all ::
  "task list \<Rightarrow> nat list \<Rightarrow> hierarchy \<times> nat list \<Rightarrow> nat list \<times> hierarchy \<times> nat list" where
  "restore_all [] visited s = (visited, s)"
| "restore_all (Enter n # ts) visited s =
     (if n \<in> set visited \<or> n \<notin> fst ` set (fst s) then restore_all ts visited s
      else restore_all (Super n # ts) visited s)"
| "restore_all (Super n # ts) visited s =
     (if n \<in> set visited \<or> n \<notin> fst ` set (fst s) then restore_all ts visited s
      else restore_all ((case live (node_of (fst s) n) of None \<Rightarrow> [] | Some l \<Rightarrow> [Enter l]) @
             map Enter (dependencies (node_of (fst s) n)) @ Leave n # ts) (visited @ [n]) s)"
| "restore_all (Leave n # ts) visited s = restore_all ts visited (if n \<in> fst ` set (fst s) then unpause_node n s else s)"
  by pat_completeness auto

termination
proof (relation "measures [\<lambda>(ts, visited, s). card (fst ` set (fst s) - set visited),
    \<lambda>(ts, _, _). sum_list (map weight ts)]", goal_cases)
  case (5 n ts visited s)
  then have "n \<in> fst ` set (fst s) - set visited" by simp
  then have "card (fst ` set (fst s) - set (visited @ [n])) < card (fst ` set (fst s) - set visited)"
    by (intro psubset_card_mono) auto
  with 5 show ?case by simp
qed simp_all

definition restore :: "nat \<Rightarrow> hierarchy \<Rightarrow> nat list \<times> hierarchy \<times> nat list" where
  "restore n h = restore_all [Enter n] [] (h, [])"

section \<open>Properties\<close>

text \<open>What can be walked to from some connectors, within the store.\<close>

inductive_set reached :: "hierarchy \<Rightarrow> nat set \<Rightarrow> nat set" for h roots where
  root: "n \<in> roots \<Longrightarrow> n \<in> fst ` set h \<Longrightarrow> n \<in> reached h roots"
| deeper: "n \<in> reached h roots \<Longrightarrow> m \<in> set (below h n) \<Longrightarrow> m \<in> fst ` set h \<Longrightarrow> m \<in> reached h roots"

lemma halt_all_visits:
  "halt_all ns visited s = (visited', s') \<Longrightarrow>
     set visited \<subseteq> set visited' \<and> set ns \<inter> fst ` set (fst s) \<subseteq> set visited' \<and>
     (\<forall>n \<in> set visited' - set visited. set (below (fst s) n) \<inter> fst ` set (fst s) \<subseteq> set visited') \<and>
     set visited' \<subseteq> set visited \<union> reached (fst s) (set ns)"
proof (induction ns visited s rule: halt_all.induct)
  case (2 n ns visited s)
  show ?case
  proof (cases "n \<in> set visited \<or> n \<notin> fst ` set (fst s)")
    case True
    have "reached (fst s) (set ns) \<subseteq> reached (fst s) (set (n # ns))"
    proof
      fix m assume "m \<in> reached (fst s) (set ns)"
      then show "m \<in> reached (fst s) (set (n # ns))" by induction (auto intro: reached.intros)
    qed
    with 2 True show ?thesis by auto
  next
    case False
    then have n: "n \<in> fst ` set (fst s)" "n \<notin> set visited" by auto
    from False 2(2,3) have IH:
      "set (visited @ [n]) \<subseteq> set visited'"
      "set (below (fst s) n @ ns) \<inter> fst ` set (fst s) \<subseteq> set visited'"
      "\<forall>m \<in> set visited' - set (visited @ [n]). set (below (fst s) m) \<inter> fst ` set (fst s) \<subseteq> set visited'"
      "set visited' \<subseteq> set (visited @ [n]) \<union> reached (fst (pause_node n s)) (set (below (fst s) n @ ns))"
      by simp_all
    have same: "reached (fst (pause_node n s)) R \<subseteq> reached (fst s) R" for R
    proof
      fix m assume "m \<in> reached (fst (pause_node n s)) R"
      then show "m \<in> reached (fst s) R" by induction (use n in \<open>auto intro: reached.intros\<close>)
    qed
    have deep: "reached (fst s) (set (below (fst s) n @ ns)) \<subseteq> reached (fst s) (set (n # ns))"
    proof
      fix m assume "m \<in> reached (fst s) (set (below (fst s) n @ ns))"
      then show "m \<in> reached (fst s) (set (n # ns))"
        by induction (use n in \<open>auto intro: reached.intros reached.deeper [OF reached.root]\<close>)
    qed
    have "n \<in> reached (fst s) (set (n # ns))" using n by (auto intro: reached.root)
    moreover have "set visited' \<subseteq> set visited \<union> {n} \<union> reached (fst s) (set (n # ns))"
      using IH(4) same [of "set (below (fst s) n @ ns)"] deep by auto
    ultimately have "set visited' \<subseteq> set visited \<union> reached (fst s) (set (n # ns))" by auto
    moreover have "set (below (fst s) m) \<inter> fst ` set (fst s) \<subseteq> set visited'"
      if "m \<in> set visited' - set visited" for m
      using that IH(2,3) by (cases "m = n") auto
    ultimately show ?thesis using IH(1,2) n by auto
  qed
qed simp

lemma halt_all_trace:
  "halt_all ns visited s = (visited', s') \<Longrightarrow> distinct visited \<Longrightarrow>
     \<exists>new. visited' = visited @ new \<and> distinct visited' \<and>
       snd s' = snd s @ filter (\<lambda>n. \<not> halted (node_of (fst s) n)) new \<and>
       (\<forall>n. halted (node_of (fst s') n) \<longleftrightarrow> halted (node_of (fst s) n) \<or> n \<in> set new)"
proof (induction ns visited s rule: halt_all.induct)
  case (2 n ns visited s)
  show ?case
  proof (cases "n \<in> set visited \<or> n \<notin> fst ` set (fst s)")
    case False
    obtain h tr where s: "s = (h, tr)" by (cases s)
    have halted_pause: "halted (node_of (fst (pause_node n (h, tr))) m) \<longleftrightarrow> halted (node_of h m) \<or> m = n" for m
      by (auto simp: pause_node_def)
    have trace_pause: "snd (pause_node n (h, tr)) = tr @ (if halted (node_of h n) then [] else [n])"
      by (simp add: pause_node_def)
    have "halt_all (below (fst s) n @ ns) (visited @ [n]) (pause_node n s) = (visited', s')"
      "distinct (visited @ [n])"
      using 2(3,4) False by simp_all
    from 2(2) [OF False this] obtain new where new: "visited' = (visited @ [n]) @ new" "distinct visited'"
      "snd s' = snd (pause_node n s) @ filter (\<lambda>m. \<not> halted (node_of (fst (pause_node n s)) m)) new"
      "\<forall>m. halted (node_of (fst s') m) \<longleftrightarrow> halted (node_of (fst (pause_node n s)) m) \<or> m \<in> set new"
      by blast
    have "filter (\<lambda>m. \<not> halted (node_of (fst (pause_node n s)) m)) new = filter (\<lambda>m. \<not> halted (node_of h m)) new"
      using new(1,2) by (intro filter_cong) (auto simp: halted_pause s)
    with new show ?thesis
      by (intro exI [of _ "n # new"]) (auto simp: trace_pause halted_pause s)
  next
    case True
    with 2 show ?thesis by auto
  qed
qed simp

text \<open>
  C38. A halt reaches everything and stops it once: from a connector it visits exactly what can be
  walked to from it, what gates hold included, pauses in the order it arrives each one that was
  not halted already and no other, and leaves halted what was and what it visited.
\<close>

theorem halt_reaches_all:
  "case halt n h of (visited, h', paused) \<Rightarrow>
     distinct visited \<and> set visited = reached h {n} \<and>
     paused = filter (\<lambda>m. \<not> halted (node_of h m)) visited \<and>
     (\<forall>m. halted (node_of h' m) \<longleftrightarrow> halted (node_of h m) \<or> m \<in> reached h {n})"
proof -
  obtain visited h' paused where w: "halt_all [n] [] (h, []) = (visited, h', paused)"
    by (cases "halt_all [n] [] (h, [])")
  note v = halt_all_visits [OF w] and t = halt_all_trace [OF w, simplified]
  have "m \<in> set visited" if "m \<in> reached h {n}" for m
    using that by induction (use v in auto)
  then have "set visited = reached h {n}" using v by auto
  moreover have "halt n h = (visited, h', paused)" unfolding halt_def by (rule w)
  ultimately show ?thesis using t by simp
qed

subsection \<open>Restoring\<close>

definition targets :: "task list \<Rightarrow> nat set" where
  "targets ts = {n. Enter n \<in> set ts \<or> Super n \<in> set ts}"

definition leaving :: "task list \<Rightarrow> nat set" where
  "leaving ts = {n. Leave n \<in> set ts}"

lemma targets_simps [simp]:
  "targets [] = {}" "targets (Enter n # ts) = insert n (targets ts)"
  "targets (Super n # ts) = insert n (targets ts)" "targets (Leave n # ts) = targets ts"
  "targets (ts @ us) = targets ts \<union> targets us" "targets (map Enter ns) = set ns"
  by (auto simp: targets_def)

lemma leaving_simps [simp]:
  "leaving [] = {}" "leaving (Enter n # ts) = leaving ts" "leaving (Super n # ts) = leaving ts"
  "leaving (Leave n # ts) = insert n (leaving ts)" "leaving (ts @ us) = leaving ts \<union> leaving us"
  "leaving (map Enter ns) = {}"
  by (auto simp: leaving_def)

lemma unpause_below [simp]: "below (fst (unpause_node n s)) m = below (fst s) m"
  by (auto simp: unpause_node_def below_def split: prod.splits)

lemma reached_cong:
  assumes "\<And>m. below h' m = below h m" "fst ` set h' = fst ` set h"
  shows "reached h' R = reached h R"
proof -
  have "m \<in> reached h R" if "m \<in> reached h' R" for m
    using that by induction (auto simp: assms intro: reached.intros)
  moreover have "m \<in> reached h' R" if "m \<in> reached h R" for m
    using that by induction (auto simp: assms [symmetric] intro: reached.intros)
  ultimately show ?thesis by blast
qed

lemma reached_mono: "R \<subseteq> R' \<Longrightarrow> reached h R \<subseteq> reached h R'"
proof
  fix m assume "R \<subseteq> R'" "m \<in> reached h R"
  from this(2,1) show "m \<in> reached h R'" by induction (auto intro: reached.intros)
qed

lemma reached_below:
  assumes "n \<in> fst ` set h"
  shows "reached h (set (below h n) \<union> R) \<subseteq> reached h (insert n R)"
proof
  fix m assume "m \<in> reached h (set (below h n) \<union> R)"
  then show "m \<in> reached h (insert n R)"
    by induction (use assms in \<open>auto intro: reached.intros reached.deeper [OF reached.root]\<close>)
qed

lemma restore_visits:
  "restore_all ts visited s = (visited', s') \<Longrightarrow>
     set visited \<subseteq> set visited' \<and> targets ts \<inter> fst ` set (fst s) \<subseteq> set visited' \<and>
     (\<forall>n \<in> set visited' - set visited. set (below (fst s) n) \<inter> fst ` set (fst s) \<subseteq> set visited') \<and>
     set visited' \<subseteq> set visited \<union> reached (fst s) (targets ts)"
proof (induction ts visited s rule: restore_all.induct)
  case (2 n ts visited s)
  then show ?case
    using reached_mono [OF subset_insertI [of "targets ts" n], of "fst s"] by (auto split: if_splits)
next
  case (3 n ts visited s)
  show ?case
  proof (cases "n \<in> set visited \<or> n \<notin> fst ` set (fst s)")
    case True
    with 3(1,3) show ?thesis
      using reached_mono [OF subset_insertI [of "targets ts" n], of "fst s"] by auto
  next
    case False
    then have n: "n \<in> fst ` set (fst s)" "n \<notin> set visited" by auto
    let ?ts = "(case live (node_of (fst s) n) of None \<Rightarrow> [] | Some l \<Rightarrow> [Enter l]) @
      map Enter (dependencies (node_of (fst s) n)) @ Leave n # ts"
    have targets: "targets ?ts = set (below (fst s) n) \<union> targets ts"
      by (auto simp: below_def split: option.splits)
    from False 3(3) have "restore_all ?ts (visited @ [n]) s = (visited', s')" by simp
    from 3(2) [OF False this, unfolded targets] have IH:
      "set (visited @ [n]) \<subseteq> set visited'"
      "(set (below (fst s) n) \<union> targets ts) \<inter> fst ` set (fst s) \<subseteq> set visited'"
      "\<forall>m \<in> set visited' - set (visited @ [n]). set (below (fst s) m) \<inter> fst ` set (fst s) \<subseteq> set visited'"
      "set visited' \<subseteq> set (visited @ [n]) \<union> reached (fst s) (set (below (fst s) n) \<union> targets ts)"
      by simp_all
    have "n \<in> reached (fst s) (insert n (targets ts))" using n by (auto intro: reached.root)
    then have "set visited' \<subseteq> set visited \<union> reached (fst s) (insert n (targets ts))"
      using IH(4) reached_below [OF n(1), of "targets ts"] by auto
    moreover have "set (below (fst s) m) \<inter> fst ` set (fst s) \<subseteq> set visited'"
      if "m \<in> set visited' - set visited" for m
      using that IH(2,3) by (cases "m = n") auto
    ultimately show ?thesis using IH(1,2) n by auto
  qed
next
  case (4 n ts visited s)
  have "reached (fst (unpause_node n s)) R = reached (fst s) R" if "n \<in> fst ` set (fst s)" for R
    using that by (intro reached_cong) simp_all
  with 4 show ?case by (auto split: if_splits)
qed simp

lemma restore_flags:
  "restore_all ts visited s = (visited', s') \<Longrightarrow>
     halted (node_of (fst s') n) \<longleftrightarrow> halted (node_of (fst s) n) \<and>
       n \<notin> (set visited' - set visited) \<union> (leaving ts \<inter> fst ` set (fst s))"
proof (induction ts visited s rule: restore_all.induct)
  case (3 m ts visited s)
  show ?case
  proof (cases "m \<in> set visited \<or> m \<notin> fst ` set (fst s)")
    case True
    with 3(1,3) show ?thesis by auto
  next
    case False
    let ?ts = "(case live (node_of (fst s) m) of None \<Rightarrow> [] | Some l \<Rightarrow> [Enter l]) @
      map Enter (dependencies (node_of (fst s) m)) @ Leave m # ts"
    have "leaving ?ts = insert m (leaving ts)" by (auto split: option.splits)
    moreover have r: "restore_all ?ts (visited @ [m]) s = (visited', s')" using False 3(3) by simp
    moreover have "m \<in> set visited'" using restore_visits [OF r] by auto
    ultimately show ?thesis using 3(2) [OF False r] False by auto
  qed
next
  case (4 m ts visited s)
  obtain h tr where s: "s = (h, tr)" by (cases s)
  have "halted (node_of (fst (unpause_node m (h, tr))) n) \<longleftrightarrow> halted (node_of h n) \<and> n \<noteq> m"
    by (auto simp: unpause_node_def)
  with 4 show ?case by (auto simp: s split: if_splits)
qed (auto split: if_splits)

text \<open>
  A restore undoes a halt: over a hierarchy none of which was halted, restoring the connector
  that was halted visits exactly what the halt did, and leaves nothing halted.
\<close>

theorem restore_undoes_halt:
  assumes "\<forall>m. \<not> halted (node_of h m)" "halt n h = (visited, h', paused)"
  shows "case restore n h' of (revisited, h'', unpaused) \<Rightarrow>
    set revisited = set visited \<and> (\<forall>m. \<not> halted (node_of h'' m))"
proof -
  have w: "halt_all [n] [] (h, []) = (visited, h', paused)" using assms(2) by (simp only: halt_def)
  have "below (fst s') m = below (fst s) m \<and> fst ` set (fst s') = fst ` set (fst s)"
    if "halt_all ns vs s = (vs', s')" for ns vs s vs' s' m
    using that by (induction ns vs s rule: halt_all.induct) (auto split: if_splits)
  from this [OF w] have same: "below h' m = below h m" "fst ` set h' = fst ` set h" for m by simp_all
  obtain revisited h'' unpaused where r: "restore_all [Enter n] [] (h', []) = (revisited, h'', unpaused)"
    by (cases "restore_all [Enter n] [] (h', [])")
  note v = restore_visits [OF r, simplified]
  have "m \<in> set revisited" if "m \<in> reached h' {n}" for m
    using that by induction (use v in auto)
  then have "set revisited = reached h {n}" using v reached_cong [OF same] by auto
  moreover have "set visited = reached h {n}"
  proof -
    note v = halt_all_visits [OF w]
    have "m \<in> set visited" if "m \<in> reached h {n}" for m
      using that by induction (use v in auto)
    then show ?thesis using v by auto
  qed
  moreover have "halted (node_of h' m) \<longleftrightarrow> m \<in> set visited" for m
    using halt_all_trace [OF w] assms(1) by auto
  moreover have "halted (node_of h'' m) \<longleftrightarrow> halted (node_of h' m) \<and> m \<notin> set revisited" for m
    using restore_flags [OF r] by simp
  moreover have "restore n h' = (revisited, h'', unpaused)" unfolding restore_def by (rule r)
  ultimately show ?thesis by auto
qed

definition sample_tree :: hierarchy where
  "sample_tree = [(0, new_node\<lparr>dependencies := [1, 2]\<rparr>), (1, new_node\<lparr>dependencies := [2]\<rparr>),
     (2, new_node\<lparr>live := Some 3\<rparr>), (3, new_node), (4, new_node)]"

lemma restore_undoes_halt_witness:
  "\<exists>visited h' paused. halt 0 sample_tree = (visited, h', paused) \<and> set visited = {0, 1, 2, 3} \<and>
     (case restore 0 h' of (revisited, h'', unpaused) \<Rightarrow> \<forall>m. \<not> halted (node_of h'' m))"
proof -
  obtain visited h' paused where w: "halt 0 sample_tree = (visited, h', paused)"
    by (cases "halt 0 sample_tree")
  have "\<forall>m. \<not> halted (node_of sample_tree m)"
    by (simp add: sample_tree_def node_of_def dget_def new_node_def)
  moreover have "set visited = {0, 1, 2, 3}"
    using w by (auto simp: halt_def sample_tree_def below_def node_of_def dget_def new_node_def
        pause_node_def alter_def)
  ultimately show ?thesis using restore_undoes_halt [OF _ w] w by auto
qed

end
