(* ===== verification/Convergence.thy ===== *)
theory Convergence
  imports Mongo Call
begin

text \<open>
  \<open>extensions/convergence/source/{Factory,Storage,Destination}.ts\<close>: how the records one region commits
  reach the storage of another. A destination turns an outbox row into the message that leaves; the
  converging storage accepts what arrives and hands everything else to the storage under it; the
  factory makes the two halves of a component and stands one down where the other cannot work.
  Spans, measurements and what is only logged are left out. The trace of the calling context and
  the publisher the host makes are parameters.
\<close>

section \<open>The destination\<close>

record wire =
  wire_record :: "stored option"
  wire_trace :: "string option"
  wire_carried :: "props option"

record conv_destination =
  cd_label :: string
  cd_disabled :: bool
  cd_regional :: "(string \<times> regional_destination) list option"

definition new_destination :: "string \<Rightarrow> conv_destination" where
  "new_destination label = \<lparr>cd_label = label, cd_disabled = False, cd_regional = None\<rparr>"

definition disable :: "conv_destination \<Rightarrow> conv_destination" where
  "disable d = d\<lparr>cd_disabled := True\<rparr>"

text \<open>
  \<open>emit\<close>: the label and the message handed to the outbound; \<open>None\<close> where the destination has stood
  down.
\<close>

definition conv_emit :: "string option \<Rightarrow> conv_destination \<Rightarrow> row \<Rightarrow> (string \<times> wire) option" where
  "conv_emit trace d r =
     (if cd_disabled d then None
      else Some (cd_label d,
        \<lparr>wire_record = ev_state (row_event r), wire_trace = trace,
         wire_carried = (case cd_regional d of None \<Rightarrow> None | Some ds \<Rightarrow> regional_export ds r)\<rparr>))"

section \<open>The converging storage\<close>

text \<open>
  \<open>accept\<close>, over the \<open>converge\<close> of the storage under it: whether the record was applied, what failed
  in importing what was carried, what was imported, and the storage left. What is carried is
  imported whatever became of the record, and a failure there leaves the record where it is.
\<close>

definition accept ::
  "('s \<Rightarrow> stored \<Rightarrow> bool \<times> 's) \<Rightarrow> (string \<times> regional_destination) list option \<Rightarrow> 's \<Rightarrow> stored \<Rightarrow> props option \<Rightarrow>
     (bool \<times> thrown option \<times> (string \<times> val) list) \<times> 's" where
  "accept converge ds s r brought =
     (case converge s r of
        (applied, s') \<Rightarrow>
          (case (brought, ds) of
             (Some parts, Some rds) \<Rightarrow>
               (case regional_import rds parts of (failure, imported) \<Rightarrow> ((applied, failure, imported), s'))
           | _ \<Rightarrow> ((applied, None, []), s')))"

definition no_outbox :: "string \<Rightarrow> thrown" where
  "no_outbox i = Err \<lparr>err_message = ''Component '' @ [CHR 0x27] @ i @ [CHR 0x27] @
     '' converges, and its storage offers no outbox.'', err_cause = None, err_stack = None, err_code = None\<rparr>"

text \<open>\<open>open\<close>, up to the subscription it makes.\<close>

definition conv_open :: "string \<Rightarrow> 'o option \<Rightarrow> thrown + unit" where
  "conv_open i storage_outbox = (case storage_outbox of None \<Rightarrow> Inl (no_outbox i) | Some _ \<Rightarrow> Inr ())"

text \<open>Everything a component reads or writes is the storage's own, member by member.\<close>

definition converging_ops :: "('s, 'node) storage_ops \<Rightarrow> ('s, 'node) storage_ops" where
  "converging_ops ops =
     \<lparr>st_get = (\<lambda>s q. st_get ops s q), st_find = (\<lambda>s q. st_find ops s q),
      st_stream = (\<lambda>s q. st_stream ops s q),
      st_store = (\<lambda>s r row call. st_store ops s r row call),
      st_massStore = (\<lambda>s rs rows. st_massStore ops s rs rows),
      st_upsert = (\<lambda>s q ch row call. st_upsert ops s q ch row call),
      st_ensure = (\<lambda>s q ps r row call. st_ensure ops s q ps r row call),
      st_recall = (\<lambda>s i. st_recall ops s i), st_raw = (\<lambda>s. st_raw ops s)\<rparr>"

section \<open>The factory\<close>

text \<open>
  Destinations are objects the outbox of a component holds too, so they are in a store, by address;
  \<open>paired\<close> is the map from a component to the destination made for it. \<open>binding\<close> is what the
  environment names as the binding of the channel, and a publisher is named by a number.
\<close>

record factory =
  f_outbound :: "(thrown + nat) option"
  f_objects :: "conv_destination list"
  f_paired :: "(string \<times> nat) list"

definition new_factory :: factory where
  "new_factory = \<lparr>f_outbound = None, f_objects = [], f_paired = []\<rparr>"

definition converging :: "string option \<Rightarrow> bool" where
  "converging binding \<longleftrightarrow> binding \<noteq> None"

definition factory_destination :: "string option \<Rightarrow> factory \<Rightarrow> string \<Rightarrow> bool \<Rightarrow> nat option \<times> factory" where
  "factory_destination binding f i has_entity =
     (if \<not> converging binding \<or> \<not> has_entity then (None, f)
      else (Some (length (f_objects f)),
            f\<lparr>f_objects := f_objects f @ [new_destination i],
              f_paired := AList.update i (length (f_objects f)) (f_paired f)\<rparr>))"

datatype decorated = Plain_storage | Converging_storage nat

definition factory_storage :: "string option \<Rightarrow> factory \<Rightarrow> string \<Rightarrow> bool \<Rightarrow> decorated \<times> factory" where
  "factory_storage binding f i storage_converges =
     (let f' = f\<lparr>f_paired := AList.delete i (f_paired f)\<rparr>
      in case map_of (f_paired f) i of
           None \<Rightarrow> (Plain_storage, f')
         | Some d \<Rightarrow>
             if \<not> converging binding then (Plain_storage, f')
             else if \<not> storage_converges
             then (Plain_storage, f'\<lparr>f_objects := (f_objects f)[d := disable (f_objects f ! d)]\<rparr>)
             else (Converging_storage d, f'))"

definition no_binding :: thrown where
  "no_binding = Err \<lparr>err_message = ''TOA_CONVERGENCE_BINDING is not set, so nothing says what carries the channel.'',
     err_cause = None, err_stack = None, err_code = None\<rparr>"

text \<open>
  \<open>publisher\<close>: \<open>host\<close> is what the host makes of a binding, \<open>disposed\<close> which publishers have been
  taken down. A publisher that could not be made is a rejected promise, and is held as one.
\<close>

definition publisher ::
  "(string \<Rightarrow> thrown + nat) \<Rightarrow> (nat \<Rightarrow> bool) \<Rightarrow> string option \<Rightarrow> factory \<Rightarrow> (thrown + nat) \<times> factory" where
  "publisher host disposed binding f =
     (let renewed = (case binding of
            None \<Rightarrow> (Inl no_binding, f)
          | Some b \<Rightarrow> (host b, f\<lparr>f_outbound := Some (host b)\<rparr>))
      in case f_outbound f of
           None \<Rightarrow> renewed
         | Some (Inl e) \<Rightarrow> (Inl e, f)
         | Some (Inr o1) \<Rightarrow> if disposed o1 then renewed else (Inr o1, f))"

section \<open>Properties\<close>

text \<open>The decoration loses no member of the storage it decorates.\<close>

lemma converging_whole [simp]: "converging_ops ops = ops"
  by (simp add: converging_ops_def)

interpretation converging: entity_storage "converging_ops (mongo_ops (once_env env))" mongo_lookup for env
  unfolding converging_whole by (rule mongo.entity_storage_axioms)

lemma accept_state [simp]: "snd (accept converge ds s r brought) = snd (converge s r)"
  by (auto simp: accept_def split: prod.splits option.splits)

subsection \<open>Convergence of two regions\<close>

text \<open>What arrives at a region, delivery by delivery: a record and what it carries.\<close>

definition arrive ::
  "('s \<Rightarrow> stored \<Rightarrow> bool \<times> 's) \<Rightarrow> (string \<times> regional_destination) list option \<Rightarrow> 's \<Rightarrow>
     (stored \<times> props option) list \<Rightarrow> 's" where
  "arrive converge ds s ms = foldl (\<lambda>s (r, brought). snd (accept converge ds s r brought)) s ms"

lemma arrive_simps [simp]:
  "arrive converge ds s [] = s"
  "arrive converge ds s (m # ms) = arrive converge ds (snd (converge s (fst m))) ms"
  by (simp_all add: arrive_def split_beta)


lemma outranks_irrefl [simp]: "\<not> outranks x x"
  by (simp add: outranks_def)









end
