(* ===== verification/Routing.thy ===== *)
theory Routing
  imports Prelude
begin

text \<open>
  \<open>extensions/exposition/source/RTD/{Tree,Node,Route,segment,factory}.ts\<close> and \<open>Branch.ts\<close>: the tree
  of resources a gateway serves, how a path is matched against it, how a component's branch is built,
  merged, refreshed and superseded. A node is an object whose identity outlives what it holds (a
  merge replaces the contents of the node it lands on), so every node carries an address. A method
  is what \<open>make\<close> builds of its declaration, the directives in force and the path; endpoints and
  directives themselves are no part of this. Strings are their UTF-8 bytes.
\<close>

section \<open>Paths\<close>

datatype segment = Literal string | Placeholder string | Any_one | Rest

definition fragments :: "string \<Rightarrow> string list" where
  "fragments path =
     (let parts = split_on (CHR ''/'') path
      in drop 1 (if last parts = [] then butlast parts else parts))"

definition parse_segment :: "string \<Rightarrow> segment" where
  "parse_segment s =
     (if s \<noteq> [] \<and> hd s = CHR '':'' then Placeholder (tl s)
      else if s = ''*'' then Any_one
      else if s = ''**'' then Rest
      else Literal s)"

definition segment_path :: "string \<Rightarrow> segment list" where
  "segment_path path = map parse_segment (fragments path)"

fun segment_text :: "segment \<Rightarrow> string" where
  "segment_text (Literal l) = l"
| "segment_text Rest = ''**''"
| "segment_text Any_one = ''*''"
| "segment_text (Placeholder p) = '':'' @ p"

definition template :: "segment list \<Rightarrow> string" where
  "template ss = (if ss = [] then ''/'' else ''/'' @ join ''/'' (map segment_text ss))"

fun segment_fragment :: "segment \<Rightarrow> string option" where
  "segment_fragment (Literal l) = Some l"
| "segment_fragment s = None"

definition variables :: "segment list \<Rightarrow> nat" where
  "variables ss = length (filter (\<lambda>s. segment_fragment s = None) ss)"

definition wildcard :: "segment list \<Rightarrow> bool" where
  "wildcard ss \<longleftrightarrow> Rest \<in> set ss"

section \<open>Decoding\<close>

text \<open>
  \<open>decodeURIComponent\<close>: an escape is two hexadecimal digits, and consecutive escapes above the first
  128 spell one character of UTF-8; anything else is an error.
\<close>

definition hex_value :: "char \<Rightarrow> nat option" where
  "hex_value c =
     (let n = of_char c :: nat
      in if 48 \<le> n \<and> n \<le> 57 then Some (n - 48)
         else if 65 \<le> n \<and> n \<le> 70 then Some (n - 55)
         else if 97 \<le> n \<and> n \<le> 102 then Some (n - 87)
         else None)"

fun escaped :: "string \<Rightarrow> (nat \<times> string) option" where
  "escaped (p # a # b # rest) =
     (if p \<noteq> CHR ''%'' then None
      else case (hex_value a, hex_value b) of
             (Some x, Some y) \<Rightarrow> Some (16 * x + y, rest)
           | _ \<Rightarrow> None)"
| "escaped _ = None"

definition following :: "nat \<Rightarrow> nat option" where
  "following b =
     (if b < 128 then Some 0
      else if 194 \<le> b \<and> b < 224 then Some 1
      else if 224 \<le> b \<and> b < 240 then Some 2
      else if 240 \<le> b \<and> b < 245 then Some 3
      else None)"

fun continuations :: "nat \<Rightarrow> string \<Rightarrow> (nat list \<times> string) option" where
  "continuations 0 s = Some ([], s)"
| "continuations (Suc n) s =
     (case escaped s of
        None \<Rightarrow> None
      | Some (b, rest) \<Rightarrow>
          if 128 \<le> b \<and> b < 192 then map_option (\<lambda>(bs, r). (b # bs, r)) (continuations n rest) else None)"

definition lawful_utf8 :: "nat \<Rightarrow> nat list \<Rightarrow> bool" where
  "lawful_utf8 b bs \<longleftrightarrow>
     (case bs of
        [] \<Rightarrow> True
      | c # _ \<Rightarrow> (b = 224 \<longrightarrow> 160 \<le> c) \<and> (b = 237 \<longrightarrow> c < 160) \<and> (b = 240 \<longrightarrow> 144 \<le> c) \<and> (b = 244 \<longrightarrow> c < 144))"

lemma escaped_length: "escaped s = Some (b, rest) \<Longrightarrow> length rest < length s"
  by (cases s rule: escaped.cases) (auto split: if_splits option.splits)

lemma continuations_length: "continuations n s = Some (bs, rest) \<Longrightarrow> length rest \<le> length s"
  by (induction n arbitrary: s bs) (fastforce dest: escaped_length split: option.splits if_splits prod.splits)+

function decode_component :: "string \<Rightarrow> string option" where
  "decode_component [] = Some []"
| "decode_component (c # cs) =
     (if c \<noteq> CHR ''%'' then map_option (Cons c) (decode_component cs)
      else case escaped (c # cs) of
             None \<Rightarrow> None
           | Some (b, rest) \<Rightarrow>
               (case following b of
                  None \<Rightarrow> None
                | Some n \<Rightarrow>
                    (case continuations n rest of
                       None \<Rightarrow> None
                     | Some (bs, rest') \<Rightarrow>
                         if lawful_utf8 b bs
                         then map_option (\<lambda>r. map char_of (b # bs) @ r) (decode_component rest')
                         else None)))"
  by pat_completeness auto
termination
  by (relation "measure length") (auto dest!: escaped_length continuations_length)

definition decode :: "string \<Rightarrow> string" where
  "decode s = (case decode_component s of None \<Rightarrow> s | Some t \<Rightarrow> t)"

section \<open>The tree\<close>

datatype 'm node =
  Node (n_id: nat) (n_intermediate: bool) (n_forward: "string option")
    (n_protected: bool) (n_methods: "(string \<times> 'm) list") (n_routes: "'m route list")
and 'm route = Route (r_segments: "segment list") (r_node: "'m node")

type_synonym parameters = "(string \<times> string) list"

text \<open>
  When a node expires is by its address, since a node keeps it when it is no longer of the tree; a
  protected node has no entry and never expires.
\<close>

type_synonym expirations = "(nat \<times> jsnum) list"

definition expires :: "expirations \<Rightarrow> nat \<Rightarrow> jsnum" where
  "expires e i = dget (Inf True) e i"

definition alive :: "expirations \<Rightarrow> int \<Rightarrow> 'm node \<Rightarrow> bool" where
  "alive e now n \<longleftrightarrow> \<not> num_le (expires e (n_id n)) (Fin (of_int now))"

text \<open>
  \<open>sort\<close>: fewer variables first and, of as many variables, more segments first. The sort of the
  language is stable, and two stable passes are the one by both keys.
\<close>

definition sort_routes :: "'m route list \<Rightarrow> 'm route list" where
  "sort_routes rs =
     sort_key (\<lambda>r. variables (r_segments r)) (sort_key (\<lambda>r. - int (length (r_segments r))) rs)"

definition built_node ::
  "nat \<Rightarrow> string option \<Rightarrow> bool \<Rightarrow> (string \<times> 'm) list \<Rightarrow> 'm route list \<Rightarrow> 'm node" where
  "built_node i fwd protects ms rs =
     Node i (list_ex (\<lambda>r. r_segments r = []) rs) fwd protects ms (sort_routes rs)"

section \<open>Matching\<close>

text \<open>
  The segments of one route against the fragments from where it begins. A fragment that is not there
  is \<open>undefined\<close>, which no literal equals and which decodes to its own name.
\<close>

fun match_segments :: "nat \<Rightarrow> segment list \<Rightarrow> string list \<Rightarrow> nat \<Rightarrow> parameters \<Rightarrow> parameters option" where
  "match_segments k [] fs i ps = Some ps"
| "match_segments k (s # ss) fs i ps =
     (case s of
        Literal l \<Rightarrow>
          if i < length fs \<and> fs ! i = l then match_segments k ss fs (Suc i) ps else None
      | Placeholder p \<Rightarrow>
          match_segments k ss fs (Suc i)
            (ps @ [(p, decode (if i < length fs then fs ! i else ''undefined''))])
      | Any_one \<Rightarrow> match_segments k ss fs (Suc i) ps
      | Rest \<Rightarrow>
          match_segments k ss fs (Suc i)
            (ps @ [(''**'', join ''/'' (map decode (drop (k - 1) fs)))]))"

fun match_node :: "expirations \<Rightarrow> int \<Rightarrow> string list \<Rightarrow> parameters \<Rightarrow> segment list \<Rightarrow> 'm node \<Rightarrow>
      ('m node \<times> parameters \<times> segment list) option"
  and match_routes :: "expirations \<Rightarrow> int \<Rightarrow> string list \<Rightarrow> parameters \<Rightarrow> segment list \<Rightarrow> 'm route list \<Rightarrow>
      ('m node \<times> parameters \<times> segment list) option"
  and match_route :: "expirations \<Rightarrow> int \<Rightarrow> string list \<Rightarrow> parameters \<Rightarrow> segment list \<Rightarrow> 'm route \<Rightarrow>
      ('m node \<times> parameters \<times> segment list) option" where
  "match_node e now fs ps segs (Node i im fwd pr ms rs) = match_routes e now fs ps segs rs"
| "match_routes e now fs ps segs [] = None"
| "match_routes e now fs ps segs (r # rs) =
     (case match_route e now fs ps segs r of
        Some m \<Rightarrow> Some m
      | None \<Rightarrow> match_routes e now fs ps segs rs)"
| "match_route e now fs ps segs (Route ss n) =
     (if \<not> alive e now n then None
      else case match_segments (length ss) ss fs 0 ps of
             None \<Rightarrow> None
           | Some ps' \<Rightarrow>
               if (length ss = length fs \<and> \<not> n_intermediate n) \<or> wildcard ss then Some (n, ps', segs @ ss)
               else match_node e now (drop (length ss) fs) ps' (segs @ ss) n)"

definition tree_match :: "expirations \<Rightarrow> int \<Rightarrow> 'm node \<Rightarrow> string \<Rightarrow> ('m node \<times> parameters \<times> string) option" where
  "tree_match e now trunk path =
     (if path = ''/'' then Some (trunk, [], ''/'')
      else map_option (\<lambda>(n, ps, segs). (n, ps, template segs))
             (match_node e now (fragments path) [] [] trunk))"

section \<open>Merging\<close>

definition equal_routes :: "segment list \<Rightarrow> segment list \<Rightarrow> bool" where
  "equal_routes ss ts \<longleftrightarrow> map segment_fragment ss = map segment_fragment ts"

fun node_ids :: "'m node \<Rightarrow> nat list" and route_ids :: "'m route \<Rightarrow> nat list" where
  "node_ids (Node i im fwd pr ms rs) = i # concat (map route_ids rs)"
| "route_ids (Route ss n) = node_ids n"

text \<open>
  \<open>merge\<close>: a protected node takes the branch's routes one by one, a node that is not is replaced by
  it. What is returned with the node are the addresses the branch landed on, whose expiration a
  refresh extends, and each address that took over what another held.
\<close>

fun merge_node :: "'m node \<Rightarrow> 'm node \<Rightarrow> 'm node \<times> nat list \<times> (nat \<times> nat) list"
  and merge_routes :: "'m route list \<Rightarrow> 'm route list \<Rightarrow> 'm route list \<times> nat list \<times> (nat \<times> nat) list"
  and merge_route :: "'m route list \<Rightarrow> 'm route \<Rightarrow> 'm route list \<times> nat list \<times> (nat \<times> nat) list" where
  "merge_node (Node i im fwd pr ms rs) (Node i' im' fwd' pr' ms' rs') =
     (if pr then
        (case merge_routes rs rs' of
           (rs'', ids, taken) \<Rightarrow>
             (Node i im' fwd pr (foldl (\<lambda>m (verb, x). AList.update verb x m) ms ms') (sort_routes rs''), ids, taken))
      else (Node i im' fwd' pr ms' (sort_routes rs'), i # concat (map route_ids rs'), [(i, i')]))"
| "merge_routes rs [] = (rs, [], [])"
| "merge_routes rs (c # cs) =
     (case merge_route rs c of
        (rs', ids, taken) \<Rightarrow>
          (case merge_routes rs' cs of (rs'', ids', taken') \<Rightarrow> (rs'', ids @ ids', taken @ taken')))"
| "merge_route [] (Route ss n) = ([Route ss n], node_ids n, [])"
| "merge_route (Route ts t # rs) (Route ss n) =
     (if equal_routes ss ts then (case merge_node t n of (t', ids, taken) \<Rightarrow> (Route ts t' # rs, ids, taken))
      else (case merge_route rs (Route ss n) of (rs', ids, taken) \<Rightarrow> (Route ts t # rs', ids, taken)))"

definition take_over :: "(nat \<times> nat) list \<Rightarrow> expirations \<Rightarrow> expirations" where
  "take_over taken e = foldl (\<lambda>e (i, j). AList.update i (expires e j) e) e taken"

text \<open>\<open>touch\<close>, of the nodes at some addresses; \<open>refresh\<close> of the tree.\<close>

definition touch :: "jsnum \<Rightarrow> nat list \<Rightarrow> expirations \<Rightarrow> expirations" where
  "touch x ids e = map (\<lambda>(i, y). (i, if i \<in> set ids then x else y)) e"

definition tree_refresh :: "int \<Rightarrow> rat \<Rightarrow> nat list \<Rightarrow> expirations \<Rightarrow> expirations" where
  "tree_refresh now ttl ids e = touch (Fin (of_int now + ttl)) ids e"

section \<open>Building\<close>

record directive_decl =
  d_family :: string
  d_name :: string
  d_value :: val

datatype ('d, 'x) snode =
  SNode (s_protected: "bool option") (s_isolated: "bool option") (s_forward: "string option")
    (s_routes: "(string \<times> ('d, 'x) snode) list") (s_methods: "(string \<times> 'x) list") (s_directives: "'d list")

text \<open>What \<open>createNode\<close> is given of its context and what it calls through it.\<close>

record ('d, 'x, 'm) building =
  b_now :: int
  b_ttl :: rat
  b_protected :: bool
  b_inheritable :: "'d \<Rightarrow> bool"
  b_describes :: "'d \<Rightarrow> bool"
  b_make :: "'d list \<Rightarrow> string \<Rightarrow> 'x \<Rightarrow> string + 'm"

text \<open>\<open>join\<close>: runs of slashes are one, and a last one is dropped unless it is all there is.\<close>

fun squeeze :: "string \<Rightarrow> string" where
  "squeeze (a # b # s) = (if a = CHR ''/'' \<and> b = CHR ''/'' then squeeze (b # s) else a # squeeze (b # s))"
| "squeeze s = s"

definition join_path :: "string \<Rightarrow> string \<Rightarrow> string" where
  "join_path base path =
     (let s = squeeze (base @ path)
      in if 2 \<le> length s \<and> last s = CHR ''/'' then butlast s else s)"

definition undescribed :: "string \<Rightarrow> string" where
  "undescribed path = ''Directive help:node: '' @ [CHR 0x27] @ ''/'' @ join ''/'' (fragments path) @
     [CHR 0x27] @ '' serves no methods''"

fun make_methods :: "('x \<Rightarrow> string + 'm) \<Rightarrow> (string \<times> 'x) list \<Rightarrow> string + (string \<times> 'm) list" where
  "make_methods f [] = Inr []"
| "make_methods f ((verb, x) # ms) =
     rbind (f x) (\<lambda>m. rbind (make_methods f ms) (\<lambda>rest. Inr ((verb, m) # rest)))"

text \<open>
  \<open>createNode\<close> and \<open>createRoute\<close>, over the next address and the expirations: the directives in force
  are the node's own before what it inherits, and what is under it inherits those that are
  inheritable, except the route \<open>/\<close> that answers in its place. One reading of the clock stands for
  all a branch is built with.
\<close>

fun create_node :: "('d, 'x, 'm) building \<Rightarrow> 'd list \<Rightarrow> string \<Rightarrow> nat \<times> expirations \<Rightarrow> ('d, 'x) snode \<Rightarrow>
      string + 'm node \<times> nat \<times> expirations"
  and create_routes :: "('d, 'x, 'm) building \<Rightarrow> 'd list \<Rightarrow> string \<Rightarrow> nat \<times> expirations \<Rightarrow>
      (string \<times> ('d, 'x) snode) list \<Rightarrow> string + 'm route list \<times> nat \<times> expirations" where
  "create_node b inherited path st (SNode protects isolated fwd rs ms ds) =
     (let stack = (if isolated = Some True then ds else ds @ inherited)
      in if list_ex (b_describes b) ds \<and> ms = [] \<and> \<not> list_ex (\<lambda>(p, _). p = ''/'') rs
         then Inl (undescribed path)
         else rbind (create_routes b stack path st rs) (\<lambda>(routes, next, e).
           rbind (make_methods (b_make b stack path) ms) (\<lambda>made.
             let protect = (case protects of None \<Rightarrow> b_protected b | Some p \<Rightarrow> p)
             in Inr (built_node next fwd protect (foldl (\<lambda>m (verb, x). AList.update verb x m) [] made) routes,
                     Suc next,
                     if protect then e else AList.update next (Fin (of_int (b_now b) + b_ttl b)) e))))"
| "create_routes b stack path st [] = Inr ([], st)"
| "create_routes b stack path st ((p, n) # rs) =
     rbind (create_node b (if p = ''/'' then stack else filter (b_inheritable b) stack) (join_path path p) st n)
       (\<lambda>(child, st'). rbind (create_routes b stack path st' rs) (\<lambda>(rest, st'').
         Inr (Route (segment_path p) child # rest, st'')))"

section \<open>Properties\<close>

subsection \<open>What a path is served by\<close>

text \<open>What a template says of a path, whatever routes it is made of.\<close>

fun reads :: "segment list \<Rightarrow> string list \<Rightarrow> parameters option" where
  "reads [] fs = (if fs = [] then Some [] else None)"
| "reads (Rest # ss) fs = (if ss = [] then Some [(''**'', join ''/'' (map decode fs))] else None)"
| "reads (s # ss) [] = None"
| "reads (Literal l # ss) (f # fs) = (if f = l then reads ss fs else None)"
| "reads (Placeholder p # ss) (f # fs) = map_option (Cons (p, decode f)) (reads ss fs)"
| "reads (Any_one # ss) (f # fs) = reads ss fs"

text \<open>The nodes of a tree that answer, each with the template it answers at.\<close>

inductive mounted :: "expirations \<Rightarrow> int \<Rightarrow> 'm node \<Rightarrow> segment list \<Rightarrow> 'm node \<Rightarrow> bool" for e now where
  here: "Route ss n \<in> set (n_routes t) \<Longrightarrow> alive e now n \<Longrightarrow> \<not> n_intermediate n \<or> wildcard ss \<Longrightarrow>
    mounted e now t ss n"
| under: "Route ss n \<in> set (n_routes t) \<Longrightarrow> alive e now n \<Longrightarrow> \<not> wildcard ss \<Longrightarrow>
    mounted e now n segs m \<Longrightarrow> mounted e now t (ss @ segs) m"

fun rest_last :: "'m node \<Rightarrow> bool" and rest_last_route :: "'m route \<Rightarrow> bool" where
  "rest_last (Node i im fwd pr ms rs) = list_all rest_last_route rs"
| "rest_last_route (Route ss n) = (Rest \<notin> set (butlast ss) \<and> rest_last n)"

lemma match_segments_append:
  "match_segments k (us @ vs) fs i ps =
     Option.bind (match_segments k us fs i ps) (match_segments k vs fs (i + length us))"
  by (induction us arbitrary: i ps) (auto split: segment.splits)

lemma match_segments_reads:
  assumes "Rest \<notin> set ss" "i + length ss \<le> length fs" "match_segments k ss fs i ps = Some ps'"
  shows "\<exists>qs. ps' = ps @ qs \<and>
    (\<forall>ts. reads (ss @ ts) (drop i fs) = map_option ((@) qs) (reads ts (drop (i + length ss) fs)))"
  using assms
proof (induction ss arbitrary: i ps)
  case Nil
  have "map_option ((@) []) x = x" for x :: "parameters option" by (cases x) simp_all
  with Nil show ?case by simp
next
  case (Cons s ss)
  then have i: "drop i fs = fs ! i # drop (Suc i) fs" by (simp add: Cons_nth_drop_Suc)
  let ?ps = "case s of Placeholder p \<Rightarrow> ps @ [(p, decode (fs ! i))] | _ \<Rightarrow> ps"
  have "match_segments k ss fs (Suc i) ?ps = Some ps'"
    using Cons.prems by (auto split: segment.splits if_splits)
  from Cons.IH [OF _ _ this] Cons.prems(1,2) obtain qs where qs: "ps' = ?ps @ qs"
    "\<forall>ts. reads (ss @ ts) (drop (Suc i) fs) = map_option ((@) qs) (reads ts (drop (Suc i + length ss) fs))"
    by auto
  have lit: "s = Literal l \<Longrightarrow> fs ! i = l" for l using Cons.prems(3) by (simp split: if_splits)
  show ?case
    using Cons.prems(1) qs lit
    by (intro exI [of _ "(case s of Placeholder p \<Rightarrow> [(p, decode (fs ! i))] | _ \<Rightarrow> []) @ qs"])
      (auto simp: i option.map_comp comp_def split: segment.splits)
qed

lemma reads_match_segments:
  "Rest \<notin> set ss \<Longrightarrow> reads (ss @ ts) (drop i fs) = Some r \<Longrightarrow> i \<le> length fs \<Longrightarrow>
     i + length ss \<le> length fs \<and> match_segments k ss fs i ps \<noteq> None"
proof (induction ss arbitrary: i ps r)
  case (Cons s ss)
  then have "i < length fs" by (cases "i = length fs") (cases s; auto)+
  then have i: "drop i fs = fs ! i # drop (Suc i) fs" by (simp add: Cons_nth_drop_Suc)
  obtain r' where "reads (ss @ ts) (drop (Suc i) fs) = Some r'"
    using Cons.prems(1,2) by (cases s) (auto simp: i split: if_splits)
  from Cons.IH [OF _ this] Cons.prems(1) \<open>i < length fs\<close>
  have "Suc i + length ss \<le> length fs" "match_segments k ss fs (Suc i) ps' \<noteq> None" for ps' by auto
  with Cons.prems(1,2) \<open>i < length fs\<close> show ?case by (cases s) (auto simp: i split: if_splits)
qed simp

lemma reads_length: "Rest \<notin> set ss \<Longrightarrow> reads ss fs = Some qs \<Longrightarrow> length ss = length fs"
  by (induction ss fs arbitrary: qs rule: reads.induct) (auto split: if_splits)

lemma wildcard_last: "wildcard ss \<Longrightarrow> Rest \<notin> set (butlast ss) \<Longrightarrow> ss = butlast ss @ [Rest]"
  by (cases ss rule: rev_cases) (auto simp: wildcard_def)

lemma match_routes_iff: "match_routes e now fs ps segs rs \<noteq> None \<longleftrightarrow>
    (\<exists>r \<in> set rs. match_route e now fs ps segs r \<noteq> None)"
  by (induction rs) (auto split: option.splits)

lemma match_node_routes: "match_node e now fs ps segs t = match_routes e now fs ps segs (n_routes t)"
  by (cases t) simp

lemma match_complete:
  "mounted e now t segs n \<Longrightarrow> rest_last t \<Longrightarrow> reads segs fs = Some qs \<Longrightarrow> match_node e now fs ps pre t \<noteq> None"
proof (induction arbitrary: fs qs ps pre rule: mounted.induct)
  case (here ss n t)
  from here(1,4) have last: "Rest \<notin> set (butlast ss)"
    by (cases t) (auto simp: list_all_iff)
  have "match_route e now fs ps pre (Route ss n) \<noteq> None"
  proof (cases "wildcard ss")
    case True
    from wildcard_last [OF this last] have ss: "ss = butlast ss @ [Rest]" .
    then have "match_segments (length ss) (butlast ss) fs 0 ps \<noteq> None"
      using reads_match_segments [of "butlast ss" "[Rest]" 0 fs qs] last here(5) by simp
    then have "match_segments (length ss) ss fs 0 ps \<noteq> None"
      by (subst ss, subst match_segments_append) (auto split: bind_splits)
    with here(2) True show ?thesis by auto
  next
    case False
    then have "Rest \<notin> set ss" by (simp add: wildcard_def)
    from reads_match_segments [OF this, of "[]" 0 fs qs "length ss" ps] reads_length [OF this here(5)] here(5)
    have "match_segments (length ss) ss fs 0 ps \<noteq> None" "length ss = length fs" by simp_all
    with here(2,3) False show ?thesis by auto
  qed
  with here(1) show ?case unfolding match_node_routes match_routes_iff by blast
next
  case (under ss n t segs m)
  have n: "rest_last n" using under(1,6) by (cases t) (auto simp: list_all_iff)
  have rest: "Rest \<notin> set ss" using under(3) by (simp add: wildcard_def)
  have seg: "length ss \<le> length fs" "match_segments (length ss) ss fs 0 ps \<noteq> None"
    using reads_match_segments [OF rest, of segs 0 fs qs] under(7) by auto
  then obtain ps' where ps': "match_segments (length ss) ss fs 0 ps = Some ps'" by auto
  from match_segments_reads [OF rest _ this] seg(1) under(7)
  have "reads segs (drop (length ss) fs) \<noteq> None" by fastforce
  then have "match_node e now (drop (length ss) fs) ps' (pre @ ss) n \<noteq> None" using under.IH [OF n] by blast
  then have "match_route e now fs ps pre (Route ss n) \<noteq> None" using under(2) ps' by simp
  with under(1) show ?case unfolding match_node_routes match_routes_iff by blast
qed

lemma match_sound:
  "match_node e now fs ps pre t = Some (n, ps', segs) \<Longrightarrow> rest_last t \<Longrightarrow>
     \<exists>ss. segs = pre @ ss \<and> mounted e now t ss n \<and>
       (length (filter (\<lambda>s. s \<noteq> Rest) ss) \<le> length fs \<longrightarrow> (\<exists>qs. ps' = ps @ qs \<and> reads ss fs = Some qs))"
  and "match_routes e now fs ps pre rs = Some (n, ps', segs) \<Longrightarrow> list_all rest_last_route rs \<Longrightarrow>
     n_routes t = us @ rs \<Longrightarrow> \<exists>ss. segs = pre @ ss \<and> mounted e now t ss n \<and>
       (length (filter (\<lambda>s. s \<noteq> Rest) ss) \<le> length fs \<longrightarrow> (\<exists>qs. ps' = ps @ qs \<and> reads ss fs = Some qs))"
  and "match_route e now fs ps pre r = Some (n, ps', segs) \<Longrightarrow> rest_last_route r \<Longrightarrow> r \<in> set (n_routes t) \<Longrightarrow>
     \<exists>ss. segs = pre @ ss \<and> mounted e now t ss n \<and>
       (length (filter (\<lambda>s. s \<noteq> Rest) ss) \<le> length fs \<longrightarrow> (\<exists>qs. ps' = ps @ qs \<and> reads ss fs = Some qs))"
proof (induction e now fs ps pre t and e now fs ps pre rs and e now fs ps pre r
    arbitrary: n ps' segs and n ps' segs t us and n ps' segs t
    rule: match_node_match_routes_match_route.induct)
  case (1 e now fs ps pre i im fwd pr ms rs)
  then show ?case by (metis append_Nil match_node.simps node.sel(6) rest_last.simps)
next
  case (3 e now fs ps pre r rs)
  show ?case
  proof (cases "match_route e now fs ps pre r")
    case None
    with 3 show ?thesis by (auto intro: "3.IH"(2) [where us = "us @ [r]"])
  next
    case (Some m)
    with 3 show ?thesis by (intro "3.IH"(1)) auto
  qed
next
  case (4 e now fs ps pre ss n0)
  from 4(2) have alive: "alive e now n0" by (auto split: if_splits)
  with 4(2) obtain qs where q: "match_segments (length ss) ss fs 0 ps = Some qs" by (auto split: option.splits)
  show ?case
  proof (cases "(length ss = length fs \<and> \<not> n_intermediate n0) \<or> wildcard ss")
    case True
    with 4(2) alive q have m: "n = n0" "ps' = qs" "segs = pre @ ss" by auto
    have "mounted e now t ss n0" using 4(4) alive True by (auto intro: mounted.here)
    moreover have "\<exists>r. ps' = ps @ r \<and> reads ss fs = Some r"
      if "length (filter (\<lambda>s. s \<noteq> Rest) ss) \<le> length fs"
    proof (cases "wildcard ss")
      case True
      let ?b = "butlast ss"
      have b: "Rest \<notin> set ?b" using 4(3) by simp
      from wildcard_last [OF True b] have ss: "ss = ?b @ [Rest]" .
      have "filter (\<lambda>s. s \<noteq> Rest) ss = ?b"
        by (subst ss) (use b in \<open>auto simp: filter_id_conv\<close>)
      with that have len: "length ?b \<le> length fs" by simp
      from q obtain r where r: "match_segments (length ss) ?b fs 0 ps = Some r"
        "qs = r @ [(''**'', join ''/'' (map decode (drop (length ?b) fs)))]"
        by (subst (asm) (3) ss) (auto simp: match_segments_append split: bind_splits)
      from match_segments_reads [OF b _ r(1)] len obtain u where
        "r = ps @ u" "reads (?b @ [Rest]) fs = map_option ((@) u) (reads [Rest] (drop (length ?b) fs))"
        by auto
      with r(2) m(2) ss show ?thesis by simp
    next
      case False
      then have "Rest \<notin> set ss" by (simp add: wildcard_def)
      moreover from False True have "length ss = length fs" by blast
      ultimately show ?thesis using match_segments_reads [of ss 0 fs _ ps qs] q m(2)
        by (force dest: spec [of _ "[]"])
    qed
    ultimately show ?thesis using m by auto
  next
    case False
    with 4(2) alive q have d: "match_node e now (drop (length ss) fs) qs (pre @ ss) n0 = Some (n, ps', segs)"
      by auto
    from False have rest: "\<not> wildcard ss" "Rest \<notin> set ss" by (auto simp: wildcard_def)
    have keep: "filter (\<lambda>s. s \<noteq> Rest) ss = ss" using rest(2) by (auto simp: filter_id_conv)
    have last: "rest_last n0" using 4(3) by simp
    from 4(1) [OF _ q _ d last] alive False obtain us where us: "segs = (pre @ ss) @ us" "mounted e now n0 us n"
      "length (filter (\<lambda>s. s \<noteq> Rest) us) \<le> length (drop (length ss) fs) \<longrightarrow>
         (\<exists>r. ps' = qs @ r \<and> reads us (drop (length ss) fs) = Some r)" by blast
    have "mounted e now t (ss @ us) n" using 4(4) alive rest(1) us(2) by (rule mounted.under)
    moreover have "\<exists>r. ps' = ps @ r \<and> reads (ss @ us) fs = Some r"
      if "length (filter (\<lambda>s. s \<noteq> Rest) (ss @ us)) \<le> length fs"
    proof -
      from that keep have len: "length ss \<le> length fs" "length (filter (\<lambda>s. s \<noteq> Rest) us) \<le> length (drop (length ss) fs)"
        by simp_all
      from match_segments_reads [OF rest(2) _ q] len(1) obtain u where
        "qs = ps @ u" "\<forall>ts. reads (ss @ ts) fs = map_option ((@) u) (reads ts (drop (length ss) fs))" by auto
      with us(3) len(2) show ?thesis by auto
    qed
    ultimately show ?thesis using us(1) by auto
  qed
qed simp

text \<open>
  C21. A path is served by what its template says: where one is matched, the route reported is the
  template of a node of the tree that has not expired, and as long as the path is as long as the
  template the parameters are what the template reads of the path; where none is matched, no
  template of a node that has not expired reads it.
\<close>

theorem tree_match_reads:
  assumes "rest_last trunk" "path \<noteq> ''/''"
  shows "case tree_match e now trunk path of
      None \<Rightarrow> \<not> (\<exists>segs n ps. mounted e now trunk segs n \<and> reads segs (fragments path) = Some ps)
    | Some (n, ps, route) \<Rightarrow> \<exists>segs. route = template segs \<and> mounted e now trunk segs n \<and>
        (length (filter (\<lambda>s. s \<noteq> Rest) segs) \<le> length (fragments path) \<longrightarrow> reads segs (fragments path) = Some ps)"
  using match_complete [OF _ assms(1), of e now _ _ "fragments path" _ "[]" "[]"]
    match_sound(1) [OF _ assms(1), of e now "fragments path" "[]" "[]"] assms(2)
  by (fastforce simp: tree_match_def split: option.splits prod.splits)

text \<open>A tree as it is declared: a resource two levels under a collection, answering at its own \<open>/\<close>.\<close>

definition sample_building :: "(unit, string, string) building" where
  "sample_building = \<lparr>b_now = 0, b_ttl = 1800000, b_protected = True, b_inheritable = (\<lambda>_. True),
     b_describes = (\<lambda>_. False), b_make = (\<lambda>_ _ x. Inr x)\<rparr>"

definition sample_root :: "(unit, string) snode" where
  "sample_root = SNode None None None
     [(''/pots/:id/:part'', SNode None None None
        [(''/'', SNode None None None [] [(''GET'', ''observe'')] [])] [] [])] [] []"

definition sample_leaf :: "string node" where
  "sample_leaf = Node 0 False None True [(''GET'', ''observe'')] []"

definition sample_trunk :: "string node" where
  "sample_trunk = Node 2 False None True []
     [Route [Literal ''pots'', Placeholder ''id'', Placeholder ''part''] (Node 1 True None True [] [Route [] sample_leaf])]"

lemma sample_trunk_created:
  "create_node sample_building [] [] (0, []) sample_root = Inr (sample_trunk, 3, [])"
  by (simp add: sample_root_def sample_building_def sample_trunk_def sample_leaf_def built_node_def
      sort_routes_def segment_path_def fragments_def parse_segment_def)

lemma tree_match_reads_witness:
  "tree_match [] 0 sample_trunk ''/pots/a%20b/lid/'' =
     Some (sample_leaf, [(''id'', ''a b''), (''part'', ''lid'')], ''/pots/:id/:part'') \<and>
   tree_match [] 0 sample_trunk ''/jars/'' = None \<and>
   \<not> (\<exists>segs n ps. mounted [] 0 sample_trunk segs n \<and> reads segs [''jars''] = Some ps)"
proof -
  have ok: "rest_last sample_trunk" by (simp add: sample_trunk_def sample_leaf_def)
  have "tree_match [] 0 sample_trunk ''/pots/a%20b/lid/'' =
      Some (sample_leaf, [(''id'', ''a b''), (''part'', ''lid'')], ''/pots/:id/:part'')"
    by code_simp
  moreover have "tree_match [] 0 sample_trunk ''/jars/'' = None" "fragments ''/jars/'' = [''jars'']"
    by code_simp+
  ultimately show ?thesis using tree_match_reads [OF ok, of "''/jars/''" "[]" 0] by simp
qed

text \<open>
  A path that ends before a template does is served by it all the same: a request to the
  collection reaches the resource two levels under it, with the placeholders nothing was given for
  holding the word \<open>undefined\<close>, although no template of the tree reads the path.
\<close>

theorem short_path_matched:
  "tree_match [] 0 sample_trunk ''/pots/'' =
     Some (sample_leaf, [(''id'', ''undefined''), (''part'', ''undefined'')], ''/pots/:id/:part'') \<and>
   \<not> (\<exists>segs n ps. mounted [] 0 sample_trunk segs n \<and> reads segs (fragments ''/pots/'') = Some ps)"
proof -
  have "tree_match [] 0 sample_trunk ''/pots/'' =
     Some (sample_leaf, [(''id'', ''undefined''), (''part'', ''undefined'')], ''/pots/:id/:part'')"
    "fragments ''/pots/'' = [''pots'']"
    by code_simp+
  moreover have "reads segs [''pots''] = None" if "mounted [] 0 sample_trunk segs n" for segs n
    using that by cases (auto simp: sample_trunk_def wildcard_def)
  ultimately show ?thesis by auto
qed

subsection \<open>What a branch changes\<close>

lemma equal_routes_refl [simp]: "equal_routes ss ss"
  by (simp add: equal_routes_def)

lemma equal_routes_sym: "equal_routes ss ts \<Longrightarrow> equal_routes ts ss"
  by (simp add: equal_routes_def)

lemma equal_routes_trans: "equal_routes ss ts \<Longrightarrow> equal_routes ts us \<Longrightarrow> equal_routes ss us"
  by (simp add: equal_routes_def)

lemma merge_route_keeps:
  "r \<in> set rs \<Longrightarrow> \<not> equal_routes ss (r_segments r) \<Longrightarrow> r \<in> set (fst (merge_route rs (Route ss n)))"
proof (induction rs)
  case (Cons q rs)
  then show ?case by (cases q) (auto split: prod.splits)
qed simp

lemma merge_route_segments:
  "map r_segments (fst (merge_route rs (Route ss n))) =
     map r_segments rs @ (if list_ex (\<lambda>r. equal_routes ss (r_segments r)) rs then [] else [ss])"
proof (induction rs)
  case (Cons q rs)
  then show ?case by (cases q) (auto split: prod.splits)
qed simp

lemma merge_routes_Cons: "fst (merge_routes rs (c # cs)) = fst (merge_routes (fst (merge_route rs c)) cs)"
  by (simp split: prod.splits)

lemma merge_routes_keeps:
  "r \<in> set rs \<Longrightarrow> \<forall>c \<in> set cs. \<not> equal_routes (r_segments c) (r_segments r) \<Longrightarrow> r \<in> set (fst (merge_routes rs cs))"
proof (induction cs arbitrary: rs)
  case (Cons c cs)
  then show ?case
    by (cases c) (auto simp only: merge_routes_Cons intro!: Cons.IH merge_route_keeps, simp_all)
qed simp

lemma merge_routes_segments:
  "r_segments ` set rs \<subseteq> r_segments ` set (fst (merge_routes rs cs)) \<and>
   r_segments ` set (fst (merge_routes rs cs)) \<subseteq> r_segments ` set rs \<union> r_segments ` set cs \<and>
   (\<forall>c \<in> set cs. \<exists>r \<in> set (fst (merge_routes rs cs)). equal_routes (r_segments c) (r_segments r))"
proof (induction cs arbitrary: rs)
  case (Cons c cs)
  obtain ss n where c: "c = Route ss n" by (cases c)
  let ?rs = "fst (merge_route rs c)"
  have img: "r_segments ` set ?rs = r_segments ` set rs \<union>
      (if list_ex (\<lambda>r. equal_routes ss (r_segments r)) rs then {} else {ss})"
    using arg_cong [OF merge_route_segments [of rs ss n], of set] by (simp add: c)
  note IH = Cons.IH [of ?rs, folded merge_routes_Cons]
  have "\<exists>r \<in> set ?rs. equal_routes ss (r_segments r)"
  proof (cases "list_ex (\<lambda>r. equal_routes ss (r_segments r)) rs")
    case True
    then obtain r where "r \<in> set rs" "equal_routes ss (r_segments r)" by (auto simp: list_ex_iff)
    moreover from this have "r_segments r \<in> r_segments ` set ?rs" using img by auto
    ultimately show ?thesis by auto
  next
    case False
    then have "ss \<in> r_segments ` set ?rs" using img by simp
    then show ?thesis by (auto intro: equal_routes_refl)
  qed
  then obtain r where "r \<in> set ?rs" and eq: "equal_routes ss (r_segments r)" by blast
  then have "r_segments r \<in> r_segments ` set (fst (merge_routes rs (c # cs)))" using IH by blast
  with eq have "\<exists>r \<in> set (fst (merge_routes rs (c # cs))). equal_routes ss (r_segments r)" by auto
  with IH img show ?case by (auto simp: c split: if_splits)
qed simp

lemma set_sort_routes [simp]: "set (sort_routes rs) = set rs"
  by (simp add: sort_routes_def)

text \<open>
  A branch takes nothing from a node that is protected but what it declares itself: every route
  the branch has no equal of stays with the node it had, every route the branch declares is there,
  and there is no other; the node keeps its address and its protection.
\<close>

theorem merge_protects:
  assumes "n_protected t" "merge_node t b = (t', ids, taken)"
  shows "n_protected t' \<and> n_id t' = n_id t \<and>
    (\<forall>r \<in> set (n_routes t). (\<forall>c \<in> set (n_routes b). \<not> equal_routes (r_segments c) (r_segments r)) \<longrightarrow>
       r \<in> set (n_routes t')) \<and>
    (\<forall>c \<in> set (n_routes b). \<exists>r \<in> set (n_routes t'). equal_routes (r_segments c) (r_segments r)) \<and>
    r_segments ` set (n_routes t') \<subseteq> r_segments ` set (n_routes t) \<union> r_segments ` set (n_routes b)"
proof -
  obtain i im fwd ms rs where t: "t = Node i im fwd True ms rs" using assms(1) by (cases t) auto
  obtain i' im' fwd' pr' ms' cs where b: "b = Node i' im' fwd' pr' ms' cs" by (cases b)
  have "n_protected t'" "n_id t' = i" "set (n_routes t') = set (fst (merge_routes rs cs))"
    using assms(2) by (auto simp: t b split: prod.splits)
  then show ?thesis
    using merge_routes_segments [of rs cs] merge_routes_keeps [of _ rs cs] by (auto simp: t b)
qed

definition sample_branch :: "string node" where
  "sample_branch = Node 3 False None False []
     [Route [Literal ''jars''] (Node 4 False None False [(''GET'', ''list'')] [])]"

lemma merge_protects_witness:
  "r_segments ` set (n_routes (fst (merge_node sample_trunk sample_branch))) =
     {[Literal ''pots'', Placeholder ''id'', Placeholder ''part''], [Literal ''jars'']}"
proof -
  obtain t' ids taken where m: "merge_node sample_trunk sample_branch = (t', ids, taken)"
    by (cases "merge_node sample_trunk sample_branch")
  have "n_protected sample_trunk" by (simp add: sample_trunk_def)
  from merge_protects [OF this m] show ?thesis
    by (auto simp: m sample_trunk_def sample_branch_def equal_routes_def image_iff)
qed

end
