(* ===== verification/Directives.thy ===== *)
theory Directives
  imports Prelude Routing
begin

text \<open>
  \<open>extensions/exposition/source/Directive.ts\<close>: the directives of a method, grouped by the families that
  run them, and the stages of a request they run in. A family is what it registers: the functions of
  its stages, which may change the context of the request (\<open>'c\<close>) and may throw. Spans are left out.
\<close>

section \<open>Families\<close>

record ('v, 'c, 'o, 'i) family =
  fam_name :: string
  fam_mandatory :: bool
  fam_inherited :: "bool option"
  fam_create :: "string \<Rightarrow> val \<Rightarrow> string \<Rightarrow> string + 'v"
  fam_arrange :: "('v list \<Rightarrow> 'v list) option"
  fam_preflight :: "('v list option \<Rightarrow> 'c \<Rightarrow> (string + unit) \<times> 'c) option"
  fam_precall :: "('v list \<Rightarrow> 'c \<Rightarrow> (string + 'o option) \<times> 'c) option"
  fam_admits :: "('v list \<Rightarrow> 'c \<Rightarrow> string + bool) option"
  fam_explain :: "('v list \<Rightarrow> 'i \<Rightarrow> 'i option) option"
  fam_settle :: "('v list \<Rightarrow> 'c \<Rightarrow> 'o \<Rightarrow> (string + unit) \<times> 'c) option"
  fam_depart :: "('c \<Rightarrow> 'o \<Rightarrow> (string + unit) \<times> 'c) option"

type_synonym ('v, 'c, 'o, 'i) sets = "(('v, 'c, 'o, 'i) family \<times> 'v list) list"

section \<open>The directives of a method\<close>

definition declared_of :: "('v, 'c, 'o, 'i) sets \<Rightarrow> string \<Rightarrow> 'v list option" where
  "declared_of sets name = map_option snd (List.find (\<lambda>s. fam_name (fst s) = name) sets)"

definition many_responded :: string where
  "many_responded = ''Multiple precall directives responded''"

fun precall_sets :: "('v, 'c, 'o, 'i) sets \<Rightarrow> 'c \<Rightarrow> 'o option \<Rightarrow> (string + 'o option) \<times> 'c" where
  "precall_sets [] c out = (Inr out, c)"
| "precall_sets ((f, ds) # sets) c out =
     (case fam_precall f of
        None \<Rightarrow> precall_sets sets c out
      | Some stage \<Rightarrow>
          (case stage ds c of
             (Inl e, c') \<Rightarrow> (Inl e, c')
           | (Inr None, c') \<Rightarrow> precall_sets sets c' out
           | (Inr (Some o1), c') \<Rightarrow>
               if out \<noteq> None then (Inl many_responded, c') else precall_sets sets c' (Some o1)))"

definition precall :: "('v, 'c, 'o, 'i) sets \<Rightarrow> 'c \<Rightarrow> (string + 'o option) \<times> 'c" where
  "precall sets c = precall_sets sets c None"

fun admits :: "('v, 'c, 'o, 'i) sets \<Rightarrow> 'c \<Rightarrow> string + bool" where
  "admits [] c = Inr True"
| "admits ((f, ds) # sets) c =
     (case fam_admits f of
        None \<Rightarrow> admits sets c
      | Some stage \<Rightarrow> rbind (stage ds c) (\<lambda>ok. if ok then admits sets c else Inr False))"

fun describe :: "('v, 'c, 'o, 'i) sets \<Rightarrow> 'i \<Rightarrow> 'i option" where
  "describe [] i = Some i"
| "describe ((f, ds) # sets) i =
     (case fam_explain f of
        None \<Rightarrow> describe sets i
      | Some stage \<Rightarrow> (case stage ds i of None \<Rightarrow> None | Some i' \<Rightarrow> describe sets i'))"

fun settle :: "('v, 'c, 'o, 'i) sets \<Rightarrow> 'c \<Rightarrow> 'o \<Rightarrow> (string + unit) \<times> 'c" where
  "settle [] c out = (Inr (), c)"
| "settle ((f, ds) # sets) c out =
     (case fam_settle f of
        None \<Rightarrow> settle sets c out
      | Some stage \<Rightarrow>
          (case stage ds c out of
             (Inl e, c') \<Rightarrow> (Inl e, c')
           | (Inr _, c') \<Rightarrow> settle sets c' out))"

section \<open>The factory\<close>

text \<open>A family registered under a name already taken replaces the one before it.\<close>

definition families_by_name :: "('v, 'c, 'o, 'i) family list \<Rightarrow> (string \<times> ('v, 'c, 'o, 'i) family) list" where
  "families_by_name fs = foldl (\<lambda>m f. AList.update (fam_name f) f m) [] fs"

definition mandatory :: "('v, 'c, 'o, 'i) family list \<Rightarrow> string list" where
  "mandatory fs = map fam_name (filter fam_mandatory fs)"

fun preflight :: "('v, 'c, 'o, 'i) family list \<Rightarrow> ('v, 'c, 'o, 'i) sets option \<Rightarrow> 'c \<Rightarrow> (string + unit) \<times> 'c" where
  "preflight [] sets c = (Inr (), c)"
| "preflight (f # fs) sets c =
     (case fam_preflight f of
        None \<Rightarrow> preflight fs sets c
      | Some stage \<Rightarrow>
          (case stage (Option.bind sets (\<lambda>s. declared_of s (fam_name f))) c of
             (Inl e, c') \<Rightarrow> (Inl e, c')
           | (Inr _, c') \<Rightarrow> preflight fs sets c'))"

fun depart :: "('v, 'c, 'o, 'i) family list \<Rightarrow> 'c \<Rightarrow> 'o \<Rightarrow> (string + unit) \<times> 'c" where
  "depart [] c out = (Inr (), c)"
| "depart (f # fs) c out =
     (case fam_depart f of
        None \<Rightarrow> depart fs c out
      | Some stage \<Rightarrow>
          (case stage c out of
             (Inl e, c') \<Rightarrow> (Inl e, c')
           | (Inr _, c') \<Rightarrow> depart fs c' out))"

definition family_not_found :: "string \<Rightarrow> string" where
  "family_not_found name = ''Directive family '' @ [CHR 0x27] @ name @ [CHR 0x27] @ '' is not found''"

text \<open>The directives by family, each family where it is first declared.\<close>

fun grouped ::
  "(string \<times> ('v, 'c, 'o, 'i) family) list \<Rightarrow> string \<Rightarrow> directive_decl list \<Rightarrow> (string \<times> 'v list) list \<Rightarrow>
     string + (string \<times> 'v list) list" where
  "grouped families route [] groups = Inr groups"
| "grouped families route (d # ds) groups =
     (case map_of families (d_family d) of
        None \<Rightarrow> Inl (family_not_found (d_family d))
      | Some f \<Rightarrow>
          rbind (fam_create f (d_name d) (d_value d) route) (\<lambda>v.
            grouped families route ds (AList.update (fam_name f) (dget [] groups (fam_name f) @ [v]) groups)))"

definition rank_of :: "string list \<Rightarrow> string \<Rightarrow> nat" where
  "rank_of ms name = length (takeWhile (\<lambda>m. m \<noteq> name) ms)"

definition arranged :: "('v, 'c, 'o, 'i) family \<times> 'v list \<Rightarrow> ('v, 'c, 'o, 'i) family \<times> 'v list" where
  "arranged s = (case s of (f, ds) \<Rightarrow> (f, case fam_arrange f of None \<Rightarrow> ds | Some g \<Rightarrow> g ds))"

definition create_directives ::
  "('v, 'c, 'o, 'i) family list \<Rightarrow> directive_decl list \<Rightarrow> string \<Rightarrow> string + ('v, 'c, 'o, 'i) sets" where
  "create_directives fs decls route =
     (let families = families_by_name fs
      in rbind (grouped families route decls []) (\<lambda>groups.
           let left = filter (\<lambda>m. m \<notin> fst ` set groups) (foldl (\<lambda>s m. sadd m s) [] (mandatory fs));
               sets = map (\<lambda>m. (the (map_of families m), [])) left @
                      map (\<lambda>(name, ds). (the (map_of families name), ds)) groups
           in Inr (map arranged (sort_key (\<lambda>s. rank_of (mandatory fs) (fam_name (fst s))) sets))))"

definition inheritable :: "('v, 'c, 'o, 'i) family list \<Rightarrow> directive_decl \<Rightarrow> bool" where
  "inheritable fs d =
     (case map_of (families_by_name fs) (d_family d) of
        None \<Rightarrow> True
      | Some f \<Rightarrow> fam_inherited f \<noteq> Some False)"

section \<open>Properties\<close>

lemma map_of_families:
  assumes "distinct (map fam_name fs)"
  shows "map_of (families_by_name fs) n = Some f \<longleftrightarrow> f \<in> set fs \<and> fam_name f = n"
  using assms unfolding families_by_name_def
  by (induction fs rule: rev_induct) (auto simp: rev_image_eqI)

lemma grouped_spec:
  assumes "grouped families route ds gs = Inr gs'" "\<And>n f. map_of families n = Some f \<Longrightarrow> fam_name f = n"
    "distinct (map fst gs)"
  shows "distinct (map fst gs') \<and> fst ` set gs' = fst ` set gs \<union> d_family ` set ds \<and>
    d_family ` set ds \<subseteq> fst ` set families \<and>
    (\<forall>f. map_of families n = Some f \<longrightarrow> (\<exists>vs. dget [] gs' n = dget [] gs n @ vs \<and>
       list_all2 (\<lambda>d v. fam_create f (d_name d) (d_value d) route = Inr v)
         (filter (\<lambda>d. d_family d = n) ds) vs))"
  using assms
proof (induction ds arbitrary: gs)
  case (Cons d ds)
  from Cons.prems(1) obtain f where f: "map_of families (d_family d) = Some f"
    by (auto split: option.splits)
  then have nf: "fam_name f = d_family d" "d_family d \<in> fst ` set families"
    using Cons.prems(2) map_of_SomeD [OF f] by force+
  from f Cons.prems(1) obtain v where v: "fam_create f (d_name d) (d_value d) route = Inr v"
    "grouped families route ds (AList.update (d_family d) (dget [] gs (d_family d) @ [v]) gs) = Inr gs'"
    by (auto simp: nf rbind_eq_Inr)
  let ?gs = "AList.update (d_family d) (dget [] gs (d_family d) @ [v]) gs"
  have "distinct (map fst ?gs)" using Cons.prems(3) by (simp add: distinct_update)
  note IH = Cons.IH [OF v(2) Cons.prems(2) this]
  have "\<exists>vs. dget [] gs' n = dget [] gs n @ vs \<and>
      list_all2 (\<lambda>d v. fam_create g (d_name d) (d_value d) route = Inr v) (filter (\<lambda>d. d_family d = n) (d # ds)) vs"
    if g: "map_of families n = Some g" for g
  proof -
    from IH g obtain vs where vs: "dget [] gs' n = dget [] ?gs n @ vs"
      "list_all2 (\<lambda>d v. fam_create g (d_name d) (d_value d) route = Inr v) (filter (\<lambda>d. d_family d = n) ds) vs"
      by blast
    show ?thesis
    proof (cases "d_family d = n")
      case True
      with f g have "g = f" by simp
      with vs v(1) True show ?thesis by (intro exI [of _ "v # vs"]) simp
    next
      case False
      with vs show ?thesis by (intro exI [of _ vs]) simp
    qed
  qed
  moreover have "fst ` set ?gs = insert (d_family d) (fst ` set gs)" by (simp add: dom_update [symmetric])
  ultimately show ?case using IH nf(2) by auto
qed simp

lemma sorted_split:
  fixes k :: "'a \<Rightarrow> nat"
  shows "sorted (map k ys) \<Longrightarrow> ys = filter (\<lambda>x. k x < n) ys @ filter (\<lambda>x. \<not> k x < n) ys"
proof (induction ys)
  case (Cons y ys)
  show ?case
  proof (cases "k y < n")
    case False
    with Cons.prems have "\<forall>x \<in> set ys. \<not> k x < n" by auto
    with False have "filter (\<lambda>x. k x < n) (y # ys) = []" "filter (\<lambda>x. \<not> k x < n) (y # ys) = y # ys"
      by (auto simp: filter_empty_conv filter_id_conv)
    then show ?thesis by (simp only: append_Nil)
  qed (use Cons in simp)
qed simp

lemma rank_of_less: "rank_of ms m < length ms \<longleftrightarrow> m \<in> set ms"
  unfolding rank_of_def by (induction ms) auto

lemma nth_rank_of: "m \<in> set ms \<Longrightarrow> ms ! rank_of ms m = m"
  unfolding rank_of_def by (induction ms) auto

lemma sort_prefix:
  assumes "distinct (map name xs)" "distinct ms" "set ms \<subseteq> name ` set xs"
  shows "take (length ms) (map name (sort_key (\<lambda>x. rank_of ms (name x)) xs)) = ms"
proof -
  let ?k = "\<lambda>x. rank_of ms (name x)"
  let ?ys = "sort_key ?k xs"
  let ?low = "filter (\<lambda>x. ?k x < length ms) ?ys"
  have low: "x \<in> set ?low \<longleftrightarrow> x \<in> set xs \<and> name x \<in> set ms" for x by (auto simp: rank_of_less)
  have "distinct (map name ?ys)" using assms(1) by (simp add: distinct_map)
  then have "distinct (map name ?low)" by (simp add: distinct_map_filter)
  moreover have named: "map name ?low = map ((!) ms) (map ?k ?low)"
    by (auto simp: rank_of_less nth_rank_of)
  ultimately have "distinct (map ((!) ms) (map ?k ?low))" by (simp only:)
  then have dist: "distinct (map ?k ?low)" by (rule distinct_map [THEN iffD1, THEN conjunct1])
  have "sorted (map ?k ?low)" using sorted_filter [of ?k ?ys] by simp
  moreover have "set (map ?k ?low) = set [0..<length ms]"
  proof
    show "set [0..<length ms] \<subseteq> set (map ?k ?low)"
    proof
      fix i assume "i \<in> set [0..<length ms]"
      then have i: "i < length ms" by simp
      then have "rank_of ms (ms ! i) = i"
        using nth_rank_of [of "ms ! i" ms] rank_of_less [of ms "ms ! i"] assms(2) nth_eq_iff_index_eq by force
      moreover have "ms ! i \<in> name ` set xs" using subsetD [OF assms(3) nth_mem [OF i]] .
      then obtain x where "x \<in> set xs" "name x = ms ! i" by (rule imageE) simp
      ultimately show "i \<in> set (map ?k ?low)" using i by (auto simp: image_iff)
    qed
  qed (auto simp: rank_of_less)
  ultimately have "map ?k ?low = [0..<length ms]"
    using dist by (intro sorted_distinct_set_unique) simp_all
  with named have low_names: "map name ?low = ms" by (simp only: map_nth)
  have "?ys = ?low @ filter (\<lambda>x. \<not> ?k x < length ms) ?ys" by (rule sorted_split) simp
  then have "map name ?ys = ms @ map name (filter (\<lambda>x. \<not> ?k x < length ms) ?ys)"
    using low_names by (metis map_append)
  then show ?thesis by simp
qed

lemma fold_sadd: "distinct ms \<Longrightarrow> set s \<inter> set ms = {} \<Longrightarrow> foldl (\<lambda>s m. sadd m s) s ms = s @ ms"
  by (induction ms arbitrary: s) (auto simp: sadd_def)

lemma arranged_fst [simp]: "fst (arranged s) = fst s"
  by (simp add: arranged_def split: prod.splits)

text \<open>The sets before they are arranged, and what of the declarations is in each.\<close>

lemma create_directives_spec:
  assumes "distinct (map fam_name fs)" "create_directives fs decls route = Inr sets"
  obtains pre where
    "sets = map arranged (sort_key (\<lambda>s. rank_of (mandatory fs) (fam_name (fst s))) pre)"
    "distinct (map (fam_name \<circ> fst) pre)" "fst ` set pre \<subseteq> set fs"
    "(fam_name \<circ> fst) ` set pre = set (mandatory fs) \<union> d_family ` set decls"
    "\<And>f ds. (f, ds) \<in> set pre \<Longrightarrow>
       list_all2 (\<lambda>d v. fam_create f (d_name d) (d_value d) route = Inr v)
         (filter (\<lambda>d. d_family d = fam_name f) decls) ds"
proof -
  let ?fam = "families_by_name fs"
  note fam = map_of_families [OF assms(1)]
  from assms(2) obtain gs where gs: "grouped ?fam route decls [] = Inr gs"
    by (auto simp: create_directives_def rbind_eq_Inr Let_def)
  let ?left = "filter (\<lambda>m. m \<notin> fst ` set gs) (mandatory fs)"
  let ?pre = "map (\<lambda>m. (the (map_of ?fam m), [])) ?left @ map (\<lambda>(name, ds). (the (map_of ?fam name), ds)) gs"
  have dm: "distinct (mandatory fs)"
    using assms(1) unfolding mandatory_def by (simp add: distinct_map_filter)
  have sets: "sets = map arranged (sort_key (\<lambda>s. rank_of (mandatory fs) (fam_name (fst s))) ?pre)"
    using assms(2) gs by (simp add: create_directives_def Let_def fold_sadd [OF dm])
  note G = grouped_spec [OF gs, simplified, OF fam [THEN iffD1, THEN conjunct2]]
  have known: "m \<in> set (mandatory fs) \<union> fst ` set gs \<Longrightarrow>
      the (map_of ?fam m) \<in> set fs \<and> fam_name (the (map_of ?fam m)) = m" for m
  proof -
    assume "m \<in> set (mandatory fs) \<union> fst ` set gs"
    then have "m \<in> fam_name ` set fs \<or> m \<in> fst ` set ?fam" using G by (auto simp: mandatory_def)
    then obtain f where "map_of ?fam m = Some f"
      using fam by (metis imageE not_None_eq map_of_eq_None_iff)
    moreover from this fam have "f \<in> set fs" "fam_name f = m" by blast+
    ultimately show ?thesis by simp
  qed
  have names: "map (fam_name \<circ> fst) ?pre = ?left @ map fst gs"
    using known by (force simp: comp_def intro!: map_idI)
  have content: "list_all2 (\<lambda>d v. fam_create f (d_name d) (d_value d) route = Inr v)
      (filter (\<lambda>d. d_family d = fam_name f) decls) ds" if s: "(f, ds) \<in> set ?pre" for f ds
  proof -
    have f: "map_of ?fam (fam_name f) = Some f" and ds: "ds = dget [] gs (fam_name f)"
      using s known fam G by (auto simp: dget_def map_of_eq_None_iff split: option.splits)
        (metis (no_types, lifting) UnI2 fst_conv image_eqI map_of_is_SomeI option.inject)+
    from G f obtain vs where "dget [] gs (fam_name f) = vs"
      "list_all2 (\<lambda>d v. fam_create f (d_name d) (d_value d) route = Inr v)
        (filter (\<lambda>d. d_family d = fam_name f) decls) vs"
      by (auto simp: dget_def [of _ "[]"])
    with ds show ?thesis by simp
  qed
  show thesis
  proof (rule that [OF sets _ _ _ content])
    show "distinct (map (fam_name \<circ> fst) ?pre)" unfolding names using dm G by auto
    show "fst ` set ?pre \<subseteq> set fs" using known by force
    show "(fam_name \<circ> fst) ` set ?pre = set (mandatory fs) \<union> d_family ` set decls"
    proof -
      have "(fam_name \<circ> fst) ` set ?pre = set (?left @ map fst gs)"
        unfolding names [symmetric] by (simp only: set_map)
      also have "\<dots> = set (mandatory fs) \<union> fst ` set gs" by auto
      finally show ?thesis using G by simp
    qed
  qed
qed

lemma sets_names:
  assumes "distinct (map fam_name fs)" "create_directives fs decls route = Inr sets"
  shows "take (length (mandatory fs)) (map (fam_name \<circ> fst) sets) = mandatory fs"
    and "distinct (map (fam_name \<circ> fst) sets)"
    and "(fam_name \<circ> fst) ` set sets = set (mandatory fs) \<union> d_family ` set decls"
    and "(f, ds) \<in> set sets \<Longrightarrow> f \<in> set fs \<and> (\<exists>vs. ds = snd (arranged (f, vs)) \<and>
      list_all2 (\<lambda>d v. fam_create f (d_name d) (d_value d) route = Inr v)
        (filter (\<lambda>d. d_family d = fam_name f) decls) vs)"
proof -
  obtain pre where
    pre: "sets = map arranged (sort_key (\<lambda>s. rank_of (mandatory fs) (fam_name (fst s))) pre)"
      "distinct (map (fam_name \<circ> fst) pre)" "fst ` set pre \<subseteq> set fs"
      "(fam_name \<circ> fst) ` set pre = set (mandatory fs) \<union> d_family ` set decls"
    and made: "\<And>f ds. (f, ds) \<in> set pre \<Longrightarrow> list_all2 (\<lambda>d v. fam_create f (d_name d) (d_value d) route = Inr v)
      (filter (\<lambda>d. d_family d = fam_name f) decls) ds"
    by (rule create_directives_spec [OF assms]) (rule that)
  let ?sorted = "sort_key (\<lambda>s. rank_of (mandatory fs) (fam_name (fst s))) pre"
  have names: "map (fam_name \<circ> fst) sets = map (fam_name \<circ> fst) ?sorted" by (simp add: pre(1))
  have dm: "distinct (mandatory fs)"
    using assms(1) unfolding mandatory_def by (simp add: distinct_map_filter)
  show "take (length (mandatory fs)) (map (fam_name \<circ> fst) sets) = mandatory fs"
    unfolding names using sort_prefix [OF pre(2) dm] pre(4) by (simp add: comp_def)
  show "distinct (map (fam_name \<circ> fst) sets)" unfolding names using pre(2) by (simp add: distinct_map)
  show "(fam_name \<circ> fst) ` set sets = set (mandatory fs) \<union> d_family ` set decls"
    using arg_cong [OF names, of set] pre(4) by simp
  show "f \<in> set fs \<and> (\<exists>vs. ds = snd (arranged (f, vs)) \<and>
      list_all2 (\<lambda>d v. fam_create f (d_name d) (d_value d) route = Inr v)
        (filter (\<lambda>d. d_family d = fam_name f) decls) vs)" if "(f, ds) \<in> set sets"
  proof -
    from that obtain vs where "(f, vs) \<in> set pre" "ds = snd (arranged (f, vs))"
      unfolding pre(1) by (auto simp: arranged_def)
    with made pre(3) show ?thesis by force
  qed
qed

text \<open>
  C30. Whatever a manifest declares, and in whatever order, the mandatory families run, first and in
  the order they are registered in: every family runs at most once, those that run are the mandatory
  ones and those declared, and each runs with exactly the directives declared of it, in the order
  they were declared as the family arranges them.
\<close>

theorem mandatory_first:
  assumes "distinct (map fam_name fs)" "create_directives fs decls route = Inr sets"
  shows "take (length (mandatory fs)) (map (fam_name \<circ> fst) sets) = mandatory fs \<and>
    distinct (map (fam_name \<circ> fst) sets) \<and>
    (fam_name \<circ> fst) ` set sets = set (mandatory fs) \<union> d_family ` set decls \<and>
    (\<forall>(f, ds) \<in> set sets. f \<in> set fs \<and> (\<exists>vs. ds = snd (arranged (f, vs)) \<and>
      list_all2 (\<lambda>d v. fam_create f (d_name d) (d_value d) route = Inr v)
        (filter (\<lambda>d. d_family d = fam_name f) decls) vs))"
  using sets_names [OF assms] by auto

text \<open>
  C20. A request the first mandatory family refuses reaches no other: the call is refused with what
  that family raised, and the request is left as it left it.
\<close>

theorem denied_reaches_no_other:
  assumes "distinct (map fam_name fs)" "create_directives fs decls route = Inr sets"
    and "mandatory fs = m # ms" "f \<in> set fs" "fam_name f = m" "fam_precall f = Some stage"
    and "declared_of sets m = Some ds" "stage ds c = (Inl e, c')"
  shows "precall sets c = (Inl e, c')"
proof -
  from sets_names(1) [OF assms(1,2)] assms(3) obtain g vs rest where
    s: "sets = (g, vs) # rest" "fam_name g = m"
    by (cases sets) auto
  then have "g \<in> set fs" using sets_names(4) [OF assms(1,2), of g vs] by simp
  then have "g = f" using assms(1,4,5) s(2) by (auto simp: distinct_map dest: inj_onD)
  moreover have "vs = ds" using assms(7) s by (simp add: declared_of_def)
  ultimately show ?thesis using assms(6,8) s by (simp add: precall_def)
qed

definition sample_family :: "string \<Rightarrow> bool \<Rightarrow> ('c \<Rightarrow> (string + unit option) \<times> 'c) \<Rightarrow> (string, 'c, unit, unit) family" where
  "sample_family name m f = \<lparr>fam_name = name, fam_mandatory = m, fam_inherited = None,
     fam_create = (\<lambda>n v route. Inr n), fam_arrange = None, fam_preflight = None,
     fam_precall = Some (\<lambda>ds. f), fam_admits = None, fam_explain = None, fam_settle = None, fam_depart = None\<rparr>"

definition sample_families :: "(string, nat, unit, unit) family list" where
  "sample_families = [sample_family ''auth'' True (\<lambda>c. (Inl ''Forbidden'', c)),
     sample_family ''io'' True (\<lambda>c. (Inr None, Suc c)), sample_family ''map'' False (\<lambda>c. (Inr None, Suc c))]"

definition sample_decls :: "directive_decl list" where
  "sample_decls = [\<lparr>d_family = ''map'', d_name = ''headers'', d_value = Null\<rparr>,
     \<lparr>d_family = ''io'', d_name = ''input'', d_value = Null\<rparr>]"

definition sample_sets :: "(string, nat, unit, unit) sets" where
  "sample_sets = [(sample_families ! 0, []), (sample_families ! 1, [''input'']), (sample_families ! 2, [''headers''])]"

lemma sample_created: "create_directives sample_families sample_decls [] = Inr sample_sets"
  by (simp add: create_directives_def sample_decls_def families_by_name_def sample_families_def sample_family_def
      mandatory_def sadd_def dget_def rank_of_def arranged_def sample_sets_def)

lemma mandatory_first_witness: "map (fam_name \<circ> fst) sample_sets = [''auth'', ''io'', ''map'']"
proof -
  have "distinct (map fam_name sample_families)" "mandatory sample_families = [''auth'', ''io'']"
    by (simp_all add: sample_families_def sample_family_def mandatory_def)
  with mandatory_first [OF this(1) sample_created] show ?thesis
    by (simp add: sample_sets_def sample_families_def sample_family_def)
qed

lemma denied_reaches_no_other_witness: "precall sample_sets 0 = (Inl ''Forbidden'', 0)"
  by (rule denied_reaches_no_other [where fs = sample_families and decls = sample_decls and route = "[]"
        and m = "''auth''" and ms = "[''io'']" and f = "sample_families ! 0" and ds = "[]"
        and stage = "\<lambda>ds c. (Inl ''Forbidden'', c)"])
    (simp_all add: sample_created, simp_all add: sample_families_def sample_family_def mandatory_def
      declared_of_def sample_sets_def)

end
