(* ===== verification/Querystring.thy ===== *)
theory Querystring
  imports Identity Routing
begin

text \<open>
  \<open>extensions/exposition/source/{Query,Mapping,Endpoint}.ts\<close>, \<open>directives/cache/etag.ts\<close> and
  \<open>libraries/generic/source/quote.js\<close>: how what a request says in its URL, its headers and its body
  becomes the request an operation is called with. The querystring is an object of the language; the
  schema it is held to is a parameter, which answers what is wrong with it or the querystring with
  its values coerced. Numbers of a querystring are integers.
\<close>

section \<open>Declarations\<close>

record range_decl =
  rg_value :: "int option"
  rg_lo :: int
  rg_hi :: int

text \<open>\<open>dq_more\<close>: whether a key that nothing here reads is declared (\<open>id\<close>, \<open>sample\<close>, \<open>selectors\<close>).\<close>

record query_decl =
  dq_criteria :: "string option"
  dq_search :: "bool option"
  dq_sort :: "string option"
  dq_omit :: "range_decl option"
  dq_limit :: "range_decl option"
  dq_projection :: "string list option"
  dq_parameters :: "string list option"
  dq_deleted :: "bool option"
  dq_more :: bool

definition queryable :: "query_decl option \<Rightarrow> bool" where
  "queryable query =
     (case query of
        None \<Rightarrow> False
      | Some q \<Rightarrow>
          \<not> (dq_parameters q \<noteq> None \<and> dq_criteria q = None \<and> dq_search q = None \<and> dq_sort q = None \<and>
             dq_omit q = None \<and> dq_limit q = None \<and> dq_projection q = None \<and> dq_deleted q = None \<and> \<not> dq_more q))"

record query_cfg =
  qc_query :: "query_decl option"
  qc_closed :: bool
  qc_prepend :: string
  qc_queryable :: bool
  qc_searchable :: bool
  qc_paged :: bool
  qc_streamed :: bool

definition OMIT :: range_decl where "OMIT = \<lparr>rg_value = Some 0, rg_lo = 0, rg_hi = 1000\<rparr>"
definition LIMIT_RANGE :: range_decl where "LIMIT_RANGE = \<lparr>rg_value = Some 10, rg_lo = 1, rg_hi = 100\<rparr>"

definition or_default :: "'a \<Rightarrow> 'a option \<Rightarrow> 'a option" where
  "or_default d x = (case x of None \<Rightarrow> Some d | Some y \<Rightarrow> Some y)"

text \<open>
  What a declared criteria says of the others: a last \<open>;\<close> leaves it open to the caller's, a first
  \<open>,\<close> or \<open>;\<close> is what joins the path's to it.
\<close>

definition read_criteria :: "string \<Rightarrow> string \<times> bool \<times> string" where
  "read_criteria c =
     (let open_end = c \<noteq> [] \<and> last c = CHR '';'';
          c = (if open_end then butlast c else c)
      in if c \<noteq> [] \<and> (hd c = CHR '','' \<or> hd c = CHR '';'') then (tl c, \<not> open_end, [hd c])
         else (c, \<not> open_end, '';''))"

definition new_query :: "query_decl option \<Rightarrow> bool \<Rightarrow> bool \<Rightarrow> query_cfg" where
  "new_query query paged streamed =
     (let blank = \<lparr>qc_query = query, qc_closed = False, qc_prepend = '';'', qc_queryable = queryable query,
            qc_searchable = (case query of None \<Rightarrow> False | Some q \<Rightarrow> dq_search q = Some True),
            qc_paged = paged \<and> \<not> streamed, qc_streamed = streamed\<rparr>
      in if \<not> queryable query then blank
         else
           let q = the query;
               q = (if paged \<and> \<not> streamed
                    then q\<lparr>dq_omit := or_default OMIT (dq_omit q), dq_limit := or_default LIMIT_RANGE (dq_limit q)\<rparr>
                    else q)
           in case dq_criteria q of
                None \<Rightarrow> blank\<lparr>qc_query := Some q\<rparr>
              | Some c \<Rightarrow>
                  (case read_criteria c of
                     (c', shut, prepend) \<Rightarrow>
                       blank\<lparr>qc_query := Some (q\<lparr>dq_criteria := Some c'\<rparr>), qc_closed := shut, qc_prepend := prepend\<rparr>))"

section \<open>Fitting a querystring\<close>

datatype http_error = Bad_request string | Failure string

text \<open>What is the declaration's own of the querystring, and what is left of it to select by.\<close>

definition split_query :: "query_cfg \<Rightarrow> props \<Rightarrow> http_error + props option \<times> props option" where
  "split_query cfg q =
     (let declared = (case Option.bind (qc_query cfg) dq_parameters of None \<Rightarrow> [] | Some ps \<Rightarrow> ps);
          taken = filter (\<lambda>(k, v). k \<in> set declared) q;
          left = filter (\<lambda>(k, v). k \<notin> set declared) q;
          parameters = (if taken = [] then None else Some taken)
      in if \<not> qc_queryable cfg
         then (case left of
                 [] \<Rightarrow> Inr (None, parameters)
               | (k, v) # _ \<Rightarrow>
                   Inl (Bad_request (''Query parameter '' @ [CHR 0x27] @ k @ [CHR 0x27] @ '' is not allowed'')))
         else if dget Undef left ''search'' \<noteq> Undef \<and> \<not> qc_searchable cfg
         then Inl (Bad_request ''Query search is not allowed'')
         else Inr (Some left, parameters))"

fun escape_quotes :: "string \<Rightarrow> string" where
  "escape_quotes [] = []"
| "escape_quotes (c # cs) =
     (if c = CHR 0x22 \<or> c = CHR 0x5C then CHR 0x5C # c # escape_quotes cs else c # escape_quotes cs)"

definition quote_value :: "string \<Rightarrow> string" where
  "quote_value v = [CHR 0x22] @ escape_quotes v @ [CHR 0x22]"

fun render_groups :: "(string \<times> string) list \<Rightarrow> string" where
  "render_groups [] = []"
| "render_groups [(c, op)] = ''('' @ c @ '')''"
| "render_groups ((c, op) # g # gs) = ''('' @ c @ '')'' @ op @ render_groups (g # gs)"

definition path_criteria :: "parameters \<Rightarrow> string" where
  "path_criteria ps = join '';'' (map (\<lambda>(name, value). name @ ''=='' @ quote_value value) ps)"

text \<open>\<open>fitCriteria\<close>: the querystring, and the path's parameters less the identity it took.\<close>

definition fit_criteria :: "query_cfg \<Rightarrow> props \<Rightarrow> parameters \<Rightarrow> http_error + props \<times> parameters" where
  "fit_criteria cfg q ps =
     (let q' = (case map_of ps ''id'' of None \<Rightarrow> q | Some i \<Rightarrow> AList.update ''id'' (Str i) q);
          before = takeWhile (\<lambda>(n, v). n \<noteq> ''id'') ps;
          ps' = before @ drop (Suc (length before)) ps;
          declared = Option.bind (qc_query cfg) dq_criteria;
          groups = (if ps' = [] then [] else [(path_criteria ps', qc_prepend cfg)]) @
                   (case declared of None \<Rightarrow> [] | Some c \<Rightarrow> [(c, '';'')])
      in case dget Undef q' ''criteria'' of
           Undef \<Rightarrow>
             Inr (if groups = [] then q' else AList.update ''criteria'' (Str (render_groups groups)) q', ps')
         | v \<Rightarrow>
             if qc_closed cfg then Inl (Bad_request ''Query criteria is closed'')
             else case v of
                    Str c \<Rightarrow>
                      Inr (AList.update ''criteria'' (Str (render_groups (groups @ [(c, '';'')]))) q', ps')
                  | _ \<Rightarrow> Inl (Failure ''criteria''))"

text \<open>\<open>parseInt\<close>, in ten.\<close>

fun leading_digits :: "string \<Rightarrow> string" where
  "leading_digits s = takeWhile is_digit s"

definition parse_int :: "val \<Rightarrow> int option" where
  "parse_int v =
     (case v of
        Num n \<Rightarrow> Some n
      | Str s \<Rightarrow>
          (let t = dropWhile is_space s;
               negative = (t \<noteq> [] \<and> hd t = CHR ''-'');
               u = (if t \<noteq> [] \<and> (hd t = CHR ''-'' \<or> hd t = CHR ''+'') then tl t else t);
               ds = leading_digits u
           in if ds = [] then None else Some (if negative then - int (str_nat ds) else int (str_nat ds)))
      | _ \<Rightarrow> None)"

definition out_of_range :: "string \<Rightarrow> range_decl \<Rightarrow> string" where
  "out_of_range name r = ''Query '' @ name @ '' must be between '' @ int_str (rg_lo r) @ '' and '' @
     int_str (rg_hi r) @ '' inclusive''"

text \<open>\<open>fit\<close>: what does not begin with a number is \<open>NaN\<close>, which is outside of no range.\<close>

definition fit_number :: "val \<Rightarrow> range_decl \<Rightarrow> string \<Rightarrow> http_error + val" where
  "fit_number v r name =
     (case parse_int v of
        None \<Rightarrow> Inr Undef
      | Some n \<Rightarrow> if n < rg_lo r \<or> rg_hi r < n then Inl (Bad_request (out_of_range name r)) else Inr (Num n))"

definition default_number :: "int option \<Rightarrow> val" where
  "default_number v = (case v of None \<Rightarrow> Undef | Some n \<Rightarrow> Num n)"

definition not_allowed :: "string \<Rightarrow> http_error" where
  "not_allowed name = Bad_request (''Query '' @ name @ '' is not allowed'')"

definition refuse_ranges :: "props \<Rightarrow> http_error + props" where
  "refuse_ranges q =
     (if dget Undef q ''omit'' \<noteq> Undef then Inl (not_allowed ''omit'')
      else if dget Undef q ''limit'' \<noteq> Undef then Inl (not_allowed ''limit'')
      else Inr q)"

definition fit_window :: "query_decl \<Rightarrow> props \<Rightarrow> http_error + props" where
  "fit_window d q =
     (if dget Undef q ''omit'' \<noteq> Undef then Inl (not_allowed ''omit'')
      else case dq_limit d of
             None \<Rightarrow> if dget Undef q ''limit'' \<noteq> Undef then Inl (not_allowed ''limit'') else Inr q
           | Some r \<Rightarrow>
               if dget Undef q ''limit'' \<noteq> Undef
               then rbind (fit_number (dget Undef q ''limit'') r ''limit'') (\<lambda>v. Inr (AList.update ''limit'' v q))
               else Inr (AList.update ''limit''
                      (Num (case rg_value r of None \<Rightarrow> rg_lo r | Some n \<Rightarrow> n)) q))"

definition fit_ranges :: "query_decl \<Rightarrow> props \<Rightarrow> http_error + props" where
  "fit_ranges d q =
     (case (dq_limit d, dq_omit d) of
        (None, _) \<Rightarrow> Inl (Failure ''Query limit must be defined'')
      | (_, None) \<Rightarrow> Inl (Failure ''Query limit range must be defined'')
      | (Some l, Some o1) \<Rightarrow>
          rbind (if dget Undef q ''limit'' \<noteq> Undef then fit_number (dget Undef q ''limit'') l ''limit''
                 else Inr (default_number (rg_value l))) (\<lambda>limit.
            let q' = AList.update ''limit'' limit q
            in if dget Undef q' ''omit'' \<noteq> Undef
               then rbind (fit_number (dget Undef q' ''omit'') o1 ''omit'') (\<lambda>omit. Inr (AList.update ''omit'' omit q'))
               else Inr q'))"

definition fit_streamed :: "query_cfg \<Rightarrow> props \<Rightarrow> http_error + props" where
  "fit_streamed cfg q =
     (if dget Undef q ''token'' \<noteq> Undef \<and> \<not> qc_streamed cfg then Inl (not_allowed ''token'')
      else if dget Undef q ''stop'' \<noteq> Undef \<and> \<not> qc_streamed cfg then Inl (not_allowed ''stop'')
      else Inr (if dget Undef q ''stop'' = Undef then q
                else AList.update ''stop'' (Bool (dget Undef q ''stop'' \<noteq> Str ''false'')) q))"

fun text_of :: "val \<Rightarrow> string" where
  "text_of (Str s) = s"
| "text_of v = []"

definition fit_sort :: "query_decl \<Rightarrow> props \<Rightarrow> props" where
  "fit_sort d q =
     (if dget Undef q ''sort'' = Undef \<and> dq_sort d = None then q
      else AList.update ''sort''
             (Arr (map Str (split_on (CHR '';'')
               ((case dq_sort d of None \<Rightarrow> [] | Some s \<Rightarrow> s) @ text_of (dget Undef q ''sort''))))) q)"

definition fit_fixed :: "query_decl \<Rightarrow> props \<Rightarrow> props" where
  "fit_fixed d q =
     (let q' = (case dq_deleted d of None \<Rightarrow> q | Some b \<Rightarrow> AList.update ''deleted'' (Bool b) q)
      in case dq_projection d of None \<Rightarrow> q' | Some p \<Rightarrow> AList.update ''projection'' (Arr (map Str p)) q')"

definition fit_query :: "(props \<Rightarrow> string + props) \<Rightarrow> query_cfg \<Rightarrow> props \<Rightarrow> parameters \<Rightarrow>
    http_error + props option \<times> props option \<times> parameters" where
  "fit_query schema cfg q ps =
     rbind (split_query cfg q) (\<lambda>(selection, parameters).
       case selection of
         None \<Rightarrow> Inr (None, parameters, ps)
       | Some s \<Rightarrow>
           (case schema s of
              Inl m \<Rightarrow> Inl (Bad_request (''Query '' @ m))
            | Inr s1 \<Rightarrow>
                rbind (fit_criteria cfg s1 ps) (\<lambda>(s2, ps').
                  let d = the (qc_query cfg)
                  in rbind (if qc_paged cfg then fit_ranges d s2
                            else if qc_streamed cfg then fit_window d s2
                            else refuse_ranges s2) (\<lambda>s3.
                       rbind (fit_streamed cfg s3) (\<lambda>s4.
                         Inr (Some (fit_fixed d (fit_sort d s4)), parameters, ps'))))))"

section \<open>Mapping\<close>

text \<open>An input that is an object but no plain one is taken as it is, with nothing to embed in.\<close>

fun is_js_object :: "val \<Rightarrow> bool" where
  "is_js_object (Obj _) = True"
| "is_js_object (Arr _) = True"
| "is_js_object (Part _) = True"
| "is_js_object (View _) = True"
| "is_js_object (Stream _ _) = True"
| "is_js_object _ = False"

fun embed :: "props \<Rightarrow> val \<Rightarrow> val" where
  "embed ps (Obj os) = Obj (foldl (\<lambda>m (k, v). AList.update k v m) os ps)"
| "embed ps v = v"

definition assign_parameters :: "props option \<Rightarrow> val \<Rightarrow> http_error + val" where
  "assign_parameters parameters input =
     (case parameters of
        None \<Rightarrow> Inr input
      | Some ps \<Rightarrow>
          if \<not> is_js_object input then Inl (Failure ''Input must be an object to embed query parameters'')
          else Inr (embed ps input))"

definition map_queryable :: "(props \<Rightarrow> string + props) \<Rightarrow> query_cfg \<Rightarrow> val \<Rightarrow> props \<Rightarrow> parameters \<Rightarrow>
    http_error + val \<times> props option" where
  "map_queryable schema cfg input q ps =
     rbind (fit_query schema cfg q ps) (\<lambda>(query, parameters, _).
       rbind (assign_parameters parameters (if input = Undef \<and> parameters \<noteq> None then Obj [] else input))
         (\<lambda>input'. Inr (input', query)))"

definition map_input :: "(props \<Rightarrow> string + props) \<Rightarrow> query_cfg \<Rightarrow> val \<Rightarrow> props \<Rightarrow> parameters \<Rightarrow>
    http_error + val \<times> props option" where
  "map_input schema cfg input q ps =
     rbind (fit_query schema cfg q ps) (\<lambda>(query, parameters, ps').
       let parameterized = Option.bind (qc_query cfg) dq_parameters \<noteq> None;
           input1 = (if input = Undef \<and> (parameterized \<or> ps' \<noteq> [] \<or> parameters \<noteq> None) then Obj [] else input)
       in rbind (if ps' = [] then Inr input1
                 else if \<not> is_js_object input1 then Inl (Failure ''Input must be an object to embed parameters'')
                 else Inr (embed (map (\<lambda>(n, v). (n, Str v)) ps') input1)) (\<lambda>input2.
            rbind (assign_parameters parameters input2) (\<lambda>input3. Inr (input3, None))))"

definition map_request :: "(props \<Rightarrow> string + props) \<Rightarrow> query_decl option \<Rightarrow> bool \<Rightarrow> bool \<Rightarrow> val \<Rightarrow> props \<Rightarrow> parameters \<Rightarrow>
    http_error + val \<times> props option" where
  "map_request schema query paged streamed input q ps =
     (let cfg = new_query query paged streamed
      in if queryable query then map_queryable schema cfg input q ps else map_input schema cfg input q ps)"

section \<open>The endpoint\<close>

definition etag_version :: "string \<Rightarrow> int option" where
  "etag_version sent =
     (let strong = (if take 2 sent = ''W/'' then drop 2 sent else sent)
      in if length strong < 3 \<or> 34 < length strong \<or> hd strong \<noteq> CHR 0x22 \<or> last strong \<noteq> CHR 0x22 then None
         else let digits = butlast (tl strong)
              in if list_all is_digit digits then Some (int (str_nat digits)) else None)"

definition SAFE_VERBS :: "string list" where
  "SAFE_VERBS = [''GET'', ''HEAD'']"

text \<open>What names the call a client's idempotency key stands for.\<close>

definition key_parts :: "string option \<Rightarrow> string \<Rightarrow> string \<Rightarrow> string \<Rightarrow> id_part list" where
  "key_parts who key verb path =
     [IdText (case who of None \<Rightarrow> [] | Some i \<Rightarrow> i), IdText key, IdText verb, IdText path]"

record http_call =
  hc_verb :: string
  hc_path :: string
  hc_principal :: "string option"
  hc_query :: props
  hc_if_match :: "string option"
  hc_key :: "string option"
  hc_instance :: "string option"
  hc_output :: "string list option"
  hc_readonly :: "bool option"

record endpoint_request =
  er_input :: val
  er_query :: "props option"
  er_id :: "string option"
  er_instance :: "string option"
  er_output :: "string list option"
  er_readonly :: bool

definition endpoint_query :: "bool \<Rightarrow> http_call \<Rightarrow> http_error + props" where
  "endpoint_query selects c =
     (case hc_if_match c of
        None \<Rightarrow> Inr (hc_query c)
      | Some etag \<Rightarrow>
          if \<not> selects then Inr (hc_query c)
          else case etag_version etag of
                 None \<Rightarrow> Inl (Bad_request ''Invalid ETag'')
               | Some v \<Rightarrow> Inr (AList.update ''version'' (Num v) (hc_query c)))"

text \<open>\<open>Endpoint.call\<close>, up to the call it makes; \<open>names\<close> is the identity made of the parts.\<close>

definition endpoint_call ::
  "(id_part list \<Rightarrow> string) \<Rightarrow> (props \<Rightarrow> string + props) \<Rightarrow> query_decl option \<Rightarrow> bool \<Rightarrow> bool \<Rightarrow> val \<Rightarrow> http_call \<Rightarrow>
     parameters \<Rightarrow> http_error + endpoint_request" where
  "endpoint_call names schema query paged streamed body c ps =
     rbind (endpoint_query (queryable query) c) (\<lambda>q.
       rbind (map_request schema query paged streamed body q ps) (\<lambda>(input, selection).
         Inr \<lparr>er_input = input, er_query = selection,
              er_id = (case hc_key c of
                         None \<Rightarrow> None
                       | Some key \<Rightarrow>
                           if key = [] then None
                           else Some (names (key_parts (hc_principal c) key (hc_verb c) (hc_path c)))),
              er_instance = hc_instance c, er_output = hc_output c,
              er_readonly = (case hc_readonly c of
                               None \<Rightarrow> hc_verb c \<in> set SAFE_VERBS
                             | Some b \<Rightarrow> b)\<rparr>))"

section \<open>Properties\<close>

subsection \<open>Values of the path\<close>

text \<open>A literal in double quotes, read from behind the quote that opens it: its text, and what is after it.\<close>

fun read_quoted :: "string \<Rightarrow> (string \<times> string) option" where
  "read_quoted [] = None"
| "read_quoted (c # cs) =
     (if c = CHR 0x22 then Some ([], cs)
      else if c = CHR 0x5C then (case cs of [] \<Rightarrow> None | d # ds \<Rightarrow> map_option (\<lambda>(t, r). (d # t, r)) (read_quoted ds))
      else map_option (\<lambda>(t, r). (c # t, r)) (read_quoted cs))"

lemma read_escaped: "read_quoted (escape_quotes v @ CHR 0x22 # rest) = Some (v, rest)"
  by (induction v) auto

text \<open>
  A value of the path is one literal of the criteria whatever it holds: read as a quoted literal
  it is the value as it was given, and what follows it in the criteria is untouched.
\<close>

theorem quoted_value_read:
  "\<exists>body. quote_value v @ rest = CHR 0x22 # body \<and> read_quoted body = Some (v, rest)"
  by (simp add: quote_value_def read_escaped)

subsection \<open>Pages\<close>

lemma new_query_paged:
  assumes "queryable (Some d)"
  obtains c where "qc_query (new_query (Some d) True False) = Some
      (d\<lparr>dq_omit := or_default OMIT (dq_omit d), dq_limit := or_default LIMIT_RANGE (dq_limit d), dq_criteria := c\<rparr>)"
    "qc_queryable (new_query (Some d) True False)" "qc_paged (new_query (Some d) True False)"
    "\<not> qc_streamed (new_query (Some d) True False)"
proof (cases "dq_criteria d")
  case None
  then have "d\<lparr>dq_omit := or_default OMIT (dq_omit d), dq_limit := or_default LIMIT_RANGE (dq_limit d)\<rparr> =
      d\<lparr>dq_omit := or_default OMIT (dq_omit d), dq_limit := or_default LIMIT_RANGE (dq_limit d), dq_criteria := None\<rparr>"
    by (cases d) simp
  with None assms show ?thesis by (intro that [of None]) (simp_all add: new_query_def Let_def)
next
  case (Some c)
  obtain c' shut prepend where "read_criteria c = (c', shut, prepend)" by (cases "read_criteria c")
  with Some assms show ?thesis by (intro that [of "Some c'"]) (simp_all add: new_query_def Let_def)
qed

lemma fit_query_steps:
  assumes "fit_query schema cfg q ps = Inr (Some s, parameters, ps')"
  obtains s0 s1 s2 s3 s4 where "split_query cfg q = Inr (Some s0, parameters)" "schema s0 = Inr s1"
    "fit_criteria cfg s1 ps = Inr (s2, ps')"
    "(if qc_paged cfg then fit_ranges (the (qc_query cfg)) s2
      else if qc_streamed cfg then fit_window (the (qc_query cfg)) s2 else refuse_ranges s2) = Inr s3"
    "fit_streamed cfg s3 = Inr s4" "s = fit_fixed (the (qc_query cfg)) (fit_sort (the (qc_query cfg)) s4)"
proof -
  from assms obtain selection params where sel: "split_query cfg q = Inr (selection, params)"
    by (auto simp: fit_query_def rbind_eq_Inr)
  with assms obtain s0 where s0: "selection = Some s0" by (cases selection) (auto simp: fit_query_def)
  with assms sel obtain s1 where s1: "schema s0 = Inr s1" by (cases "schema s0") (auto simp: fit_query_def)
  from assms show ?thesis
    by (auto simp: fit_query_def sel s0 s1 rbind_eq_Inr Let_def intro!: that [OF _ s1])
qed

lemma fit_number_within:
  "fit_number (Num n) r name = Inr v \<Longrightarrow> \<exists>k. v = Num k \<and> rg_lo r \<le> k \<and> k \<le> rg_hi r"
  by (auto simp: fit_number_def parse_int_def split: if_splits)

lemma fit_fixed_keeps [simp]:
  "k \<noteq> ''deleted'' \<Longrightarrow> k \<noteq> ''projection'' \<Longrightarrow> dget Undef (fit_fixed d q) k = dget Undef q k"
  by (simp add: fit_fixed_def Let_def split: option.splits)

lemma fit_sort_keeps [simp]: "k \<noteq> ''sort'' \<Longrightarrow> dget Undef (fit_sort d q) k = dget Undef q k"
  by (simp add: fit_sort_def)

lemma fit_streamed_keeps: "fit_streamed cfg q = Inr q' \<Longrightarrow> k \<noteq> ''stop'' \<Longrightarrow> dget Undef q' k = dget Undef q k"
  by (auto simp: fit_streamed_def split: if_splits)

lemma fit_criteria_keeps:
  "fit_criteria cfg q ps = Inr (q', ps') \<Longrightarrow> k \<noteq> ''criteria'' \<Longrightarrow> k \<noteq> ''id'' \<Longrightarrow> dget Undef q' k = dget Undef q k"
  by (auto simp: fit_criteria_def Let_def split: option.splits if_splits val.splits)

lemma fit_ranges_within:
  assumes "fit_ranges d q = Inr q'" "dq_limit d = Some l" "dq_omit d = Some o1"
    and "\<And>k. k \<in> {''limit'', ''omit''} \<Longrightarrow> dget Undef q k = Undef \<or> (\<exists>n. dget Undef q k = Num n)"
  shows "(dget Undef q ''limit'' = Undef \<and> dget Undef q' ''limit'' = default_number (rg_value l) \<or>
      (\<exists>n. dget Undef q' ''limit'' = Num n \<and> rg_lo l \<le> n \<and> n \<le> rg_hi l)) \<and>
    (dget Undef q' ''omit'' = Undef \<or> (\<exists>n. dget Undef q' ''omit'' = Num n \<and> rg_lo o1 \<le> n \<and> n \<le> rg_hi o1))"
  using assms(1) assms(4) [of "''limit''"] assms(4) [of "''omit''"]
  by (auto 4 4 simp: fit_ranges_def assms(2,3) rbind_eq_Inr split: if_splits dest!: fit_number_within)

text \<open>
  A page is never larger or further than the route declares: whatever a caller asks for, the
  \<open>limit\<close> an operation is called with is the declared value or within the declared range, and the
  \<open>omit\<close>, where there is one, within its own; the ranges a route does not declare are those of the
  gateway.
\<close>

theorem page_within_range:
  assumes "queryable (Some d)" "fit_query schema (new_query (Some d) True False) q ps = Inr (Some s, parameters, ps')"
    and schema: "\<And>a b k. schema a = Inr b \<Longrightarrow> k \<in> {''limit'', ''omit''} \<Longrightarrow>
      dget Undef b k = Undef \<or> (\<exists>n. dget Undef b k = Num n)"
  shows "let l = (case dq_limit d of None \<Rightarrow> LIMIT_RANGE | Some r \<Rightarrow> r);
             o1 = (case dq_omit d of None \<Rightarrow> OMIT | Some r \<Rightarrow> r)
         in (dget Undef s ''limit'' = default_number (rg_value l) \<or>
              (\<exists>n. dget Undef s ''limit'' = Num n \<and> rg_lo l \<le> n \<and> n \<le> rg_hi l)) \<and>
            (dget Undef s ''omit'' = Undef \<or>
              (\<exists>n. dget Undef s ''omit'' = Num n \<and> rg_lo o1 \<le> n \<and> n \<le> rg_hi o1))"
proof -
  let ?cfg = "new_query (Some d) True False"
  obtain c where cfg: "qc_query ?cfg = Some
      (d\<lparr>dq_omit := or_default OMIT (dq_omit d), dq_limit := or_default LIMIT_RANGE (dq_limit d), dq_criteria := c\<rparr>)"
    "qc_paged ?cfg" using new_query_paged [OF assms(1)] by metis
  let ?d = "the (qc_query ?cfg)"
  obtain s0 s1 s2 s3 s4 where
    s1: "schema s0 = Inr s1" and s2: "fit_criteria ?cfg s1 ps = Inr (s2, ps')" and s3: "fit_ranges ?d s2 = Inr s3"
    and s4: "fit_streamed ?cfg s3 = Inr s4" and s: "s = fit_fixed ?d (fit_sort ?d s4)"
    using fit_query_steps [OF assms(2)] cfg(2) by metis
  have l: "dq_limit ?d = Some (case dq_limit d of None \<Rightarrow> LIMIT_RANGE | Some r \<Rightarrow> r)"
    "dq_omit ?d = Some (case dq_omit d of None \<Rightarrow> OMIT | Some r \<Rightarrow> r)"
    by (simp_all add: cfg(1) or_default_def split: option.splits)
  have "dget Undef s2 k = Undef \<or> (\<exists>n. dget Undef s2 k = Num n)" if "k \<in> {''limit'', ''omit''}" for k
    using schema [OF s1 that] fit_criteria_keeps [OF s2, of k] that by auto
  from fit_ranges_within [OF s3 l this] show ?thesis
    using fit_streamed_keeps [OF s4, of "''limit''"] fit_streamed_keeps [OF s4, of "''omit''"]
    by (auto simp: s Let_def)
qed

definition pots_query :: query_decl where
  "pots_query = \<lparr>dq_criteria = Some ''state==hot;'', dq_search = None, dq_sort = None, dq_omit = None,
     dq_limit = Some \<lparr>rg_value = Some 5, rg_lo = 1, rg_hi = 20\<rparr>, dq_projection = None, dq_parameters = None,
     dq_deleted = None, dq_more = False\<rparr>"

text \<open>A schema that takes nothing but a string for the criteria and numbers for a page.\<close>

fun numeric :: "val \<Rightarrow> bool" where
  "numeric (Num n) = True"
| "numeric Undef = True"
| "numeric v = False"

definition sample_schema :: "props \<Rightarrow> string + props" where
  "sample_schema q =
     (if numeric (dget Undef q ''limit'') \<and> numeric (dget Undef q ''omit'') then Inr q
      else Inl ''limit must be number'')"

lemma numeric_cases: "numeric v \<Longrightarrow> v = Undef \<or> (\<exists>n. v = Num n)"
  by (cases v) simp_all

definition pots_config :: query_cfg where
  "pots_config =
     \<lparr>qc_query = Some \<lparr>dq_criteria = Some ''state==hot'', dq_search = None, dq_sort = None, dq_omit = Some OMIT,
        dq_limit = Some \<lparr>rg_value = Some 5, rg_lo = 1, rg_hi = 20\<rparr>, dq_projection = None, dq_parameters = None,
        dq_deleted = None, dq_more = False\<rparr>, qc_closed = False,
      qc_prepend = '';'', qc_queryable = True, qc_searchable = False, qc_paged = True, qc_streamed = False\<rparr>"

lemma pots_cfg: "new_query (Some pots_query) True False = pots_config"
  by (simp add: pots_config_def new_query_def pots_query_def queryable_def read_criteria_def or_default_def)

lemma page_within_range_witness:
  "\<exists>s. fit_query sample_schema (new_query (Some pots_query) True False) [(''limit'', Num 7)] [] = Inr (Some s, None, []) \<and>
     dget Undef s ''limit'' = Num 7 \<and> 1 \<le> (7::int) \<and> (7::int) \<le> 20"
proof -
  have q: "queryable (Some pots_query)" by (simp add: queryable_def pots_query_def)
  have law: "\<And>a b k. sample_schema a = Inr b \<Longrightarrow> k \<in> {''limit'', ''omit''} \<Longrightarrow>
      dget Undef b k = Undef \<or> (\<exists>n. dget Undef b k = Num n)"
    by (auto simp: sample_schema_def dest!: numeric_cases split: if_splits)
  have "case fit_query sample_schema (new_query (Some pots_query) True False) [(''limit'', Num 7)] [] of
      Inr (Some s, None, ps') \<Rightarrow> ps' = [] \<and> dget Undef s ''limit'' = Num 7 | _ \<Rightarrow> False" by code_simp
  then obtain s where s: "fit_query sample_schema (new_query (Some pots_query) True False) [(''limit'', Num 7)] [] =
      Inr (Some s, None, [])" "dget Undef s ''limit'' = Num 7"
    by (auto split: sum.splits option.splits)
  from page_within_range [OF q s(1) law] s show ?thesis by (simp add: pots_query_def)
qed

subsection \<open>Criteria\<close>



text \<open>
  C39. The parentheses around what a caller sends do not hold it: over a route that declares a
  criteria and leaves room for the caller's, one that closes the parenthesis and opens another is
  sent as a disjunction, and selects what it likes beside what the route declares, as long as the
  grammar reads \<open>,\<close> as the weaker of its two connectives.
\<close>

theorem caller_criteria_escapes:
  assumes "fit_query schema cfg q [] = Inr (Some s, parameters, ps')"
    and "Option.bind (qc_query cfg) dq_criteria = Some c"
    and "schema q = Inr q" "Option.bind (qc_query cfg) dq_parameters = None"
    and "dget Undef q ''criteria'' = Str (x @ ''),('' @ y)"
    and weaker: "selects (''('' @ c @ '');('' @ x @ ''),('' @ y @ '')'') r =
      (selects (''('' @ c @ '');('' @ x @ '')'') r \<or> selects (''('' @ y @ '')'') r)"
    and "selects (''('' @ y @ '')'') r"
  shows "\<exists>sent. dget Undef s ''criteria'' = Str sent \<and> selects sent r"
proof -
  obtain s0 s1 s2 s3 s4 where
    s: "split_query cfg q = Inr (Some s0, parameters)" "schema s0 = Inr s1" "fit_criteria cfg s1 [] = Inr (s2, ps')"
    "(if qc_paged cfg then fit_ranges (the (qc_query cfg)) s2
      else if qc_streamed cfg then fit_window (the (qc_query cfg)) s2 else refuse_ranges s2) = Inr s3"
    "fit_streamed cfg s3 = Inr s4" "s = fit_fixed (the (qc_query cfg)) (fit_sort (the (qc_query cfg)) s4)"
    by (rule fit_query_steps [OF assms(1)])
  have "s0 = q" using s(1) assms(4) by (auto simp: split_query_def Let_def split: if_splits list.splits)
  with s(2) assms(3) have "s1 = q" by simp
  have "dget Undef s3 ''criteria'' = dget Undef s2 ''criteria''"
    using s(4) by (auto simp: fit_ranges_def fit_window_def refuse_ranges_def rbind_eq_Inr Let_def
        split: if_splits option.splits)
  then have "dget Undef s ''criteria'' = dget Undef s2 ''criteria''"
    using fit_streamed_keeps [OF s(5), of "''criteria''"] by (simp add: s(6))
  also have "\<dots> = Str (''('' @ c @ '');('' @ x @ ''),('' @ y @ '')'')"
    using s(3) assms(2,5) unfolding \<open>s1 = q\<close>
    by (auto simp: fit_criteria_def Let_def split: if_splits)
  finally show ?thesis using weaker assms(7) by simp
qed

text \<open>A reading of criteria by their disjuncts, each of which holds of a record that is that text.\<close>

definition by_disjuncts :: "string \<Rightarrow> string \<Rightarrow> bool" where
  "by_disjuncts criteria r \<longleftrightarrow> r \<in> set (split_on (CHR '','') criteria)"

lemma caller_criteria_escapes_witness:
  "\<exists>s sent. fit_query sample_schema (new_query (Some pots_query) True False)
       [(''criteria'', Str ''rank=gt=5),(state==cold'')] [] = Inr (Some s, None, []) \<and>
     dget Undef s ''criteria'' = Str sent \<and> by_disjuncts sent ''(state==cold)''"
proof -
  let ?cfg = "new_query (Some pots_query) True False" and ?q = "[(''criteria'', Str ''rank=gt=5),(state==cold'')]"
  have "case fit_query sample_schema ?cfg ?q [] of Inr (Some s, None, ps') \<Rightarrow> ps' = [] | _ \<Rightarrow> False" by code_simp
  then obtain s where s: "fit_query sample_schema ?cfg ?q [] = Inr (Some s, None, [])"
    by (auto split: sum.splits option.splits)
  have "\<exists>sent. dget Undef s ''criteria'' = Str sent \<and> by_disjuncts sent ''(state==cold)''"
    by (rule caller_criteria_escapes [OF s, where c = "''state==hot''" and x = "''rank=gt=5''" and y = "''state==cold''"])
      (simp_all add: pots_cfg pots_config_def sample_schema_def dget_def by_disjuncts_def)
  with s show ?thesis by blast
qed

subsection \<open>Idempotency keys\<close>

text \<open>
  A client's key names one call of one client: two keys are framed as one name only where the
  principals are the same and so are the key, the method and the path.
\<close>

theorem idempotency_key_scoped:
  "name_of (key_parts p key verb path) = name_of (key_parts p' key' verb' path') \<longleftrightarrow>
     (case p of None \<Rightarrow> [] | Some i \<Rightarrow> i) = (case p' of None \<Rightarrow> [] | Some i \<Rightarrow> i) \<and>
     key = key' \<and> verb = verb' \<and> path = path'"
proof
  assume "name_of (key_parts p key verb path) = name_of (key_parts p' key' verb' path')"
  then have "map part_string (key_parts p key verb path) = map part_string (key_parts p' key' verb' path')"
    unfolding name_of_frames by (rule frames_inject)
  then show "(case p of None \<Rightarrow> [] | Some i \<Rightarrow> i) = (case p' of None \<Rightarrow> [] | Some i \<Rightarrow> i) \<and>
      key = key' \<and> verb = verb' \<and> path = path'"
    by (simp add: key_parts_def)
qed (simp add: key_parts_def)

end
