(* ===== verification/Gateway.thy ===== *)
theory Gateway
  imports Routing
begin

text \<open>
  \<open>extensions/exposition/source/{Gateway,Branch}.ts\<close>: the branches a gateway exposes as components
  announce them, and which route and method a request is served by. Directives and endpoints are run
  by what they are given to: here is what is chosen to be run. Logging, diagnostics and the page for
  browsers are left out.
\<close>

section \<open>Branches\<close>

record exposed =
  x_version :: string
  x_routes :: string
  x_timestamp :: int
  x_nodes :: "nat list"

record ('d, 'x) branch =
  br_namespace :: string
  br_component :: string
  br_version :: string
  br_routes :: string
  br_timestamp :: int
  br_node :: "('d, 'x) snode"

datatype decision = refresh_branch | superseded | merge_branch

definition expired :: "expirations \<Rightarrow> int \<Rightarrow> exposed \<Rightarrow> bool" where
  "expired e now x \<longleftrightarrow>
     x_nodes x \<noteq> [] \<and> list_all (\<lambda>i. num_le (expires e i) (Fin (of_int now))) (x_nodes x)"

definition decide :: "expirations \<Rightarrow> int \<Rightarrow> exposed \<Rightarrow> ('d, 'x) branch \<Rightarrow> decision" where
  "decide e now x b =
     (if x_version x = br_version b \<and> x_routes x = br_routes b then refresh_branch
      else if br_timestamp b < x_timestamp x \<and> \<not> expired e now x then superseded
      else merge_branch)"

section \<open>The gateway\<close>

record 'm gateway =
  g_trunk :: "'m node"
  g_next :: nat
  g_expirations :: expirations
  g_branches :: "(string \<times> exposed) list"
  g_lastMerge :: int
  g_widestGap :: int

text \<open>
  \<open>Tree.merge\<close>: a branch is built under the directives of the root, with nothing of it protected
  unless it says so, and merged into the trunk.
\<close>

definition tree_merge ::
  "('d, 'x, 'm) building \<Rightarrow> 'd list \<Rightarrow> string \<Rightarrow> ('d, 'x) snode \<Rightarrow> 'm gateway \<Rightarrow> string + nat list \<times> 'm gateway" where
  "tree_merge b root_directives label n g =
     rbind (create_node (b\<lparr>b_protected := False\<rparr>) root_directives label (g_next g, g_expirations g) n)
       (\<lambda>(created, next, e).
          case merge_node (g_trunk g) created of
            (trunk, ids, taken) \<Rightarrow>
              Inr (ids, g\<lparr>g_trunk := trunk, g_next := next, g_expirations := take_over taken e\<rparr>))"

definition branch_id :: "('d, 'x) branch \<Rightarrow> string" where
  "branch_id b = br_namespace b @ ''.'' @ br_component b"

definition merged :: "('d, 'x, 'm) building \<Rightarrow> 'd list \<Rightarrow> ('d, 'x) branch \<Rightarrow> 'm gateway \<Rightarrow> 'm gateway" where
  "merged b root_directives br g =
     (case tree_merge b root_directives (branch_id br) (br_node br) g of
        Inl _ \<Rightarrow> g
      | Inr (ids, g') \<Rightarrow>
          g'\<lparr>g_branches := AList.update (branch_id br)
               \<lparr>x_version = br_version br, x_routes = br_routes br, x_timestamp = br_timestamp br, x_nodes = ids\<rparr>
               (g_branches g),
             g_widestGap := (if g_lastMerge g = 0 then g_widestGap g
                             else max (g_widestGap g) (b_now b - g_lastMerge g)),
             g_lastMerge := b_now b\<rparr>)"

definition expose :: "('d, 'x, 'm) building \<Rightarrow> 'd list \<Rightarrow> ('d, 'x) branch \<Rightarrow> 'm gateway \<Rightarrow> 'm gateway" where
  "expose b root_directives br g =
     (case map_of (g_branches g) (branch_id br) of
        None \<Rightarrow> merged b root_directives br g
      | Some x \<Rightarrow>
          (case decide (g_expirations g) (b_now b) x br of
             refresh_branch \<Rightarrow>
               g\<lparr>g_expirations := tree_refresh (b_now b) (b_ttl b) (x_nodes x) (g_expirations g)\<rparr>
           | superseded \<Rightarrow> g
           | merge_branch \<Rightarrow> merged b root_directives br g))"

definition SETTLE_QUIET_MIN :: int where "SETTLE_QUIET_MIN = 500"
definition SETTLE_QUIET_MAX :: int where "SETTLE_QUIET_MAX = 10000"
definition SETTLE_QUIET_FACTOR :: int where "SETTLE_QUIET_FACTOR = 2"

definition quiet_window :: "'m gateway \<Rightarrow> int" where
  "quiet_window g = min (max (g_widestGap g * SETTLE_QUIET_FACTOR) SETTLE_QUIET_MIN) SETTLE_QUIET_MAX"

section \<open>Requests\<close>

text \<open>\<open>forward.replace\<close>: each segment that names a parameter is the parameter's value.\<close>

definition forwarded_segment :: "parameters \<Rightarrow> string \<Rightarrow> string + string" where
  "forwarded_segment ps s =
     (if s \<noteq> [] \<and> hd s = CHR '':'' \<and> tl s \<noteq> []
      then (case map_of ps (tl s) of
              None \<Rightarrow> Inl (''Forwarded parameter '' @ [CHR 0x27] @ tl s @ [CHR 0x27] @ '' not found'')
            | Some v \<Rightarrow> Inr v)
      else Inr s)"

fun forwarded_all :: "parameters \<Rightarrow> string list \<Rightarrow> string + string list" where
  "forwarded_all ps [] = Inr []"
| "forwarded_all ps (s # ss) =
     rbind (forwarded_segment ps s) (\<lambda>t. rbind (forwarded_all ps ss) (\<lambda>ts. Inr (t # ts)))"

definition destination :: "parameters \<Rightarrow> string \<Rightarrow> string + string" where
  "destination ps forward =
     (let parts = split_on (CHR ''/'') forward
      in rbind (forwarded_all ps (tl parts)) (\<lambda>ts. Inr (join ''/'' (hd parts # ts))))"

definition gateway_find :: "int \<Rightarrow> 'm gateway \<Rightarrow> string \<Rightarrow> string + ('m node \<times> parameters \<times> string) option" where
  "gateway_find now g path =
     (case tree_match (g_expirations g) now (g_trunk g) path of
        None \<Rightarrow> Inr None
      | Some (n, ps, route) \<Rightarrow>
          (case n_forward n of
             None \<Rightarrow> Inr (Some (n, ps, route))
           | Some forward \<Rightarrow>
               rbind (destination ps forward) (\<lambda>target.
                 case tree_match (g_expirations g) now (g_trunk g) target of
                   None \<Rightarrow> Inl ''Forwarded route not found''
                 | Some m \<Rightarrow> Inr (Some m))))"

definition method_of :: "'m node \<Rightarrow> string \<Rightarrow> 'm option" where
  "method_of n verb =
     (case map_of (n_methods n) verb of
        Some m \<Rightarrow> Some m
      | None \<Rightarrow> if verb = ''HEAD'' then map_of (n_methods n) ''GET'' else None)"

datatype 'm routed = Route_not_found | Method_not_allowed | Explains "'m node" parameters | Runs_method 'm parameters

definition gateway_route :: "int \<Rightarrow> 'm gateway \<Rightarrow> string \<Rightarrow> string \<Rightarrow> string + 'm routed" where
  "gateway_route now g verb path =
     rbind (gateway_find now g path) (\<lambda>found.
       case found of
         None \<Rightarrow> Inr Route_not_found
       | Some (n, ps, route) \<Rightarrow>
           if verb = ''OPTIONS'' then Inr (Explains n ps)
           else (case method_of n verb of
                   None \<Rightarrow> Inr Method_not_allowed
                 | Some m \<Rightarrow> Inr (Runs_method m ps)))"

text \<open>\<open>call\<close>: what refuses a method that was chosen, before its endpoint is called.\<close>

datatype refused_call = Trailing_slash | Not_acceptable | No_endpoint

definition refuse_call :: "string \<Rightarrow> bool \<Rightarrow> bool \<Rightarrow> refused_call option" where
  "refuse_call path accepts has_endpoint =
     (if path = [] \<or> last path \<noteq> CHR ''/'' then Some Trailing_slash
      else if \<not> accepts then Some Not_acceptable
      else if \<not> has_endpoint then Some No_endpoint
      else None)"

section \<open>Properties\<close>

lemma expires_touch: "expires (touch x ids e) i = (if i \<in> set ids \<and> i \<in> fst ` set e then x else expires e i)"
  by (induction e) (auto simp: touch_def expires_def dget_def)

lemma num_lt_not_le: "num_lt x y \<Longrightarrow> \<not> num_le y x"
  by (cases x; cases y) auto

lemma expose_same:
  assumes "map_of (g_branches g) (branch_id br) = Some x" "x_version x = br_version br" "x_routes x = br_routes br"
  shows "expose b ds br g = g\<lparr>g_expirations := tree_refresh (b_now b) (b_ttl b) (x_nodes x) (g_expirations g)\<rparr>"
  using assms by (simp add: expose_def decide_def)

lemma expose_older:
  assumes "map_of (g_branches g) (branch_id br) = Some x" "\<not> (x_version x = br_version br \<and> x_routes x = br_routes br)"
    and "br_timestamp br < x_timestamp x" "\<not> expired (g_expirations g) (b_now b) x"
  shows "expose b ds br g = g"
  using assms by (auto simp: expose_def decide_def)

lemma expose_unbuilt:
  assumes "tree_merge b ds (branch_id br) (br_node br) g = Inl m"
  shows "g_trunk (expose b ds br g) = g_trunk g \<and> g_branches (expose b ds br g) = g_branches g"
  using assms by (auto simp: expose_def merged_def split: option.splits decision.splits)

text \<open>
  C33. An announcement changes what is served only by a merge: one of the version and the routes
  exposed already touches no route and no method and keeps its nodes served for another term; one
  of a tenant that started before the one exposed, while a node of that one is served, changes
  nothing; and where a branch cannot be built, the tree and what is exposed are left as they were.
\<close>

theorem expose_keeps:
  assumes "map_of (g_branches g) (branch_id br) = Some x"
  shows "(x_version x = br_version br \<and> x_routes x = br_routes br \<longrightarrow>
      expose b ds br g = g\<lparr>g_expirations := g_expirations (expose b ds br g)\<rparr> \<and>
      (\<forall>i. expires (g_expirations (expose b ds br g)) i =
        (if i \<in> set (x_nodes x) \<and> i \<in> fst ` set (g_expirations g) then Fin (of_int (b_now b) + b_ttl b)
         else expires (g_expirations g) i))) \<and>
    (\<not> (x_version x = br_version br \<and> x_routes x = br_routes br) \<and> br_timestamp br < x_timestamp x \<and>
      (\<exists>i \<in> set (x_nodes x). num_lt (Fin (of_int (b_now b))) (expires (g_expirations g) i)) \<longrightarrow>
      expose b ds br g = g) \<and>
    (\<forall>m. tree_merge b ds (branch_id br) (br_node br) g = Inl m \<longrightarrow>
      g_trunk (expose b ds br g) = g_trunk g \<and> g_branches (expose b ds br g) = g_branches g)"
proof (intro conjI impI allI)
  assume "x_version x = br_version br \<and> x_routes x = br_routes br"
  then have same: "expose b ds br g = g\<lparr>g_expirations := tree_refresh (b_now b) (b_ttl b) (x_nodes x) (g_expirations g)\<rparr>"
    using expose_same [OF assms] by blast
  then show "expose b ds br g = g\<lparr>g_expirations := g_expirations (expose b ds br g)\<rparr>" by simp
  show "expires (g_expirations (expose b ds br g)) i =
      (if i \<in> set (x_nodes x) \<and> i \<in> fst ` set (g_expirations g) then Fin (of_int (b_now b) + b_ttl b)
       else expires (g_expirations g) i)" for i
    by (simp add: same tree_refresh_def expires_touch)
next
  assume a: "\<not> (x_version x = br_version br \<and> x_routes x = br_routes br) \<and> br_timestamp br < x_timestamp x \<and>
    (\<exists>i \<in> set (x_nodes x). num_lt (Fin (of_int (b_now b))) (expires (g_expirations g) i))"
  then have "\<not> expired (g_expirations g) (b_now b) x"
    by (auto simp: expired_def list_all_iff dest: num_lt_not_le)
  with a show "expose b ds br g = g" by (intro expose_older [OF assms]) blast+
qed (simp_all add: expose_unbuilt)

definition sample_gateway :: "string gateway" where
  "sample_gateway = \<lparr>g_trunk = sample_trunk, g_next = 9, g_expirations = [(7, Fin 100)],
     g_branches = [(''a.b'', \<lparr>x_version = ''1'', x_routes = ''r'', x_timestamp = 50, x_nodes = [7]\<rparr>)],
     g_lastMerge = 0, g_widestGap = 0\<rparr>"

definition sample_announcement :: "int \<Rightarrow> string \<Rightarrow> (unit, string) branch" where
  "sample_announcement started version = \<lparr>br_namespace = ''a'', br_component = ''b'', br_version = version,
     br_routes = ''r'', br_timestamp = started, br_node = sample_root\<rparr>"

lemma expose_keeps_witness:
  "expose sample_building [] (sample_announcement 40 ''0'') sample_gateway = sample_gateway \<and>
   expires (g_expirations (expose sample_building [] (sample_announcement 60 ''1'') sample_gateway)) 7 = Fin 1800000"
proof -
  let ?x = "\<lparr>x_version = ''1'', x_routes = ''r'', x_timestamp = 50, x_nodes = [7]\<rparr>"
  have "map_of (g_branches sample_gateway) (branch_id (sample_announcement started v)) = Some ?x" for started v
    by (simp add: sample_gateway_def sample_announcement_def branch_id_def)
  note k = expose_keeps [OF this, where b = sample_building and ds = "[]"]
  show ?thesis
    using k [of 40 "''0''"] k [of 60 "''1''"]
    by (simp add: sample_announcement_def sample_gateway_def sample_building_def expires_def dget_def)
qed

text \<open>A value of the path is decoded before it is put in the path it is forwarded to.\<close>

lemma forwarded_value_splits:
  "destination [(''id'', decode ''x%2Fy'')] ''/b/:id/'' = Inr ''/b/x/y/''"
  by code_simp

end
