(* ===== verification/Atomicity.thy ===== *)
theory Atomicity
  imports Prelude
begin

text \<open>
  What the replicas of a group decide together: \<open>connectors/atomicity/src/{atom,meter,connection,
  factory}.js\<close>.

  An atom holds the pair \<open>i\<close>, \<open>n\<close> its replica was given, \<open>n\<close> replicas counted and this one the
  \<open>i\<close>-th, and says which slots that makes its own. A meter holds, for each key, the milliseconds of
  debt the group has run up; it is a script that Redis runs as one step, by Redis' clock. The loop
  that agrees on the pair and the lock are libraries; the pair enters as what the loop yields.
\<close>

section \<open>Atoms\<close>

text \<open>
  \<open>at_assignment\<close> is \<open>null\<close> until the loop yields a pair; \<open>at_discovering\<close> holds while the loop runs.
  Listeners are known by number.
\<close>

record atom =
  at_name :: string
  at_prefix :: "string option"
  at_assignment :: "(nat \<times> nat) option"
  at_listeners :: "nat list"
  at_discovering :: bool

definition new_atom :: "string \<Rightarrow> atom" where
  "new_atom name = \<lparr>at_name = name, at_prefix = None, at_assignment = None, at_listeners = [], at_discovering = False\<rparr>"

text \<open>
  The loop of \<open>slots\<close>, from one slot on: \<open>None\<close> where it does not end, which is where it advances by
  nothing.
\<close>

partial_function (option) owned_from :: "nat \<Rightarrow> nat \<Rightarrow> nat \<Rightarrow> nat list \<Rightarrow> nat list option" where
  "owned_from count n slot owned =
     (if slot < count then owned_from count n (slot + n) (owned @ [slot]) else Some owned)"

definition slots :: "nat \<Rightarrow> atom \<Rightarrow> nat list option option" where
  "slots count a =
     (case at_assignment a of
        None \<Rightarrow> Some None
      | Some (i, n) \<Rightarrow> map_option Some (owned_from count n i []))"

text \<open>A listener is told the claim as it stands when it is added; what is answered removes it.\<close>

definition onassigned :: "nat \<Rightarrow> atom \<Rightarrow> (nat \<times> nat) option \<times> atom" where
  "onassigned l a = (at_assignment a, a\<lparr>at_listeners := sadd l (at_listeners a)\<rparr>)"

definition offassigned :: "nat \<Rightarrow> atom \<Rightarrow> atom" where
  "offassigned l a = a\<lparr>at_listeners := sdel l (at_listeners a)\<rparr>"

definition atom_open :: "string option \<Rightarrow> atom \<Rightarrow> atom" where
  "atom_open scope a =
     (case scope of
        None \<Rightarrow> a
      | Some s \<Rightarrow> a\<lparr>at_prefix := Some (s @ '':atom:'' @ at_name a @ '':''), at_discovering := True\<rparr>)"

text \<open>
  One turn of the loop: the pair is kept, then every listener is told, in the order they were added.
  One that raises ends the loop, and with it the claim. \<open>raises\<close> says which do; what is returned with
  the atom are the listeners that were told.
\<close>

definition told :: "(nat \<Rightarrow> bool) \<Rightarrow> nat list \<Rightarrow> nat list" where
  "told raises ls = takeWhile (\<lambda>l. \<not> raises l) ls @ take 1 (dropWhile (\<lambda>l. \<not> raises l) ls)"

definition discovered :: "(nat \<Rightarrow> bool) \<Rightarrow> nat option \<Rightarrow> nat \<Rightarrow> atom \<Rightarrow> nat list \<times> atom" where
  "discovered raises i n a =
     (if \<not> at_discovering a then ([], a)
      else
        (told raises (at_listeners a),
         if list_ex raises (at_listeners a) then a\<lparr>at_assignment := None, at_discovering := False\<rparr>
         else a\<lparr>at_assignment := map_option (\<lambda>i. (i, n)) i\<rparr>))"

definition atom_close :: "atom \<Rightarrow> atom" where
  "atom_close a = a\<lparr>at_assignment := None, at_discovering := False\<rparr>"

text \<open>Keys name whose they are and what they are for.\<close>

definition METER :: string where "METER = ''meter''"
definition LOCK :: string where "LOCK = ''lock''"

definition atom_keys :: "atom \<Rightarrow> string \<Rightarrow> string list \<Rightarrow> string list" where
  "atom_keys a kind ks =
     map (\<lambda>k. (case at_prefix a of None \<Rightarrow> ''undefined'' | Some p \<Rightarrow> p) @ kind @ '':'' @ k) ks"

section \<open>The meter\<close>

definition GRACE :: int where "GRACE = 10000"
definition CHUNK :: nat where "CHUNK = 2000"

text \<open>
  What Redis holds under a key: the debt, when it was written, and when the key expires. A key that
  has expired is not there.
\<close>

record metered =
  m_debt :: int
  m_at :: int
  m_expires :: int

type_synonym redis = "string \<rightharpoonup> metered"

definition hmget :: "int \<Rightarrow> redis \<Rightarrow> string \<Rightarrow> metered option" where
  "hmget now r k = (case r k of None \<Rightarrow> None | Some m \<Rightarrow> if m_expires m \<le> now then None else Some m)"

definition drained :: "int \<Rightarrow> metered option \<Rightarrow> int" where
  "drained now m = (case m of None \<Rightarrow> max 0 0 | Some m \<Rightarrow> max 0 (m_debt m - (now - m_at m)))"

fun script :: "int \<Rightarrow> redis \<Rightarrow> string list \<Rightarrow> int list \<Rightarrow> int list \<times> redis" where
  "script now r (k # ks) (x # xs) =
     (let debt = drained now (hmget now r k) + x;
          (debts, r') = script now (r(k \<mapsto> \<lparr>m_debt = debt, m_at = now, m_expires = now + debt + GRACE\<rparr>)) ks xs
      in (debt # debts, r'))"
| "script now r _ _ = ([], r)"

text \<open>
  \<open>meter\<close>: a batch too long for one call is cut into several, each at the time of Redis when it runs
  and with whatever others did between; \<open>clock\<close> and \<open>others\<close> give both, by the number of the call.
\<close>

function meter_chunks :: "(nat \<Rightarrow> int) \<Rightarrow> (nat \<Rightarrow> redis \<Rightarrow> redis) \<Rightarrow> nat \<Rightarrow> redis \<Rightarrow> string list \<Rightarrow> int list \<Rightarrow>
      int list \<times> redis" where
  "meter_chunks clock others c r ks xs =
     (if ks = [] then ([], r)
      else
        (let (debts, r') = script (clock c) (others c r) (take CHUNK ks) (take CHUNK xs);
             (debts', r'') = meter_chunks clock others (Suc c) r' (drop CHUNK ks) (drop CHUNK xs)
         in (debts @ debts', r'')))"
  by pat_completeness auto
termination
  by (relation "measure (\<lambda>(_, _, _, _, ks, _). length ks)") (auto simp: CHUNK_def)

declare meter_chunks.simps [simp del]

definition meter :: "(nat \<Rightarrow> int) \<Rightarrow> (nat \<Rightarrow> redis \<Rightarrow> redis) \<Rightarrow> redis \<Rightarrow> string list \<Rightarrow> int list \<Rightarrow> int list \<times> redis" where
  "meter clock others r ks xs =
     (if length ks \<le> CHUNK then script (clock 0) (others 0 r) ks xs else meter_chunks clock others 0 r ks xs)"

definition no_metering :: string where
  "no_metering = ''Metering requires atomicity. Set TOA_ATOMICITY_REDIS.''"

definition atom_meter ::
  "bool \<Rightarrow> (nat \<Rightarrow> int) \<Rightarrow> (nat \<Rightarrow> redis \<Rightarrow> redis) \<Rightarrow> atom \<Rightarrow> redis \<Rightarrow> string list \<Rightarrow> int list \<Rightarrow> string + int list \<times> redis" where
  "atom_meter configured clock others a r ks xs =
     (if \<not> configured then Inl no_metering else Inr (meter clock others r (atom_keys a METER ks) xs))"

section \<open>Connections and atoms of a process\<close>

text \<open>The addresses a process is given, and how many of them are refused.\<close>

definition resolve :: "string option \<Rightarrow> string option \<Rightarrow> string list" where
  "resolve variable dev =
     (case variable of
        None \<Rightarrow> if dev = Some ''1'' then [''redis://localhost:31040''] else []
      | Some value \<Rightarrow> filter (\<lambda>url. url \<noteq> []) (split_on (CHR '' '') value))"

definition connection_open :: "string option \<Rightarrow> string option \<Rightarrow> string + string list" where
  "connection_open variable dev =
     (let urls = resolve variable dev
      in if urls \<noteq> [] \<and> even (length urls)
         then Inl (''Atomicity takes an odd number of addresses, '' @ nat_str (length urls) @ '' given.'')
         else Inr urls)"

definition atom_of :: "string \<Rightarrow> (string \<times> atom) list \<Rightarrow> atom \<times> (string \<times> atom) list" where
  "atom_of name atoms =
     (case map_of atoms name of
        Some a \<Rightarrow> (a, atoms)
      | None \<Rightarrow> (new_atom name, AList.update name (new_atom name) atoms))"

section \<open>What a replica owns\<close>

lemma mod_step: "slot < s \<Longrightarrow> s mod n = slot mod n \<Longrightarrow> slot + n \<le> (s :: nat)"
  by (metis add.commute add_le_imp_le_diff add_less_cancel_right dvd_imp_le less_imp_le_nat less_diff_conv
      le_diff_conv2 mod_eq_dvd_iff_nat zero_less_diff)

lemma owned_from_returns:
  assumes "0 < n"
  shows "owned_from count n slot acc = Some (acc @ filter (\<lambda>s. slot \<le> s \<and> s mod n = slot mod n) [0..<count])"
proof (induction "count - slot" arbitrary: slot acc rule: less_induct)
  case less
  show ?case
  proof (cases "slot < count")
    case True
    have "filter (\<lambda>s. slot \<le> s \<and> s mod n = slot mod n) [0..<count] =
      slot # filter (\<lambda>s. slot + n \<le> s \<and> s mod n = slot mod n) [0..<count]"
    proof -
      have split: "[0..<count] = [0..<slot] @ slot # [Suc slot..<count]"
        using upt_add_eq_append [of 0 slot "count - slot"] True by (simp add: upt_conv_Cons)
      show ?thesis
        unfolding split filter_append using assms by (auto intro!: filter_cong intro: mod_step)
    qed
    then show ?thesis
      using True assms less[of "slot + n" "acc @ [slot]"] by (subst owned_from.simps) simp
  next
    case False
    then show ?thesis by (subst owned_from.simps) (auto simp: filter_empty_conv)
  qed
qed

lemma slots_assigned:
  assumes "at_assignment a = Some (i, n)" "i < n"
  shows "slots count a = Some (Some (filter (\<lambda>s. s mod n = i) [0..<count]))"
proof -
  have "i \<le> s \<and> s mod n = i mod n \<longleftrightarrow> s mod n = i" for s
    using assms(2) by (auto intro: mod_less_eq_dividend)
  then show ?thesis
    using assms by (simp add: slots_def owned_from_returns)
qed

text \<open>
  Every slot has one owner: with as many replicas as they were counted, each holding a pair of
  its own, whatever the number of slots, each replica is answered and each slot is answered to exactly
  one of them.
\<close>

theorem slots_partition:
  assumes "as \<noteq> []" "\<And>i. i < length as \<Longrightarrow> at_assignment (as ! i) = Some (i, length as)" "s < count"
  shows "\<exists>!i. i < length as \<and> (\<exists>owned. slots count (as ! i) = Some (Some owned) \<and> s \<in> set owned)"
proof -
  have "slots count (as ! i) = Some (Some (filter (\<lambda>s. s mod length as = i) [0..<count]))" if "i < length as" for i
    using that assms(2) by (simp add: slots_assigned)
  then show ?thesis
    using assms(1,3) by (intro ex1I [of _ "s mod length as"]) auto
qed

definition sample_replica :: "nat \<Rightarrow> atom" where
  "sample_replica i = (new_atom ''outbox'')\<lparr>at_assignment := Some (i, 2)\<rparr>"

lemma slots_partition_witness:
  "\<exists>!i. i < length [sample_replica 0, sample_replica 1] \<and>
     (\<exists>owned. slots 9 ([sample_replica 0, sample_replica 1] ! i) = Some (Some owned) \<and> 5 \<in> set owned)"
  by (rule slots_partition) (auto simp: sample_replica_def less_Suc_eq)

section \<open>What the group owes\<close>

text \<open>
  The meter as it is meant: what a key owes never expires, and drains by a millisecond a millisecond.
  \<open>owed\<close> reads it at a time.
\<close>

type_synonym ledger = "string \<Rightarrow> int \<times> int"

definition owed :: "int \<Rightarrow> ledger \<Rightarrow> string \<Rightarrow> int" where
  "owed now l k = (case l k of (debt, at_time) \<Rightarrow> max 0 (debt - (now - at_time)))"

fun reported :: "int \<Rightarrow> ledger \<Rightarrow> string list \<Rightarrow> int list \<Rightarrow> int list \<times> ledger" where
  "reported now l (k # ks) (x # xs) =
     (case reported now (l(k := (owed now l k + x, now))) ks xs of (ds, l') \<Rightarrow> ((owed now l k + x) # ds, l'))"
| "reported now l _ _ = ([], l)"

text \<open>What Redis holds stands for a ledger, as of a time: what has expired owes nothing.\<close>

definition stands_for :: "int \<Rightarrow> redis \<Rightarrow> ledger \<Rightarrow> bool" where
  "stands_for t r l \<longleftrightarrow> (\<forall>k now. t \<le> now \<longrightarrow> drained now (hmget now r k) = owed now l k)"

lemma stands_for_later: "stands_for t r l \<Longrightarrow> t \<le> t' \<Longrightarrow> stands_for t' r l"
  by (auto simp: stands_for_def)

lemma stands_for_written:
  assumes "stands_for t r l" "t \<le> now" "0 \<le> debt"
  shows "stands_for now (r(k \<mapsto> \<lparr>m_debt = debt, m_at = now, m_expires = now + debt + GRACE\<rparr>)) (l(k := (debt, now)))"
  using assms by (auto simp: stands_for_def hmget_def drained_def owed_def GRACE_def split: option.splits)

lemma owed_nonneg: "0 \<le> owed now l k"
  by (simp add: owed_def split: prod.splits)

lemma script_reported:
  assumes "stands_for now r l" "list_all (\<lambda>x. 0 \<le> x) xs"
  shows "fst (script now r ks xs) = fst (reported now l ks xs) \<and>
    stands_for now (snd (script now r ks xs)) (snd (reported now l ks xs))"
  using assms
proof (induction now l ks xs arbitrary: r rule: reported.induct)
  case (1 now l k ks x xs)
  have drained: "drained now (hmget now r k) = owed now l k"
    using "1.prems"(1) by (simp add: stands_for_def)
  let ?r = "r(k \<mapsto> \<lparr>m_debt = owed now l k + x, m_at = now, m_expires = now + (owed now l k + x) + GRACE\<rparr>)"
  let ?l = "l(k := (owed now l k + x, now))"
  have "stands_for now ?r ?l"
    using "1.prems" owed_nonneg [of now l k] by (intro stands_for_written [of now]) auto
  then have "fst (script now ?r ks xs) = fst (reported now ?l ks xs) \<and>
      stands_for now (snd (script now ?r ks xs)) (snd (reported now ?l ks xs))"
    using "1.prems"(2) "1.IH" [of ?r] by (simp del: fun_upd_apply)
  then show ?case
    by (auto simp: drained Let_def simp del: fun_upd_apply split: prod.splits)
qed (use assms in simp_all)

text \<open>Several calls, at the times of Redis when they ran.\<close>

fun scripts :: "redis \<Rightarrow> (int \<times> string list \<times> int list) list \<Rightarrow> int list list" where
  "scripts r [] = []"
| "scripts r ((now, ks, xs) # cs) = (case script now r ks xs of (ds, r') \<Rightarrow> ds # scripts r' cs)"

fun reports :: "ledger \<Rightarrow> (int \<times> string list \<times> int list) list \<Rightarrow> int list list" where
  "reports l [] = []"
| "reports l ((now, ks, xs) # cs) = (case reported now l ks xs of (ds, l') \<Rightarrow> ds # reports l' cs)"

lemma scripts_reports:
  assumes "stands_for t r l" "sorted (t # map fst cs)" "list_all (\<lambda>(_, _, xs). list_all (\<lambda>x. 0 \<le> x) xs) cs"
  shows "scripts r cs = reports l cs"
  using assms
proof (induction cs arbitrary: t r l)
  case (Cons c cs)
  obtain now ks xs where c: "c = (now, ks, xs)" by (cases c)
  have now: "stands_for now r l"
    using Cons.prems c by (auto intro: stands_for_later)
  have "fst (script now r ks xs) = fst (reported now l ks xs) \<and>
      stands_for now (snd (script now r ks xs)) (snd (reported now l ks xs))"
    using Cons.prems(3) c by (intro script_reported [OF now]) simp
  moreover from this have "scripts (snd (script now r ks xs)) cs = reports (snd (reported now l ks xs)) cs"
    using Cons.prems c by (intro Cons.IH [of now]) auto
  ultimately show ?case
    by (auto simp: c split: prod.splits)
qed simp

text \<open>
  C27. What a key owes is not lost with the key: whatever is reported, in whichever order and however
  far apart, the script answers what a ledger that never forgets would, although Redis drops each key
  some time after its debt.
\<close>

theorem meter_forgets_nothing:
  assumes "sorted (0 # map fst cs)" "list_all (\<lambda>(_, _, xs). list_all (\<lambda>x. 0 \<le> x) xs) cs"
  shows "scripts Map.empty cs = reports (\<lambda>_. (0, 0)) cs"
proof -
  have "stands_for 0 Map.empty (\<lambda>_. (0, 0))"
    by (simp add: stands_for_def hmget_def drained_def owed_def)
  from scripts_reports [OF this assms] show ?thesis .
qed

lemma meter_forgets_nothing_witness:
  "scripts Map.empty [(5, [''a'', ''b''], [100, 20]), (55, [''a''], [7]), (99999, [''a'', ''a''], [1, 1])] =
     [[100, 20], [57], [1, 2]]"
proof -
  have "scripts Map.empty [(5, [''a'', ''b''], [100, 20]), (55, [''a''], [7]), (99999, [''a'', ''a''], [1, 1])] =
      reports (\<lambda>_. (0, 0)) [(5, [''a'', ''b''], [100, 20]), (55, [''a''], [7]), (99999, [''a'', ''a''], [1, 1])]"
    by (rule meter_forgets_nothing) simp_all
  then show ?thesis
    by (simp add: owed_def)
qed

text \<open>A batch cut into calls that nothing comes between is one call.\<close>

lemma script_append:
  "length ks = length xs \<Longrightarrow> script now r (ks @ ks') (xs @ xs') =
     (case script now r ks xs of (ds, r') \<Rightarrow> case script now r' ks' xs' of (ds', r'') \<Rightarrow> (ds @ ds', r''))"
  by (induction ks xs arbitrary: r rule: list_induct2) (auto simp: Let_def split: prod.splits)

lemma meter_chunks_script:
  "length ks = length xs \<Longrightarrow> meter_chunks (\<lambda>_. now) (\<lambda>_ r. r) c r ks xs = script now r ks xs"
proof (induction ks arbitrary: c r xs rule: length_induct)
  case (1 ks)
  show ?case
  proof (cases "ks = []")
    case False
    have "meter_chunks (\<lambda>_. now) (\<lambda>_ r. r) (Suc c) r' (drop CHUNK ks) (drop CHUNK xs) =
        script now r' (drop CHUNK ks) (drop CHUNK xs)" for r'
      using "1.IH" [rule_format, of "drop CHUNK ks" "drop CHUNK xs"] "1.prems" False
      by (cases xs) (simp_all add: CHUNK_def)
    then show ?thesis
      using False "1.prems" script_append [of "take CHUNK ks" "take CHUNK xs" now r "drop CHUNK ks" "drop CHUNK xs"]
      by (subst meter_chunks.simps) (simp add: Let_def split: prod.splits)
  qed (simp add: meter_chunks.simps)
qed

lemma meter_script: "length ks = length xs \<Longrightarrow> meter (\<lambda>_. now) (\<lambda>_ r. r) r ks xs = script now r ks xs"
  by (simp add: meter_def meter_chunks_script)

end
