(* ===== verification/Throttle.thy ===== *)
theory Throttle
  imports Atomicity Routing
begin

text \<open>
  Rate limits: \<open>extensions/exposition/source/directives/io/Throttle.ts\<close> and
  \<open>directives/io/lib/throttle/{Configuration,Keys,Quotas,Sync}.ts\<close> with its components and
  conditions.

  A quota keeps one moment for each key, \<open>tat\<close>, when the key would be out of debt, and the debt this
  process has yet to report. Times and durations are rationals: the rounding of doubles is not
  modelled. The digest of a key is a parameter. Writing of warnings is left out.
\<close>

section \<open>Keys\<close>

text \<open>
  What of a request a quota may key on. A context is told from another by \<open>tc_id\<close>, as the weak map of
  the code tells objects apart.
\<close>

record throttled =
  tc_id :: nat
  tc_ip :: "string option"
  tc_path :: string
  tc_identity :: "string option"

datatype key_component = By_ip | By_path | By_route string | By_identity | By_segment string

fun component_get :: "key_component \<Rightarrow> throttled \<Rightarrow> parameters \<Rightarrow> string option" where
  "component_get By_ip c ps = tc_ip c"
| "component_get By_path c ps = Some (tc_path c)"
| "component_get (By_route route) c ps = Some route"
| "component_get By_identity c ps = Some (case tc_identity c of None \<Rightarrow> [] | Some i \<Rightarrow> i)"
| "component_get (By_segment name) c ps = Some (case map_of ps name of None \<Rightarrow> [] | Some v \<Rightarrow> v)"

record keys =
  k_components :: "key_component list"
  k_conditions :: "int list option"

fun key_text :: "key_component list \<Rightarrow> throttled \<Rightarrow> parameters \<Rightarrow> string option" where
  "key_text [] c ps = Some []"
| "key_text (k # ks) c ps =
     (case component_get k c ps of
        None \<Rightarrow> None
      | Some part \<Rightarrow> map_option (\<lambda>rest. part @ rest) (key_text ks c ps))"

definition keys_get :: "(string \<Rightarrow> string) \<Rightarrow> keys \<Rightarrow> throttled \<Rightarrow> parameters \<Rightarrow> string option" where
  "keys_get sha256 k c ps = map_option sha256 (key_text (k_components k) c ps)"

definition keys_match :: "keys \<Rightarrow> int option \<Rightarrow> bool" where
  "keys_match k status =
     (case k_conditions k of None \<Rightarrow> True | Some cs \<Rightarrow> \<not> list_ex (\<lambda>c. status \<noteq> Some c) cs)"

section \<open>Declarations\<close>

text \<open>A component is declared bare, or as an object of the ones that take an argument.\<close>

datatype key_entry = Bare string | Given "(string \<times> val) list"

record throttle_decl =
  td_key :: "key_entry list"
  td_condition :: "(string \<times> val) list list option"
  td_requests :: nat
  td_interval :: rat

definition map_key :: "key_entry list \<Rightarrow> (string \<times> val) list" where
  "map_key es = concat (map (\<lambda>e. case e of Bare m \<Rightarrow> [(m, Undef)] | Given ms \<Rightarrow> ms) es)"

definition map_condition :: "(string \<times> val) list list option \<Rightarrow> (string \<times> val) list option" where
  "map_condition d = map_option (foldl (\<lambda>acc c. foldl (\<lambda>a (k, v). AList.update k v a) acc c) []) d"

text \<open>The constructors of components and conditions; a method they do not know is no constructor.\<close>

definition new_component :: "string \<Rightarrow> string \<times> val \<Rightarrow> string + key_component" where
  "new_component route rule =
     (case rule of (method, options) \<Rightarrow>
        if method = ''ip'' then Inr By_ip
        else if method = ''path'' then Inr By_path
        else if method = ''route'' then Inr (By_route route)
        else if method = ''identity'' then Inr By_identity
        else if method = ''segment'' then
          (case options of Str name \<Rightarrow> Inr (By_segment name) | _ \<Rightarrow> Inl ''Throttle segment must be a string'')
        else Inl (''Components[rule.method] is not a constructor''))"

definition new_condition :: "string \<times> val \<Rightarrow> string + int" where
  "new_condition rule =
     (case rule of (method, options) \<Rightarrow>
        if method = ''status'' then (case options of Num n \<Rightarrow> Inr n | _ \<Rightarrow> Inl ''Status must be a number'')
        else Inl (''Conditions[rule.method] is not a constructor''))"

fun each :: "('a \<Rightarrow> string + 'b) \<Rightarrow> 'a list \<Rightarrow> string + 'b list" where
  "each f [] = Inr []"
| "each f (x # xs) = rbind (f x) (\<lambda>y. rbind (each f xs) (\<lambda>ys. Inr (y # ys)))"

definition keys_create :: "string \<Rightarrow> (string \<times> val) list \<Rightarrow> (string \<times> val) list option \<Rightarrow> string + keys" where
  "keys_create route components conditions =
     rbind (each (new_component route) components) (\<lambda>ks.
       case conditions of
         None \<Rightarrow> Inr \<lparr>k_components = ks, k_conditions = None\<rparr>
       | Some rules \<Rightarrow> rbind (each new_condition rules) (\<lambda>cs. Inr \<lparr>k_components = ks, k_conditions = Some cs\<rparr>))"

section \<open>Quotas\<close>

record entry =
  en_tat :: rat
  en_debt :: rat

record quotas =
  q_keys :: keys
  q_conditional :: bool
  q_emission :: rat
  q_capacity :: rat
  q_period :: rat
  q_prefix :: string
  q_entries :: "(string \<times> entry) list"
  q_keyed :: "(nat \<times> string) list"

definition MIN_PERIOD :: rat where "MIN_PERIOD = 250"
definition MAX_PERIOD :: rat where "MAX_PERIOD = 2000"

definition period :: "rat \<Rightarrow> rat" where
  "period interval = min (max (interval / 10) MIN_PERIOD) MAX_PERIOD"

text \<open>How a number is written into a prefix is a parameter, \<open>shown\<close>.\<close>

definition new_quotas :: "(rat \<Rightarrow> string) \<Rightarrow> keys \<Rightarrow> nat \<Rightarrow> rat \<Rightarrow> bool \<Rightarrow> string option \<Rightarrow> quotas" where
  "new_quotas shown k requests interval conditional name =
     \<lparr>q_keys = k, q_conditional = conditional, q_emission = interval / of_nat requests, q_capacity = interval,
      q_period = period interval,
      q_prefix = (case name of
                    None \<Rightarrow> ''t:'' @ nat_str requests @ '':'' @ shown interval @ '':''
                  | Some n \<Rightarrow> n @ '':''),
      q_entries = [], q_keyed = []\<rparr>"

definition quotas_create :: "(rat \<Rightarrow> string) \<Rightarrow> string \<Rightarrow> throttle_decl \<Rightarrow> string + quotas" where
  "quotas_create shown route d =
     rbind (keys_create route (map_key (td_key d)) (map_condition (td_condition d))) (\<lambda>k.
       Inr (new_quotas shown k (td_requests d) (td_interval d * 1000) (td_condition d \<noteq> None) None))"

definition tat_of :: "quotas \<Rightarrow> rat \<Rightarrow> string \<Rightarrow> rat" where
  "tat_of q now k = max (case map_of (q_entries q) k of None \<Rightarrow> now | Some e \<Rightarrow> en_tat e) now"

definition charge :: "string \<Rightarrow> rat \<Rightarrow> quotas \<Rightarrow> quotas" where
  "charge k tat q =
     q\<lparr>q_entries := AList.update k
         (case map_of (q_entries q) k of
            None \<Rightarrow> \<lparr>en_tat = tat + q_emission q, en_debt = q_emission q\<rparr>
          | Some e \<Rightarrow> \<lparr>en_tat = tat + q_emission q, en_debt = en_debt e + q_emission q\<rparr>)
         (q_entries q)\<rparr>"

text \<open>\<open>check\<close>: the seconds to wait, or zero for what is admitted.\<close>

definition check :: "(string \<Rightarrow> string) \<Rightarrow> rat \<Rightarrow> throttled \<Rightarrow> parameters \<Rightarrow> quotas \<Rightarrow> int \<times> quotas" where
  "check sha256 now c ps q =
     (case keys_get sha256 (q_keys q) c ps of
        None \<Rightarrow> (0, q)
      | Some k \<Rightarrow>
          (let q' = q\<lparr>q_keyed := AList.update (tc_id c) k (q_keyed q)\<rparr>;
               tat = tat_of q now k;
               admit = tat + q_emission q - q_capacity q
           in if now < admit then (\<lceil>(admit - now) / 1000\<rceil>, q')
              else (0, if q_conditional q then q' else charge k tat q')))"

definition use_quota :: "(string \<Rightarrow> string) \<Rightarrow> rat \<Rightarrow> throttled \<Rightarrow> int option \<Rightarrow> quotas \<Rightarrow> quotas" where
  "use_quota sha256 now c status q =
     (if \<not> q_conditional q \<or> \<not> keys_match (q_keys q) status then q
      else
        (case (case map_of (q_keyed q) (tc_id c) of
                 Some k \<Rightarrow> Some k
               | None \<Rightarrow> keys_get sha256 (q_keys q) c []) of
           None \<Rightarrow> q
         | Some k \<Rightarrow> charge k (tat_of q now k) q))"

definition js_round :: "rat \<Rightarrow> int" where
  "js_round x = \<lfloor>x + 1 / 2\<rfloor>"

definition flush :: "rat \<Rightarrow> quotas \<Rightarrow> (string \<times> int) list \<times> quotas" where
  "flush now q =
     ([(k, js_round (en_debt e)). (k, e) \<leftarrow> q_entries q, 0 < js_round (en_debt e)],
      q\<lparr>q_entries := filter (\<lambda>(k, e). 0 < js_round (en_debt e) \<or> now < en_tat e) (q_entries q)\<rparr>)"

definition settled_debt :: "string \<Rightarrow> int \<Rightarrow> rat \<Rightarrow> rat \<Rightarrow> quotas \<Rightarrow> quotas" where
  "settled_debt k delta debt now q =
     (case map_of (q_entries q) k of
        None \<Rightarrow>
          if 0 < debt
          then q\<lparr>q_entries := AList.update k \<lparr>en_tat = now + debt, en_debt = 0\<rparr> (q_entries q)\<rparr>
          else q
      | Some e \<Rightarrow>
          q\<lparr>q_entries := AList.update k
              \<lparr>en_tat = max (en_tat e) (now + debt), en_debt = en_debt e - of_int delta\<rparr> (q_entries q)\<rparr>)"

text \<open>The directive: a request that has to wait is refused with how long.\<close>

definition throttle_precall ::
  "(string \<Rightarrow> string) \<Rightarrow> rat \<Rightarrow> throttled \<Rightarrow> parameters \<Rightarrow> quotas \<Rightarrow> (int + unit) \<times> quotas" where
  "throttle_precall sha256 now c ps q =
     (case check sha256 now c ps q of (retry, q') \<Rightarrow> (if 0 < retry then Inl retry else Inr (), q'))"

section \<open>Reconciling\<close>

text \<open>
  The quotas of a process are known by their place in the list. A tick that has something to report
  starts a reconciliation, and none starts while one runs.
\<close>

record sync =
  s_quotas :: "quotas list"
  s_period :: "rat option"
  s_reconciling :: bool

definition new_sync :: sync where
  "new_sync = \<lparr>s_quotas = [], s_period = None, s_reconciling = False\<rparr>"

text \<open>What is returned is whether the timer is started again.\<close>

definition register :: "quotas \<Rightarrow> sync \<Rightarrow> bool \<times> sync" where
  "register q s =
     (let faster = (case s_period s of None \<Rightarrow> True | Some p \<Rightarrow> q_period q < p)
      in (faster,
          s\<lparr>s_quotas := s_quotas s @ [q], s_period := (if faster then Some (q_period q) else s_period s)\<rparr>))"

type_synonym batch = "(nat \<times> string \<times> int) list"

definition flush_all :: "rat \<Rightarrow> quotas list \<Rightarrow> batch \<times> quotas list" where
  "flush_all now qs =
     (concat (map (\<lambda>i. map (\<lambda>(k, x). (i, k, x)) (fst (flush now (qs ! i)))) [0..<length qs]),
      map (\<lambda>q. snd (flush now q)) qs)"

definition sync_tick :: "rat \<Rightarrow> sync \<Rightarrow> batch option \<times> sync" where
  "sync_tick now s =
     (if s_reconciling s then (None, s)
      else
        (case flush_all now (s_quotas s) of
           (b, qs) \<Rightarrow>
             if b = [] then (None, s\<lparr>s_quotas := qs\<rparr>)
             else (Some b, s\<lparr>s_quotas := qs, s_reconciling := True\<rparr>)))"

definition reported_keys :: "sync \<Rightarrow> batch \<Rightarrow> string list \<times> int list" where
  "reported_keys s b = (map (\<lambda>(i, k, x). q_prefix (s_quotas s ! i) @ k) b, map (\<lambda>(i, k, x). x) b)"

text \<open>How a reconciliation ends: the meter failed, or answered one debt for each of the batch.\<close>

definition reconciled :: "rat \<Rightarrow> batch \<Rightarrow> string + int list \<Rightarrow> sync \<Rightarrow> sync" where
  "reconciled now b answer s =
     (case answer of
        Inl _ \<Rightarrow> s\<lparr>s_reconciling := False\<rparr>
      | Inr debts \<Rightarrow>
          s\<lparr>s_quotas := foldl (\<lambda>qs ((i, k, x), debt). qs[i := settled_debt k x (of_int debt) now (qs ! i)])
                          (s_quotas s) (zip b debts),
            s_reconciling := False\<rparr>)"

section \<open>What a key may spend\<close>

text \<open>
  What happens to a quota, each at its time: a request is checked, an answer is counted, what is owed
  is flushed, and the group's debt comes back.
\<close>

datatype happening =
    Checked throttled parameters
  | Used throttled "int option"
  | Flushed
  | Settled string int rat

fun happens :: "(string \<Rightarrow> string) \<Rightarrow> rat \<times> happening \<Rightarrow> quotas \<Rightarrow> quotas" where
  "happens sha256 (now, Checked c ps) q = snd (check sha256 now c ps q)"
| "happens sha256 (now, Used c status) q = use_quota sha256 now c status q"
| "happens sha256 (now, Flushed) q = snd (flush now q)"
| "happens sha256 (now, Settled k delta debt) q = settled_debt k delta debt now q"

fun admits_key :: "(string \<Rightarrow> string) \<Rightarrow> string \<Rightarrow> rat \<times> happening \<Rightarrow> quotas \<Rightarrow> bool" where
  "admits_key sha256 k (now, Checked c ps) q \<longleftrightarrow>
     keys_get sha256 (q_keys q) c ps = Some k \<and> fst (check sha256 now c ps q) = 0"
| "admits_key sha256 k _ q \<longleftrightarrow> False"

fun after :: "(string \<Rightarrow> string) \<Rightarrow> (rat \<times> happening) list \<Rightarrow> quotas \<Rightarrow> quotas" where
  "after sha256 [] q = q"
| "after sha256 (h # hs) q = after sha256 hs (happens sha256 h q)"

fun admissions :: "(string \<Rightarrow> string) \<Rightarrow> string \<Rightarrow> (rat \<times> happening) list \<Rightarrow> quotas \<Rightarrow> nat" where
  "admissions sha256 k [] q = 0"
| "admissions sha256 k (h # hs) q =
     (if admits_key sha256 k h q then 1 else 0) + admissions sha256 k hs (happens sha256 h q)"

lemma after_snoc: "after sha256 (hs @ [h]) q = happens sha256 h (after sha256 hs q)"
  by (induction hs arbitrary: q) simp_all

lemma admissions_snoc:
  "admissions sha256 k (hs @ [h]) q =
     admissions sha256 k hs q + (if admits_key sha256 k h (after sha256 hs q) then 1 else 0)"
  by (induction hs arbitrary: q) simp_all

text \<open>What of a quota no happening changes, and that its entries are a map.\<close>

definition same_terms :: "quotas \<Rightarrow> quotas \<Rightarrow> bool" where
  "same_terms q q' \<longleftrightarrow>
     q_emission q' = q_emission q \<and> q_capacity q' = q_capacity q \<and> q_conditional q' = q_conditional q \<and>
     (distinct (map fst (q_entries q)) \<longrightarrow> distinct (map fst (q_entries q')))"

lemma charge_terms: "same_terms q (charge k t q)"
  by (simp add: same_terms_def charge_def distinct_update)

lemma happens_terms: "same_terms q (happens sha256 h q)"
proof (cases h)
  case (Pair now w)
  then show ?thesis
    by (cases w) (auto simp: same_terms_def check_def use_quota_def flush_def settled_debt_def charge_def Let_def
        distinct_update distinct_fst_filter split: option.splits)
qed

lemma after_terms: "same_terms q (after sha256 hs q)"
proof (induction hs arbitrary: q)
  case (Cons h hs)
  from Cons [of "happens sha256 h q"] happens_terms [of q sha256 h] show ?case
    by (simp add: same_terms_def)
qed (simp add: same_terms_def)

lemma tat_of_mono: "s \<le> t \<Longrightarrow> tat_of q s k \<le> tat_of q t k"
  by (auto simp: tat_of_def split: option.splits)

lemma tat_of_ge: "t \<le> tat_of q t k"
  by (simp add: tat_of_def)

lemma tat_of_charge: "tat_of (charge k' t' q) t k = (if k = k' then max (t' + q_emission q) t else tat_of q t k)"
  by (simp add: tat_of_def charge_def split: option.splits)

lemma tat_of_keyed [simp]: "tat_of (q\<lparr>q_keyed := x\<rparr>) = tat_of q"
  by (simp add: tat_of_def fun_eq_iff)

lemma check_zero:
  assumes "keys_get sha256 (q_keys q) c ps = Some k"
  shows "fst (check sha256 now c ps q) = 0 \<longleftrightarrow> tat_of q now k + q_emission q - q_capacity q \<le> now"
    and "0 \<le> fst (check sha256 now c ps q)"
proof -
  let ?a = "tat_of q now k + q_emission q - q_capacity q"
  have fst_check: "fst (check sha256 now c ps q) = (if now < ?a then \<lceil>(?a - now) / 1000\<rceil> else 0)"
    using assms by (simp add: check_def Let_def)
  have waits: "0 < \<lceil>(?a - now) / 1000\<rceil>" if "now < ?a"
    using that by simp
  show "fst (check sha256 now c ps q) = 0 \<longleftrightarrow> ?a \<le> now"
    unfolding fst_check using less_imp_neq [OF waits] by (cases "now < ?a") (metis not_le, simp)
  show "0 \<le> fst (check sha256 now c ps q)"
    unfolding fst_check using less_imp_le [OF waits] by (cases "now < ?a") (metis, simp)
qed

text \<open>Nothing but time brings a key closer to being out of debt, and what is admitted takes it further.\<close>

lemma happens_tat:
  assumes "\<not> q_conditional q" "distinct (map fst (q_entries q))" "s \<le> t"
  shows "tat_of q s k + (if admits_key sha256 k (s, w) q then q_emission q else 0) \<le> tat_of (happens sha256 (s, w) q) t k"
proof (cases w)
  case (Checked c ps)
  show ?thesis
  proof (cases "keys_get sha256 (q_keys q) c ps")
    case (Some k')
    show ?thesis
      using Some Checked assms(1) tat_of_mono [OF assms(3), of q k] check_zero(1) [OF Some, of s]
      by (auto simp: check_def Let_def tat_of_charge le_max_iff_disj)
  qed (use Checked tat_of_mono [OF assms(3), of q k] in \<open>simp add: check_def\<close>)
next
  case Flushed
  have "map_of (filter (\<lambda>(k, e). 0 < js_round (en_debt e) \<or> s < en_tat e) (q_entries q)) k = None \<Longrightarrow>
      map_of (q_entries q) k = Some e \<Longrightarrow> en_tat e \<le> s" for e
    by (auto simp: map_of_eq_None_iff dest!: map_of_SomeD) force
  moreover have "map_of (filter (\<lambda>(k, e). 0 < js_round (en_debt e) \<or> s < en_tat e) (q_entries q)) k = Some e \<Longrightarrow>
      map_of (q_entries q) k = Some e" for e
    using assms(2) by (auto dest!: map_of_SomeD)
  ultimately show ?thesis
    using Flushed assms(3) by (fastforce simp: tat_of_def flush_def split: option.splits)
next
  case (Settled k' delta debt)
  then show ?thesis
    using assms(3) by (auto simp: tat_of_def settled_debt_def split: option.splits)
qed (use assms(1) tat_of_mono [OF assms(3), of q k] in \<open>simp add: use_quota_def\<close>)

lemma after_tat:
  assumes "\<not> q_conditional q" "distinct (map fst (q_entries q))" "sorted (s # map fst hs @ [t])"
  shows "s + of_nat (admissions sha256 k hs q) * q_emission q \<le> tat_of (after sha256 hs q) t k"
  using assms(3)
proof (induction hs arbitrary: t rule: rev_induct)
  case Nil
  then show ?case using tat_of_ge [of t q k] by auto
next
  case (snoc h hs)
  obtain now w where h: "h = (now, w)" by (cases h)
  let ?q = "after sha256 hs q"
  have terms: "\<not> q_conditional ?q" "distinct (map fst (q_entries ?q))" "q_emission ?q = q_emission q"
    using after_terms [of q sha256 hs] assms(1,2) by (simp_all add: same_terms_def)
  have "now \<le> t" using snoc.prems h by (simp add: sorted_append)
  from happens_tat [OF terms(1,2) this, of k sha256 w] terms(3)
  have "tat_of ?q now k + (if admits_key sha256 k h ?q then q_emission q else 0) \<le> tat_of (after sha256 (hs @ [h]) q) t k"
    by (auto simp: h after_snoc split: if_splits)
  moreover have "s + of_nat (admissions sha256 k hs q) * q_emission q \<le> tat_of ?q now k"
    using snoc.prems h by (intro snoc.IH) (simp add: sorted_append)
  ultimately show ?case
    by (auto simp: admissions_snoc algebra_simps split: if_splits)
qed

lemma admissions_emission:
  assumes "\<not> q_conditional q" "distinct (map fst (q_entries q))" "0 \<le> q_capacity q" "sorted (s # map fst hs)"
  shows "of_nat (admissions sha256 k hs q) * q_emission q \<le> q_capacity q + (last (s # map fst hs) - s)"
  using assms(4)
proof (induction hs rule: rev_induct)
  case (snoc h hs)
  obtain now w where h: "h = (now, w)" by (cases h)
  let ?q = "after sha256 hs q"
  have terms: "q_emission ?q = q_emission q" "q_capacity ?q = q_capacity q"
    using after_terms [of q sha256 hs] by (simp_all add: same_terms_def)
  show ?case
  proof (cases "admits_key sha256 k h ?q")
    case True
    then obtain c ps where w: "w = Checked c ps" and key: "keys_get sha256 (q_keys ?q) c ps = Some k"
      and zero: "fst (check sha256 now c ps ?q) = 0"
      by (cases w) (auto simp: h)
    have "tat_of ?q now k + q_emission q - q_capacity q \<le> now"
      using check_zero(1) [OF key, of now] zero terms by simp
    moreover have "s + of_nat (admissions sha256 k hs q) * q_emission q \<le> tat_of ?q now k"
      using snoc.prems h by (intro after_tat [OF assms(1,2)]) simp
    ultimately show ?thesis
      using True by (simp add: admissions_snoc h algebra_simps)
  next
    case False
    have "last (s # map fst hs) \<le> now"
      using snoc.prems h by (cases "hs = []") (auto simp: sorted_append last_map)
    moreover have "sorted (s # map fst hs)"
      using snoc.prems by (simp add: sorted_append)
    ultimately show ?thesis
      using snoc.IH False by (simp add: admissions_snoc h)
  qed
qed (use assms(3) in simp)

text \<open>
  C16. A key spends no more than it was given: of a quota whose requests are counted as they come,
  between any two moments the requests of one key that were admitted are at most \<open>requests\<close>, and of what
  is earned over the time between, in proportion to \<open>interval\<close>; whatever else happened to the quota
  meanwhile, and whatever it held before.
\<close>

theorem quota_bounds_admissions:
  assumes "0 < requests" "0 < interval"
    and "q_emission q = interval / of_nat requests" "q_capacity q = interval" "\<not> q_conditional q"
    and "distinct (map fst (q_entries q))" "sorted (s # map fst hs)"
  shows "of_nat (admissions sha256 k hs q) \<le> of_nat requests * (1 + (last (s # map fst hs) - s) / interval)"
proof -
  let ?n = "of_nat (admissions sha256 k hs q) :: rat"
  have "?n * (interval / of_nat requests) \<le> interval + (last (s # map fst hs) - s)"
    using admissions_emission [OF assms(5,6) _ assms(7)] assms(2,3,4) by simp
  then have "?n * interval \<le> (interval + (last (s # map fst hs) - s)) * of_nat requests"
    using assms(1) by (simp add: field_simps)
  then show ?thesis
    using assms(2) by (simp add: field_simps)
qed

definition sample_keys :: keys where
  "sample_keys = \<lparr>k_components = [By_path], k_conditions = None\<rparr>"

definition sample_quota :: quotas where
  "sample_quota = new_quotas (\<lambda>_. ''1000'') sample_keys 2 1000 False None"

definition sample_request :: throttled where
  "sample_request = \<lparr>tc_id = 1, tc_ip = None, tc_path = ''/a/'', tc_identity = None\<rparr>"

definition sample_happenings :: "(rat \<times> happening) list" where
  "sample_happenings = map (\<lambda>t. (t, Checked sample_request [])) [0, 1, 2, 3, 600]"

lemma quota_bounds_admissions_witness:
  "admissions id ''/a/'' sample_happenings sample_quota = 3 \<and> (3 :: rat) \<le> 2 * (1 + 600 / 1000)"
proof -
  have "of_nat (admissions id ''/a/'' sample_happenings sample_quota) \<le>
      of_nat 2 * (1 + (last (0 # map fst sample_happenings) - 0) / (1000 :: rat))"
    by (rule quota_bounds_admissions) (simp_all add: sample_quota_def new_quotas_def sample_happenings_def)
  moreover have "admissions id ''/a/'' sample_happenings sample_quota = 3" by code_simp
  ultimately show ?thesis by (simp add: sample_happenings_def)
qed

text \<open>
  A wait is long enough: a request that was refused is admitted once the seconds it was told have
  passed, where nothing of its key was admitted or came back from the group meanwhile.
\<close>

theorem refused_admitted_later:
  assumes "check sha256 now c ps q = (retry, q')" "0 < retry" "q_emission q \<le> q_capacity q"
    and "now + 1000 * of_int retry \<le> now'" "keys_get sha256 (q_keys q) c' ps' = keys_get sha256 (q_keys q) c ps"
  shows "fst (check sha256 now' c' ps' q') = 0"
proof -
  obtain k where k: "keys_get sha256 (q_keys q) c ps = Some k"
    using assms(1,2) by (cases "keys_get sha256 (q_keys q) c ps") (auto simp: check_def)
  let ?a = "tat_of q now k + q_emission q - q_capacity q"
  have q': "q' = q\<lparr>q_keyed := AList.update (tc_id c) k (q_keyed q)\<rparr>" and retry: "retry = \<lceil>(?a - now) / 1000\<rceil>"
    using assms(1,2) k by (auto simp: check_def Let_def split: if_splits)
  have "(?a - now) / 1000 \<le> of_int retry"
    by (simp add: retry le_of_int_ceiling)
  then have later: "?a \<le> now'" "now \<le> now'"
    using assms(2,4) by simp_all
  then have "tat_of q now' k + q_emission q - q_capacity q \<le> now'"
    using assms(3) by (auto simp: tat_of_def max_def split: option.splits if_splits)
  then show ?thesis
    using check_zero(1) [of sha256 q' c' ps' k now'] assms(5) k by (simp add: q')
qed

definition spent_quota :: quotas where
  "spent_quota = after id (take 2 sample_happenings) sample_quota"

lemma refused_admitted_later_witness:
  "fst (check id 3 sample_request [] spent_quota) = 1 \<and>
   fst (check id 1003 sample_request [] (snd (check id 3 sample_request [] spent_quota))) = 0"
proof -
  have one: "fst (check id 3 sample_request [] spent_quota) = 1" by code_simp
  have "q_emission spent_quota \<le> q_capacity spent_quota" by code_simp
  then have "fst (check id 1003 sample_request [] (snd (check id 3 sample_request [] spent_quota))) = 0"
    using one by (intro refused_admitted_later [where now = 3 and q = spent_quota and c = sample_request and
        ps = "[]" and retry = 1]) (auto simp: prod_eq_iff)
  with one show ?thesis by simp
qed

section \<open>What the group has spent\<close>

lemma settled_tat: "now \<le> t \<Longrightarrow> tat_of q t k' \<le> tat_of (settled_debt k delta debt now q) t k'"
  by (auto simp: tat_of_def settled_debt_def split: option.splits)

lemma settled_tat_debt: "0 < debt \<Longrightarrow> now + debt \<le> tat_of (settled_debt k delta debt now q) now k"
  by (auto simp: tat_of_def settled_debt_def split: option.splits)

lemma settled_terms [simp]:
  "q_emission (settled_debt k delta debt now q) = q_emission q" "q_capacity (settled_debt k delta debt now q) = q_capacity q"
  "q_keys (settled_debt k delta debt now q) = q_keys q"
  by (simp_all add: settled_debt_def split: option.splits)

definition settle_all :: "rat \<Rightarrow> quotas list \<Rightarrow> ((nat \<times> string \<times> int) \<times> int) list \<Rightarrow> quotas list" where
  "settle_all now = foldl (\<lambda>qs ((i, k, x), debt). qs[i := settled_debt k x (of_int debt) now (qs ! i)])"

lemma settle_all_Nil [simp]: "settle_all now qs [] = qs"
  by (simp add: settle_all_def)

lemma settle_all_Cons [simp]:
  "settle_all now qs (((i, k, x), debt) # bs) = settle_all now (qs[i := settled_debt k x (of_int debt) now (qs ! i)]) bs"
  by (simp add: settle_all_def)

lemma settle_all_keeps:
  "length (settle_all now qs bs) = length qs \<and>
   (j < length qs \<longrightarrow>
      q_emission (settle_all now qs bs ! j) = q_emission (qs ! j) \<and>
      q_capacity (settle_all now qs bs ! j) = q_capacity (qs ! j) \<and> q_keys (settle_all now qs bs ! j) = q_keys (qs ! j) \<and>
      tat_of (qs ! j) now k \<le> tat_of (settle_all now qs bs ! j) now k)"
proof (induction bs arbitrary: qs)
  case (Cons b bs)
  obtain i k' x debt where b: "b = ((i, k', x), debt)" by (metis surj_pair)
  let ?qs = "qs[i := settled_debt k' x (of_int debt) now (qs ! i)]"
  have "tat_of (qs ! j) now k \<le> tat_of (?qs ! j) now k"
    if "j < length qs" using that settled_tat [of now now "qs ! i"] by (cases "i = j") simp_all
  moreover have "q_emission (?qs ! j) = q_emission (qs ! j)" "q_capacity (?qs ! j) = q_capacity (qs ! j)"
    "q_keys (?qs ! j) = q_keys (qs ! j)" if "j < length qs"
    using that by (cases "i = j"; simp)+
  ultimately show ?case
    using Cons.IH [of ?qs] by (auto simp: b intro: order_trans)
qed simp

lemma settle_all_tat:
  "((i, k, x), debt) \<in> set bs \<Longrightarrow> 0 < debt \<Longrightarrow> i < length qs \<Longrightarrow> now + of_int debt \<le> tat_of (settle_all now qs bs ! i) now k"
proof (induction bs arbitrary: qs)
  case (Cons b bs)
  obtain j k' x' debt' where b: "b = ((j, k', x'), debt')" by (metis surj_pair)
  let ?qs = "qs[j := settled_debt k' x' (of_int debt') now (qs ! j)]"
  show ?case
  proof (cases "((i, k, x), debt) \<in> set bs")
    case True
    then show ?thesis using Cons.IH [of ?qs] Cons.prems by (simp add: b)
  next
    case False
    then have "b = ((i, k, x), debt)" using Cons.prems(1) by auto
    then show ?thesis
      using settle_all_keeps [of now ?qs bs i k] settled_tat_debt [of "of_int debt" now k x "qs ! i"] Cons.prems b
      by (auto intro: order_trans)
  qed
qed simp

text \<open>
  What the group has spent is refused here too: once a batch is reconciled, a key the group owes
  more for than one more request leaves room for is refused by this process, although it alone may
  have spent little.
\<close>

theorem group_debt_refuses:
  assumes "length debts = length b" "j < length b" "b ! j = (i, k, x)" "i < length (s_quotas s)"
    and "0 < debts ! j" "q_capacity (s_quotas s ! i) - q_emission (s_quotas s ! i) < of_int (debts ! j)"
    and "keys_get sha256 (q_keys (s_quotas s ! i)) c ps = Some k"
  shows "0 < fst (check sha256 now c ps (s_quotas (reconciled now b (Inr debts) s) ! i))"
proof -
  let ?qs = "settle_all now (s_quotas s) (zip b debts)"
  have qs: "s_quotas (reconciled now b (Inr debts) s) = ?qs"
    by (simp add: reconciled_def settle_all_def)
  have "((i, k, x), debts ! j) \<in> set (zip b debts)"
    using assms(1-3) by (metis in_set_zip fst_conv snd_conv)
  from settle_all_tat [OF this assms(5,4)] have "now + of_int (debts ! j) \<le> tat_of (?qs ! i) now k" .
  moreover have same: "q_emission (?qs ! i) = q_emission (s_quotas s ! i)" "q_capacity (?qs ! i) = q_capacity (s_quotas s ! i)"
    "q_keys (?qs ! i) = q_keys (s_quotas s ! i)"
    using settle_all_keeps [of now "s_quotas s" "zip b debts" i] assms(4) by blast+
  ultimately have "\<not> tat_of (?qs ! i) now k + q_emission (?qs ! i) - q_capacity (?qs ! i) \<le> now"
    using assms(6) by simp
  then have "fst (check sha256 now c ps (?qs ! i)) \<noteq> 0" "0 \<le> fst (check sha256 now c ps (?qs ! i))"
    using check_zero [of sha256 "?qs ! i" c ps k now] assms(7) same by simp_all
  then show ?thesis
    by (simp add: qs)
qed

definition sample_sync :: sync where
  "sample_sync = \<lparr>s_quotas = [snd (check id 0 sample_request [] sample_quota)], s_period = None, s_reconciling = True\<rparr>"

lemma group_debt_refuses_witness:
  "fst (check id 5 sample_request [] (s_quotas sample_sync ! 0)) = 0 \<and>
   0 < fst (check id 5 sample_request [] (s_quotas (reconciled 5 [(0, ''/a/'', 500)] (Inr [1500]) sample_sync) ! 0))"
proof
  show "fst (check id 5 sample_request [] (s_quotas sample_sync ! 0)) = 0" by code_simp
  have "q_capacity (s_quotas sample_sync ! 0) - q_emission (s_quotas sample_sync ! 0) < 1500" by code_simp
  moreover have "keys_get id (q_keys (s_quotas sample_sync ! 0)) sample_request [] = Some ''/a/''" by code_simp
  ultimately show "0 < fst (check id 5 sample_request []
      (s_quotas (reconciled 5 [(0, ''/a/'', 500)] (Inr [1500]) sample_sync) ! 0))"
    by (intro group_debt_refuses [where j = 0 and k = "''/a/''" and x = 500]) (simp_all add: sample_sync_def)
qed

text \<open>A batch the meter did not take is reported again by the next tick.\<close>

lemma reported_filter:
  "[(k, js_round (en_debt e)). (k, e) \<leftarrow> filter (\<lambda>(k, e). 0 < js_round (en_debt e) \<or> P e) es, 0 < js_round (en_debt e)] =
   [(k, js_round (en_debt e)). (k, e) \<leftarrow> es, 0 < js_round (en_debt e)]"
  by (induction es) (auto split: if_splits)

lemma flush_again: "fst (flush now' (snd (flush now q))) = fst (flush now q)"
  using reported_filter [of "\<lambda>e. now < en_tat e" "q_entries q"] by (simp add: flush_def)

lemma flush_all_again: "fst (flush_all now' (snd (flush_all now qs))) = fst (flush_all now qs)"
  by (auto simp: flush_all_def flush_again intro!: arg_cong [where f = concat])

lemma failed_batch_again:
  assumes "sync_tick now s = (Some b, s')"
  shows "fst (sync_tick now' (reconciled t b (Inl e) s')) = Some b"
proof -
  have "fst (flush_all now (s_quotas s)) = b" "s_quotas s' = snd (flush_all now (s_quotas s))" "b \<noteq> []"
    using assms by (auto simp: sync_tick_def split: if_splits prod.splits)
  with flush_all_again [of now' now "s_quotas s"] show ?thesis
    by (auto simp: sync_tick_def reconciled_def split: prod.splits)
qed

text \<open>
  The parts of a key are run together: requests that differ in every part may share a quota, whatever
  the digest.
\<close>

lemma key_parts_run_together:
  "keys_get sha256 \<lparr>k_components = [By_segment ''a'', By_segment ''b''], k_conditions = None\<rparr> c
      [(''a'', ''x''), (''b'', ''yz'')] =
   keys_get sha256 \<lparr>k_components = [By_segment ''a'', By_segment ''b''], k_conditions = None\<rparr> c
      [(''a'', ''xy''), (''b'', ''z'')]"
  by (simp add: keys_get_def)

end
