(* ===== verification/Auth.thy ===== *)
theory Auth
  imports Querystring Throttle Contract
begin

text \<open>
  Who may make a call: \<open>extensions/exposition/source/directives/auth/*.ts\<close>.

  The family keeps nothing of a request but what it writes into its context: the identity a credential
  names, why one was rejected, and what is to be done with the body. An identity is one object, which
  the context holds and a directive is handed; a directive handed none while the context has since got
  one is told apart by \<open>known\<close>. The identity components (providers, roles, bans, tokens), the parser of
  addresses and the matcher of globs are parameters, together \<open>auth_env\<close>; a remote call that fails as
  such is not modelled. What a directive does to a description is left out.
\<close>

section \<open>Data\<close>

datatype claim = One_claim string | Claims "string list"

record auth_identity =
  ai_id :: string
  ai_roles :: "string list option"
  ai_permissions :: "(string \<times> string list) list option"
  ai_aud :: "string list option"
  ai_scheme :: "string option"
  ai_provider :: "string option"
  ai_refresh :: bool
  ai_claims :: "(string \<times> claim) list option"

datatype auth_error =
    Unauthorized string
  | Forbidden string
  | BadRequest string
  | TooManyRequests int
  | UnprocessableEntity string
  | Raised string

text \<open>How a claim is matched: by the authority, by its domain, by a parameter, or by a value.\<close>

datatype matcher = By_authority | By_domain | By_parameter string | By_value string

datatype auth_directive =
    Anonymous bool
  | Anyone bool
  | Id_of string
  | Role "string list"
  | Rule "auth_directive list"
  | Incept "string option"
  | Assert bool
  | Scheme string string
  | Echo
  | Refresh
  | Delegate string
  | Federation "(string \<times> matcher) list"
  | Input "(string list \<times> auth_directive list) list"
  | Transfer string

text \<open>What is done with the body before it becomes the input of a call, in the order it was added.\<close>

datatype pipe =
    Checks "(string list \<times> auth_directive list) list" bool parameters
  | Embeds_identity string
  | Embeds_credential string string

record auth_context =
  ac_authorization :: "string option"
  ac_authority :: string
  ac_method :: string
  ac_path :: string
  ac_hostname :: string
  ac_procedural :: bool
  ac_exploratory :: bool
  ac_client :: throttled
  ac_identity :: "auth_identity option"
  ac_rejection :: "string option"
  ac_vetted :: bool
  ac_reads :: bool
  ac_body :: "pipe list"
  ac_created :: bool

text \<open>What a provider answers: an error with its code, or an identity and whether its token is due.\<close>

datatype authenticated = Rejects "string option" | Identifies auth_identity bool

record auth_env =
  ev_roles :: "string \<Rightarrow> string list"
  ev_banned :: "string \<Rightarrow> bool"
  ev_authenticate :: "string \<Rightarrow> string option \<Rightarrow> string \<Rightarrow> string \<Rightarrow> bool \<Rightarrow> authenticated"
  ev_incept :: "string \<Rightarrow> string \<Rightarrow> string \<Rightarrow> string \<Rightarrow> string \<Rightarrow> string + auth_identity"
  ev_newid :: string
  ev_url :: "string \<Rightarrow> (string \<times> string) option"
  ev_glob :: "string \<Rightarrow> string \<Rightarrow> bool"
  ev_encrypt :: "string \<Rightarrow> auth_identity \<Rightarrow> string"
  ev_sha256 :: "string \<Rightarrow> string"

section \<open>Schemes\<close>

definition PRIMARY :: string where "PRIMARY = ''tokens''"
definition UNRECOGNIZED :: string where "UNRECOGNIZED = ''UNRECOGNIZED''"
definition UNKNOWN :: string where "UNKNOWN = ''NOT_FOUND''"
definition UNREFRESHABLE :: string where "UNREFRESHABLE = ''UNREFRESHABLE''"
definition INCEPTION :: "string list" where "INCEPTION = [''basic'', ''federation'']"

definition PROVIDERS :: "(string \<times> string list) list" where
  "PROVIDERS =
     [(''basic'', [''basic'']), (''token'', [''tokens'']), (''bearer'', [''tokens'', ''federation'']),
      (''code'', [''federation'']), (''otp'', [''otp''])]"

definition providers :: "string \<Rightarrow> string list option" where
  "providers scheme = map_of PROVIDERS scheme"

definition lower :: "char \<Rightarrow> char" where
  "lower c =
     (let n = (of_char c :: nat)
      in if (65 \<le> n \<and> n \<le> 90) \<or> (192 \<le> n \<and> n \<le> 222 \<and> n \<noteq> 215) then char_of (n + 32) else c)"

definition split_authorization :: "string \<Rightarrow> auth_error + string \<times> string" where
  "split_authorization a =
     (if CHR '' '' \<notin> set a then Inl (Unauthorized ''Malformed authorization header'')
      else Inr (map lower (takeWhile (\<lambda>c. c \<noteq> CHR '' '') a), tl (dropWhile (\<lambda>c. c \<noteq> CHR '' '') a)))"

section \<open>Roles\<close>

definition word_char :: "char \<Rightarrow> bool" where
  "word_char c \<longleftrightarrow>
     (let n = (of_char c :: nat)
      in (48 \<le> n \<and> n \<le> 57) \<or> (65 \<le> n \<and> n \<le> 90) \<or> (97 \<le> n \<and> n \<le> 122) \<or> n = 95)"

lemma dropWhile_word_length: "length (dropWhile P s) \<le> length s"
  by (induction s) auto

text \<open>Each \<open>{name}\<close> of a role is the parameter of that name.\<close>

function substituted :: "string \<Rightarrow> parameters \<Rightarrow> string \<Rightarrow> auth_error + string" where
  "substituted role ps [] = Inr []"
| "substituted role ps (c # s) =
     (let key = takeWhile word_char s; rest = dropWhile word_char s
      in if c = CHR ''{'' \<and> key \<noteq> [] \<and> rest \<noteq> [] \<and> hd rest = CHR ''}'' then
           (case map_of ps key of
              None \<Rightarrow> Inl (Raised (''Role '' @ [CHR 0x27] @ role @ [CHR 0x27] @ '' requires '' @ [CHR 0x27] @ key @
                            [CHR 0x27] @ '' route parameter''))
            | Some value \<Rightarrow> rbind (substituted role ps (tl rest)) (\<lambda>t. Inr (value @ t)))
         else rbind (substituted role ps s) (\<lambda>t. Inr (c # t)))"
  by pat_completeness auto
termination
  by (relation "measure (\<lambda>(_, _, s). length s)")
    (auto simp: le_less_trans [OF diff_le_self] le_imp_less_Suc le_diff_conv dropWhile_word_length trans_le_add1)

fun substitute :: "parameters \<Rightarrow> string list \<Rightarrow> auth_error + string list" where
  "substitute ps [] = Inr []"
| "substitute ps (r # rs) = rbind (substituted r ps r) (\<lambda>t. rbind (substitute ps rs) (\<lambda>ts. Inr (t # ts)))"

definition dynamic :: "string list \<Rightarrow> bool" where
  "dynamic roles \<longleftrightarrow> list_ex (\<lambda>r. CHR ''{'' \<in> set r) roles"

definition grants :: "string \<Rightarrow> string \<Rightarrow> bool" where
  "grants role expected \<longleftrightarrow> expected = role \<or> take (length role + 1) expected = role @ '':''"

definition match_roles :: "string list \<Rightarrow> string list \<Rightarrow> parameters \<Rightarrow> auth_error + bool" where
  "match_roles required roles ps =
     rbind (if dynamic required then substitute ps required else Inr required) (\<lambda>expected.
       Inr (list_ex (\<lambda>role. list_ex (grants role) expected) roles))"

definition with_roles :: "auth_env \<Rightarrow> auth_context \<Rightarrow> auth_context" where
  "with_roles ev c =
     c\<lparr>ac_identity := map_option (\<lambda>i. i\<lparr>ai_roles := Some (case ai_roles i of None \<Rightarrow> ev_roles ev (ai_id i) | Some rs \<Rightarrow> rs)\<rparr>)
                        (ac_identity c)\<rparr>"

definition roles_of :: "auth_context \<Rightarrow> string list" where
  "roles_of c = (case ac_identity c of None \<Rightarrow> [] | Some i \<Rightarrow> (case ai_roles i of None \<Rightarrow> [] | Some rs \<Rightarrow> rs))"

section \<open>Claims\<close>

fun matches :: "claim option \<Rightarrow> string \<Rightarrow> bool" where
  "matches None s \<longleftrightarrow> False"
| "matches (Some (One_claim v)) s \<longleftrightarrow> v = s"
| "matches (Some (Claims vs)) s \<longleftrightarrow> s \<in> set vs"

definition basename :: "string \<Rightarrow> string" where
  "basename host = (if CHR ''.'' \<in> set host then dropWhile (\<lambda>c. c \<noteq> CHR ''.'') host else host)"

definition codomain :: "auth_env \<Rightarrow> string \<Rightarrow> string \<Rightarrow> auth_error + bool" where
  "codomain ev authority iss =
     (case ev_url ev iss of
        None \<Rightarrow> Inl (Raised ''Invalid URL'')
      | Some (host, _) \<Rightarrow>
          (let base = basename host
           in Inr ((if base = [] then authority else drop (length authority - length base) authority) = base)))"

fun some_codomain :: "auth_env \<Rightarrow> string \<Rightarrow> string list \<Rightarrow> auth_error + bool" where
  "some_codomain ev authority [] = Inr False"
| "some_codomain ev authority (v # vs) =
     rbind (codomain ev authority v) (\<lambda>b. if b then Inr True else some_codomain ev authority vs)"

definition to_matcher :: "string \<Rightarrow> auth_error + matcher" where
  "to_matcher e =
     (if take 1 e = '':'' then
        (if tl e = ''authority'' then Inr By_authority
         else if tl e = ''domain'' then Inr By_domain
         else Inl (Raised (''Unknown `auth:claims` syntax: '' @ e)))
      else if take 2 e = ''/:'' then Inr (By_parameter (drop 2 e))
      else Inr (By_value e))"

fun claim_matches :: "auth_env \<Rightarrow> auth_context \<Rightarrow> parameters \<Rightarrow> matcher \<Rightarrow> claim option \<Rightarrow> auth_error + bool" where
  "claim_matches ev c ps By_authority v = Inr (matches v (ac_authority c))"
| "claim_matches ev c ps By_domain v =
     (case v of
        None \<Rightarrow> codomain ev (ac_authority c) ''undefined''
      | Some (One_claim s) \<Rightarrow> codomain ev (ac_authority c) s
      | Some (Claims vs) \<Rightarrow> some_codomain ev (ac_authority c) vs)"
| "claim_matches ev c ps (By_parameter name) v = Inr (list_ex (\<lambda>(n, x). n = name \<and> matches v x) ps)"
| "claim_matches ev c ps (By_value s) v = Inr (matches v s)"

fun claims_match :: "auth_env \<Rightarrow> auth_context \<Rightarrow> parameters \<Rightarrow> (string \<times> claim) list \<Rightarrow> (string \<times> matcher) list \<Rightarrow> auth_error + bool" where
  "claims_match ev c ps cs [] = Inr True"
| "claims_match ev c ps cs ((k, m) # ms) =
     rbind (claim_matches ev c ps m (map_of cs k)) (\<lambda>ok. if ok then claims_match ev c ps cs ms else Inr False)"

section \<open>Incepting an identity\<close>

definition acceptable :: "auth_context \<Rightarrow> bool" where
  "acceptable c \<longleftrightarrow> ac_authorization c = None \<or> ac_rejection c = Some UNKNOWN"

text \<open>An identity nobody has yet; what it is known by is minted.\<close>

definition create_identity :: "auth_env \<Rightarrow> string option \<Rightarrow> auth_identity" where
  "create_identity ev credentials =
     \<lparr>ai_id = ev_newid ev, ai_roles = Some [], ai_permissions = None, ai_aud = None,
      ai_scheme = map_option (\<lambda>a. hd (split_on (CHR '' '') a)) credentials, ai_provider = None, ai_refresh = False,
      ai_claims = None\<rparr>"

definition incept :: "auth_env \<Rightarrow> auth_context \<Rightarrow> string \<Rightarrow> string \<Rightarrow> auth_error + auth_identity" where
  "incept ev c authorization i =
     rbind (split_authorization authorization) (\<lambda>(scheme, credentials).
       case providers scheme of
         None \<Rightarrow> Inl (BadRequest ''Authentication scheme is not supported'')
       | Some candidates \<Rightarrow>
           (case find (\<lambda>p. p \<in> set INCEPTION) candidates of
              None \<Rightarrow> Inl (Unauthorized [])
            | Some provider \<Rightarrow>
                if ev_banned ev i then Inl (Unauthorized [])
                else (case ev_incept ev provider scheme (ac_authority c) i credentials of
                        Inl e \<Rightarrow> Inl (UnprocessableEntity e)
                      | Inr identity \<Rightarrow> Inr (identity\<lparr>ai_scheme := Some scheme\<rparr>))))"

section \<open>Directives\<close>

text \<open>
  \<open>authorize\<close> of each directive. A directive is handed the identity of the context as it was when it
  was asked, which a rule passes on to each of its own: \<open>known\<close> is whether that was an identity.
\<close>

definition anonymous_authorize :: "bool \<Rightarrow> auth_context \<Rightarrow> (auth_error + bool) \<times> auth_context" where
  "anonymous_authorize allow c =
     (Inr (if ac_procedural c \<or> ac_exploratory c then allow else ac_authorization c = None \<and> allow), c)"

definition anyone_authorize :: "bool \<Rightarrow> auth_context \<Rightarrow> (auth_error + bool) \<times> auth_context" where
  "anyone_authorize allow c =
     (Inr (ac_identity c \<noteq> None \<and> allow), c)"

definition id_authorize :: "parameters \<Rightarrow> bool \<Rightarrow> string \<Rightarrow> auth_context \<Rightarrow> (auth_error + bool) \<times> auth_context" where
  "id_authorize ps known parameter c =
     (Inr (known \<and> ac_identity c \<noteq> None \<and> map_of ps parameter = map_option ai_id (ac_identity c)), c)"

definition role_authorize :: "auth_env \<Rightarrow> parameters \<Rightarrow> bool \<Rightarrow> string list \<Rightarrow> auth_context \<Rightarrow> (auth_error + bool) \<times> auth_context" where
  "role_authorize ev ps known roles c =
     (if \<not> known then (Inr False, c)
      else (match_roles roles (roles_of (with_roles ev c)) ps, with_roles ev c))"

definition incept_authorize :: "bool \<Rightarrow> auth_context \<Rightarrow> (auth_error + bool) \<times> auth_context" where
  "incept_authorize known c =
     (Inr (\<not> known \<and> acceptable c), c)"

definition assert_authorize :: "auth_env \<Rightarrow> bool \<Rightarrow> bool \<Rightarrow> auth_context \<Rightarrow> (auth_error + bool) \<times> auth_context" where
  "assert_authorize ev known disabled c =
     (if disabled then (Inr False, c)
      else
        (case ac_authorization c of
           None \<Rightarrow> (Inl (Unauthorized []), c)
         | Some a \<Rightarrow>
             if known then (Inr False, c)
             else if \<not> acceptable c then (Inl (Unauthorized []), c)
             else
               (case incept ev c a (ev_newid ev) of
                  Inl e \<Rightarrow> (Inl e, c)
                | Inr i \<Rightarrow> (Inr False, c\<lparr>ac_identity := Some i, ac_created := True\<rparr>))))"

definition scheme_authorize :: "string \<Rightarrow> string \<Rightarrow> auth_context \<Rightarrow> (auth_error + bool) \<times> auth_context" where
  "scheme_authorize scheme named c =
     (case ac_authorization c of
        None \<Rightarrow> (Inr False, c)
      | Some a \<Rightarrow>
          (rbind (split_authorization a) (\<lambda>(presented, _).
             if presented \<noteq> scheme
             then Inl (Forbidden (named @ '' authentication scheme is required to access this resource''))
             else Inr False), c))"

definition echo_authorize :: "auth_env \<Rightarrow> bool \<Rightarrow> auth_context \<Rightarrow> (auth_error + bool) \<times> auth_context" where
  "echo_authorize ev known c =
     (if \<not> known \<and> ac_authorization c \<noteq> None then (Inr False, c)
      else (Inr True, if ac_identity c = None then c\<lparr>ac_identity := Some (create_identity ev None)\<rparr> else c))"

definition refresh_authorize :: "auth_env \<Rightarrow> bool \<Rightarrow> auth_context \<Rightarrow> (auth_error + bool) \<times> auth_context" where
  "refresh_authorize ev known c =
     (if \<not> known then (Inr False, c)
      else if Option.bind (ac_identity c) ai_provider \<noteq> Some PRIMARY then (Inr True, c)
      else
        (case ac_authorization c of
           None \<Rightarrow> (Inl (Raised ''Cannot read properties of undefined''), c)
         | Some a \<Rightarrow>
             (case split_authorization a of
                Inl e \<Rightarrow> (Inl e, c)
              | Inr (_, credentials) \<Rightarrow>
                  (case ev_authenticate ev PRIMARY None (ac_authority c) credentials True of
                     Rejects code \<Rightarrow> (if code = Some UNREFRESHABLE then Inr False else Inl (Unauthorized []), c)
                   | Identifies _ _ \<Rightarrow>
                       (Inr True, c\<lparr>ac_identity := map_option (\<lambda>i. i\<lparr>ai_refresh := True\<rparr>) (ac_identity c)\<rparr>)))))"

definition delegate_authorize :: "auth_env \<Rightarrow> bool \<Rightarrow> string \<Rightarrow> auth_context \<Rightarrow> (auth_error + bool) \<times> auth_context" where
  "delegate_authorize ev known property c =
     (if \<not> known then (Inr False, c)
      else (Inr True, (with_roles ev c)\<lparr>ac_body := ac_body c @ [Embeds_identity property]\<rparr>))"

definition federation_authorize :: "auth_env \<Rightarrow> parameters \<Rightarrow> bool \<Rightarrow> (string \<times> matcher) list \<Rightarrow> auth_context \<Rightarrow> (auth_error + bool) \<times> auth_context" where
  "federation_authorize ev ps known matchers c =
     (case Option.bind (ac_identity c) ai_claims of
        None \<Rightarrow> (Inr False, c)
      | Some claims \<Rightarrow> (if known then claims_match ev c ps claims matchers else Inr False, c))"

definition input_authorize :: "parameters \<Rightarrow> bool \<Rightarrow> (string list \<times> auth_directive list) list \<Rightarrow> auth_context \<Rightarrow> (auth_error + bool) \<times> auth_context" where
  "input_authorize ps known statements c =
     (Inr False, c\<lparr>ac_body := ac_body c @ [Checks statements known ps]\<rparr>)"

definition transfer_authorize :: "string \<Rightarrow> auth_context \<Rightarrow> (auth_error + bool) \<times> auth_context" where
  "transfer_authorize property c =
     (if ac_procedural c then (Inr False, c)
      else (Inr True,
            case ac_authorization c of
              None \<Rightarrow> c
            | Some a \<Rightarrow> c\<lparr>ac_body := ac_body c @ [Embeds_credential property a]\<rparr>))"

lemmas authorize_defs [simp] =
  anonymous_authorize_def anyone_authorize_def id_authorize_def role_authorize_def incept_authorize_def assert_authorize_def
  scheme_authorize_def echo_authorize_def refresh_authorize_def delegate_authorize_def federation_authorize_def input_authorize_def transfer_authorize_def

fun authorize :: "auth_env \<Rightarrow> parameters \<Rightarrow> bool \<Rightarrow> auth_directive \<Rightarrow> auth_context \<Rightarrow> (auth_error + bool) \<times> auth_context"
  and authorize_every :: "auth_env \<Rightarrow> parameters \<Rightarrow> bool \<Rightarrow> auth_directive list \<Rightarrow> auth_context \<Rightarrow> (auth_error + bool) \<times> auth_context" where
  "authorize ev ps known (Anonymous allow) c = anonymous_authorize allow c"
| "authorize ev ps known (Anyone allow) c = anyone_authorize allow c"
| "authorize ev ps known (Id_of parameter) c = id_authorize ps known parameter c"
| "authorize ev ps known (Role roles) c = role_authorize ev ps known roles c"
| "authorize ev ps known (Rule ds) c = authorize_every ev ps known ds c"
| "authorize ev ps known (Incept property) c = incept_authorize known c"
| "authorize ev ps known (Assert disabled) c = assert_authorize ev known disabled c"
| "authorize ev ps known (Scheme scheme named) c = scheme_authorize scheme named c"
| "authorize ev ps known Echo c = echo_authorize ev known c"
| "authorize ev ps known Refresh c = refresh_authorize ev known c"
| "authorize ev ps known (Delegate property) c = delegate_authorize ev known property c"
| "authorize ev ps known (Federation matchers) c = federation_authorize ev ps known matchers c"
| "authorize ev ps known (Input statements) c = input_authorize ps known statements c"
| "authorize ev ps known (Transfer property) c = transfer_authorize property c"
| "authorize_every ev ps known [] c = (Inr True, c)"
| "authorize_every ev ps known (d # ds) c =
     (case authorize ev ps known d c of
        (Inr True, c') \<Rightarrow> authorize_every ev ps known ds c'
      | r \<Rightarrow> r)"


section \<open>The family\<close>

text \<open>\<open>arrange\<close>: a transfer leaves nothing else to decide; what checks a body goes first.\<close>

definition arrange :: "auth_directive list \<Rightarrow> auth_directive list" where
  "arrange ds =
     (let ds' = (case find (\<lambda>d. case d of Transfer _ \<Rightarrow> True | _ \<Rightarrow> False) ds of None \<Rightarrow> ds | Some t \<Rightarrow> [t])
      in sort_key (\<lambda>d. case d of Input _ \<Rightarrow> 0 | _ \<Rightarrow> (1 :: nat)) ds')"









subsection \<open>Authentication\<close>

definition prefixed :: "string \<Rightarrow> string \<Rightarrow> bool" where
  "prefixed scope path \<longleftrightarrow>
     (let prefix = (if scope \<noteq> [] \<and> last scope = CHR ''/'' then butlast scope else scope)
      in prefix = [] \<or> path = prefix \<or> take (length prefix + 1) path = prefix @ ''/'')"

definition covers :: "auth_env \<Rightarrow> string \<Rightarrow> string \<Rightarrow> string \<Rightarrow> bool" where
  "covers ev hostname path value =
     (if take 1 value = ''/'' then prefixed value path
      else (case ev_url ev value of
              None \<Rightarrow> False
            | Some (host, scope) \<Rightarrow> host = hostname \<and> prefixed scope path))"

definition audience :: "auth_env \<Rightarrow> string list \<Rightarrow> auth_context \<Rightarrow> bool" where
  "audience ev audiences c \<longleftrightarrow> list_ex (covers ev (ac_hostname c) (ac_path c)) audiences"

text \<open>The first provider that does not decline has claimed the credentials.\<close>

fun ask :: "(string \<Rightarrow> authenticated) \<Rightarrow> string list \<Rightarrow> (string \<times> authenticated) option" where
  "ask answer [] = None"
| "ask answer (p # ps) = (if answer p = Rejects (Some UNRECOGNIZED) then ask answer ps else Some (p, answer p))"

definition rejected :: "string option \<Rightarrow> auth_context \<Rightarrow> auth_context" where
  "rejected code c = (case code of None \<Rightarrow> c | Some _ \<Rightarrow> c\<lparr>ac_rejection := code\<rparr>)"

text \<open>
  \<open>resolve\<close>, with the meter of failed attempts where there is one: it is checked as the request comes,
  at \<open>now\<close>, and charged where the credentials are rejected, at \<open>later\<close>.
\<close>

definition resolve_identity ::
  "auth_env \<Rightarrow> rat \<Rightarrow> rat \<Rightarrow> quotas option \<Rightarrow> auth_context \<Rightarrow>
   (auth_error + auth_identity option) \<times> auth_context \<times> quotas option" where
  "resolve_identity ev now later quota c =
     (case ac_authorization c of
        None \<Rightarrow> (Inr None, c, quota)
      | Some a \<Rightarrow>
          (let checked = map_option (check (ev_sha256 ev) now (ac_client c) []) quota;
               retry = (case checked of None \<Rightarrow> 0 | Some (r, _) \<Rightarrow> r);
               quota' = map_option snd checked
           in if 0 < retry then (Inl (TooManyRequests retry), c, quota')
              else
                (case split_authorization a of
                   Inl e \<Rightarrow> (Inl e, c, quota')
                 | Inr (scheme, credentials) \<Rightarrow>
                     (case providers scheme of
                        None \<Rightarrow> (Inl (Unauthorized (''Unknown authentication scheme '' @ [CHR 0x27] @ scheme @ [CHR 0x27])), c, quota')
                      | Some candidates \<Rightarrow>
                          (case ask (\<lambda>p. ev_authenticate ev p (Some scheme) (ac_authority c) credentials False) candidates of
                             None \<Rightarrow>
                               (Inr None, rejected (Some UNRECOGNIZED) c,
                                map_option (use_quota (ev_sha256 ev) later (ac_client c) None) quota')
                           | Some (provider, Rejects code) \<Rightarrow>
                               (Inr None, rejected code c,
                                map_option (use_quota (ev_sha256 ev) later (ac_client c) None) quota')
                           | Some (provider, Identifies i refresh) \<Rightarrow>
                               if provider \<noteq> PRIMARY \<and> ev_banned ev (ai_id i) then (Inl (Unauthorized []), c, quota')
                               else
                                 (Inr (Some (i\<lparr>ai_scheme := Some scheme, ai_provider := Some provider, ai_refresh := refresh\<rparr>)),
                                  if provider \<noteq> PRIMARY then c\<lparr>ac_vetted := True\<rparr> else c, quota'))))))"

definition authenticate ::
  "auth_env \<Rightarrow> rat \<Rightarrow> rat \<Rightarrow> quotas option \<Rightarrow> auth_context \<Rightarrow> (auth_error + unit) \<times> auth_context \<times> quotas option" where
  "authenticate ev now later quota c =
     (case resolve_identity ev now later quota c of
        (Inl e, c', quota') \<Rightarrow> (Inl e, c', quota')
      | (Inr identity, c', quota') \<Rightarrow>
          (case Option.bind identity ai_aud of
             Some audiences \<Rightarrow> if audience ev audiences c' then Inr () else Inl (Unauthorized [])
           | None \<Rightarrow> Inr (),
           c'\<lparr>ac_identity := identity\<rparr>, quota'))"

definition auth_preflight ::
  "auth_env \<Rightarrow> rat \<Rightarrow> rat \<Rightarrow> quotas option \<Rightarrow> auth_directive list option \<Rightarrow> auth_context \<Rightarrow>
   (auth_error + unit) \<times> auth_context \<times> quotas option" where
  "auth_preflight ev now later quota ds c =
     (if ac_authorization c = None then (Inr (), c\<lparr>ac_identity := None\<rparr>, quota)
      else if (case ds of None \<Rightarrow> False | Some ds \<Rightarrow> list_ex (\<lambda>d. case d of Transfer _ \<Rightarrow> True | _ \<Rightarrow> False) ds)
      then (Inr (), c\<lparr>ac_identity := None\<rparr>, quota)
      else authenticate ev now later quota c)"

text \<open>The meter of failed attempts: charged by a rejection, keyed by address.\<close>

definition bouncer :: "(rat \<Rightarrow> string) \<Rightarrow> nat option \<Rightarrow> rat option \<Rightarrow> quotas" where
  "bouncer shown attempts interval =
     new_quotas shown \<lparr>k_components = [By_ip], k_conditions = None\<rparr>
       (case attempts of None \<Rightarrow> 20 | Some n \<Rightarrow> n) ((case interval of None \<Rightarrow> 60 | Some t \<Rightarrow> t) * 1000) True
       (Some ''credentials'')"

subsection \<open>Leaving\<close>

text \<open>\<open>depart\<close>: the token that goes back with the response, where one does.\<close>

definition auth_depart :: "auth_env \<Rightarrow> auth_context \<Rightarrow> (auth_error + string option) \<times> auth_context" where
  "auth_depart ev c =
     (case ac_identity c of
        None \<Rightarrow> (Inr None, c)
      | Some i \<Rightarrow>
          if ai_provider i = Some PRIMARY \<and> \<not> ai_refresh i then (Inr None, c)
          else if \<not> ac_vetted c \<and> ev_banned ev (ai_id i) then (Inl (Unauthorized []), c)
          else
            (let i' = i\<lparr>ai_roles := Some (case (ai_provider i = Some PRIMARY, ai_roles i) of
                                            (False, Some rs) \<Rightarrow> rs
                                          | _ \<Rightarrow> ev_roles ev (ai_id i))\<rparr>
             in (Inr (Some (''Token '' @ ev_encrypt ev (ac_authority c) i')), c\<lparr>ac_identity := Some i'\<rparr>)))"

text \<open>
  \<open>settle\<close> of the directives that have it. What is returned with the context is whether the response
  may not be stored; \<open>body\<close> is the body of the response.
\<close>

definition incept_settle :: "auth_env \<Rightarrow> string option \<Rightarrow> props \<Rightarrow> auth_context \<Rightarrow> (auth_error + unit) \<times> auth_context" where
  "incept_settle ev property body c =
     (case map_of body (case property of None \<Rightarrow> ''id'' | Some p \<Rightarrow> p) of
        None \<Rightarrow> (Inr (), c)
      | Some Undef \<Rightarrow> (Inr (), c)
      | Some (Str i) \<Rightarrow>
          (case ac_authorization c of
             Some a \<Rightarrow>
               (case incept ev c a i of
                  Inl e \<Rightarrow> (Inl e, c)
                | Inr identity \<Rightarrow> (Inr (), c\<lparr>ac_identity := Some identity\<rparr>))
           | None \<Rightarrow>
               (Inr (), c\<lparr>ac_identity := Some \<lparr>ai_id = i, ai_roles = Some (ev_roles ev i), ai_permissions = None, ai_aud = None,
                   ai_scheme = None, ai_provider = None, ai_refresh = True, ai_claims = None\<rparr>\<rparr>))
      | Some _ \<Rightarrow>
          (Inl (Raised (''Response body property '' @ [CHR 0x22] @
                 (case property of None \<Rightarrow> ''null'' | Some p \<Rightarrow> p) @ [CHR 0x22] @ '' expected to be a string'')), c))"

subsection \<open>Bodies\<close>

text \<open>
  What \<open>auth:input\<close> looks at: an object whose \<open>constructor\<close> is the language's, so one with a property of
  that name is not. A property an object inherits is in it too.
\<close>

fun examined :: "val \<Rightarrow> props option" where
  "examined (Obj ps) = (if map_of ps ''constructor'' = None then Some ps else None)"
| "examined _ = None"

definition in_body :: "props \<Rightarrow> string \<Rightarrow> bool" where
  "in_body ps p \<longleftrightarrow> map_of ps p \<noteq> None \<or> p \<in> set inherited"

definition statement_check ::
  "auth_env \<Rightarrow> parameters \<Rightarrow> bool \<Rightarrow> props \<Rightarrow> string list \<times> auth_directive list \<Rightarrow> auth_context \<Rightarrow> (auth_error + unit) \<times> auth_context" where
  "statement_check ev ps known body st c =
     (if \<not> list_ex (in_body body) (fst st) then (Inr (), c)
      else (case authorize_every ev ps known (snd st) c of
              (Inl e, c') \<Rightarrow> (Inl e, c')
            | (Inr True, c') \<Rightarrow> (Inr (), c')
            | (Inr False, c') \<Rightarrow> (Inl (Forbidden ''Input property is not authorized''), c')))"

text \<open>Every statement is checked, and the first that was refused is what is raised.\<close>

fun statements_check ::
  "auth_env \<Rightarrow> parameters \<Rightarrow> bool \<Rightarrow> props \<Rightarrow> (string list \<times> auth_directive list) list \<Rightarrow> auth_context \<Rightarrow> (auth_error + unit) \<times> auth_context" where
  "statements_check ev ps known body [] c = (Inr (), c)"
| "statements_check ev ps known body (st # sts) c =
     (case statement_check ev ps known body st c of
        (r, c') \<Rightarrow> (case statements_check ev ps known body sts c' of (r', c'') \<Rightarrow> (rbind r (\<lambda>_. r'), c'')))"

definition input_check ::
  "auth_env \<Rightarrow> parameters \<Rightarrow> bool \<Rightarrow> (string list \<times> auth_directive list) list \<Rightarrow> val \<Rightarrow> auth_context \<Rightarrow> (auth_error + val) \<times> auth_context" where
  "input_check ev ps known sts body c =
     (case examined body of
        None \<Rightarrow> (Inr body, c)
      | Some props \<Rightarrow> (case statements_check ev ps known props sts c of (r, c') \<Rightarrow> (rbind r (\<lambda>_. Inr body), c')))"

text \<open>
  What is put into a body before it is the input of a call; how an identity is written is a parameter,
  \<open>shown\<close>. Then the whole of it, in the order it was added.
\<close>

definition delegate_embed :: "string \<Rightarrow> val \<Rightarrow> val \<Rightarrow> auth_error + val" where
  "delegate_embed property identity body =
     (let body' = (if body = Undef then Obj [] else body)
      in if is_js_object body' then Inr (embed [(property, identity)] body') else Inl (BadRequest ''Invalid request body''))"

definition transfer_embed :: "string \<Rightarrow> string \<Rightarrow> val \<Rightarrow> auth_error + val" where
  "transfer_embed property credential body =
     (let body' = (if is_nullish body then Obj [] else body)
      in if is_js_object body' then Inr (embed [(property, Str credential)] body') else Inl (BadRequest ''Invalid request body''))"

fun piped :: "auth_env \<Rightarrow> (auth_identity \<Rightarrow> val) \<Rightarrow> pipe list \<Rightarrow> val \<Rightarrow> auth_context \<Rightarrow> (auth_error + val) \<times> auth_context" where
  "piped ev shown [] body c = (Inr body, c)"
| "piped ev shown (p # pipes) body c =
     (case (case p of
              Checks sts known ps \<Rightarrow> input_check ev ps known sts body c
            | Embeds_identity property \<Rightarrow>
                (delegate_embed property (case ac_identity c of None \<Rightarrow> Null | Some i \<Rightarrow> shown i) body, c)
            | Embeds_credential property credential \<Rightarrow> (transfer_embed property credential body, c)) of
        (Inl e, c') \<Rightarrow> (Inl e, c')
      | (Inr body', c') \<Rightarrow> piped ev shown pipes body' c')"

section \<open>Roles and scopes\<close>

text \<open>
  C32. A role is a scope and holds for what is within it: having one grants a required one exactly where
  the parts of the required one, between colons, begin with its own.
\<close>

theorem role_grants_scope:
  "grants role expected \<longleftrightarrow> (\<exists>rest. split_on (CHR '':'') expected = split_on (CHR '':'') role @ rest)"
proof
  assume "grants role expected"
  then consider "expected = role" | "expected = role @ CHR '':'' # drop (length role + 1) expected"
    unfolding grants_def by (metis append_Cons append_Nil append_assoc append_take_drop_id)
  then show "\<exists>rest. split_on (CHR '':'') expected = split_on (CHR '':'') role @ rest"
    by cases (auto, metis split_on_sep)
next
  assume "\<exists>rest. split_on (CHR '':'') expected = split_on (CHR '':'') role @ rest"
  then obtain rest where rest: "split_on (CHR '':'') expected = split_on (CHR '':'') role @ rest" by blast
  show "grants role expected"
  proof (cases "rest = []")
    case True
    then have "expected = role"
      using rest by (metis append_Nil2 join_split_on)
    then show ?thesis by (simp add: grants_def)
  next
    case False
    have "expected = join '':'' (split_on (CHR '':'') role @ rest)"
      by (metis rest join_split_on)
    also have "\<dots> = role @ '':'' @ join '':'' rest"
      using False by (simp add: join_append join_split_on)
    finally show ?thesis by (simp add: grants_def)
  qed
qed

section \<open>Who is admitted\<close>

text \<open>
  What a decision rests on of a context: what it presents, and who it is with the roles it has or would
  be found to have. A directive is steady where it never gives the context an identity.
\<close>

definition standing ::
  "auth_env \<Rightarrow> auth_context \<Rightarrow> string option \<times> bool \<times> bool \<times> (string \<times> string list) option" where
  "standing ev c =
     (ac_authorization c, ac_procedural c, ac_exploratory c,
      map_option (\<lambda>i. (ai_id i, case ai_roles i of None \<Rightarrow> ev_roles ev (ai_id i) | Some rs \<Rightarrow> rs)) (ac_identity c))"


lemma standing_with_roles [simp]: "standing ev (with_roles ev c) = standing ev c"
  by (simp add: standing_def with_roles_def option.map_comp comp_def split: option.splits)

lemma standing_body [simp]: "standing ev (c\<lparr>ac_body := b\<rparr>) = standing ev c"
  "standing ev (c\<lparr>ac_reads := r\<rparr>) = standing ev c"
  by (simp_all add: standing_def)

lemma standing_refresh [simp]:
  "standing ev (c\<lparr>ac_identity := map_option (\<lambda>i. i\<lparr>ai_refresh := x\<rparr>) (ac_identity c)\<rparr>) = standing ev c"
  by (cases "ac_identity c") (simp_all add: standing_def split: option.split)










section \<open>Who a credential names\<close>

lemma ask_Some:
  "ask answer ps = Some (p, r) \<Longrightarrow>
     \<exists>us vs. ps = us @ p # vs \<and> list_all (\<lambda>u. answer u = Rejects (Some UNRECOGNIZED)) us \<and> r = answer p"
proof (induction ps)
  case (Cons q ps)
  show ?case
  proof (cases "answer q = Rejects (Some UNRECOGNIZED)")
    case True
    with Cons obtain us vs where "ps = us @ p # vs" "list_all (\<lambda>u. answer u = Rejects (Some UNRECOGNIZED)) us" "r = answer p"
      by auto
    with True show ?thesis
      by (intro exI [of _ "q # us"] exI [of _ vs]) simp
  next
    case False
    with Cons.prems show ?thesis
      by (intro exI [of _ "[]"] exI [of _ ps]) auto
  qed
qed simp

text \<open>
  C26. A request is somebody only by a provider's word: where a credential was read and names an
  identity, the first provider of its scheme that recognized the credential named it; it is not banned,
  unless it is a token, which is asked about as it is issued again; and what it was issued for covers
  the request.
\<close>

theorem preflight_names:
  assumes "auth_preflight ev now later quota ds c = (Inr (), c', quota')" "ac_identity c' = Some i"
  shows "\<exists>a scheme credentials us p vs i' refresh.
    ac_authorization c = Some a \<and> split_authorization a = Inr (scheme, credentials) \<and> providers scheme = Some (us @ p # vs) \<and>
    list_all (\<lambda>u. ev_authenticate ev u (Some scheme) (ac_authority c) credentials False = Rejects (Some UNRECOGNIZED)) us \<and>
    ev_authenticate ev p (Some scheme) (ac_authority c) credentials False = Identifies i' refresh \<and> ai_id i = ai_id i' \<and>
    (p = PRIMARY \<or> \<not> ev_banned ev (ai_id i)) \<and> (case ai_aud i of None \<Rightarrow> True | Some as \<Rightarrow> audience ev as c)"
proof -
  obtain a where a: "ac_authorization c = Some a" and auth: "authenticate ev now later quota c = (Inr (), c', quota')"
    using assms by (auto simp: auth_preflight_def split: if_splits)
  then obtain c1 where res: "resolve_identity ev now later quota c = (Inr (Some i), c1, quota')"
    and aud: "case ai_aud i of None \<Rightarrow> True | Some as \<Rightarrow> audience ev as c1"
    using assms(2) by (auto simp: authenticate_def split: prod.splits sum.splits option.splits if_splits)
  from res a obtain scheme credentials candidates p i' refresh
    where split: "split_authorization a = Inr (scheme, credentials)" and cands: "providers scheme = Some candidates"
      and ask: "ask (\<lambda>p. ev_authenticate ev p (Some scheme) (ac_authority c) credentials False) candidates =
        Some (p, Identifies i' refresh)"
      and i: "i = i'\<lparr>ai_scheme := Some scheme, ai_provider := Some p, ai_refresh := refresh\<rparr>"
      and ban: "p = PRIMARY \<or> \<not> ev_banned ev (ai_id i')" and c1: "c1 = (if p \<noteq> PRIMARY then c\<lparr>ac_vetted := True\<rparr> else c)"
    by (auto simp: resolve_identity_def Let_def split: if_splits sum.splits option.splits authenticated.splits prod.splits)
  have "audience ev as c1 = audience ev as c" for as
    by (simp add: c1 audience_def)
  with aud have aud': "case ai_aud i of None \<Rightarrow> True | Some as \<Rightarrow> audience ev as c"
    by (cases "ai_aud i") simp_all
  from ask_Some [OF ask] obtain us vs where us: "candidates = us @ p # vs"
      "list_all (\<lambda>u. ev_authenticate ev u (Some scheme) (ac_authority c) credentials False = Rejects (Some UNRECOGNIZED)) us"
      "ev_authenticate ev p (Some scheme) (ac_authority c) credentials False = Identifies i' refresh"
    by force
  show ?thesis
    by (intro exI [of _ a] exI [of _ scheme] exI [of _ credentials] exI [of _ us] exI [of _ p] exI [of _ vs]
        exI [of _ i'] exI [of _ refresh]) (use a split cands us ban aud' in \<open>simp add: i\<close>)
qed

section \<open>What gets around a directive\<close>


text \<open>
  Of an issuer with a name of two parts, \<open>:domain\<close> keeps only what both end with: any issuer of one
  top-level domain is taken for another's.
\<close>

lemma domain_of_stranger:
  "ev_url ev ''https://evil.com'' = Some (''evil.com'', ''/'') \<Longrightarrow>
     claim_matches ev (c\<lparr>ac_authority := ''images.example.com''\<rparr>) ps By_domain (Some (One_claim ''https://evil.com'')) = Inr True"
  by (simp add: codomain_def basename_def Let_def)

section \<open>Witnesses\<close>

definition sample_identity :: auth_identity where
  "sample_identity =
     \<lparr>ai_id = ''ann'', ai_roles = None, ai_permissions = None, ai_aud = Some [''/pots/''], ai_scheme = None, ai_provider = None,
      ai_refresh = False, ai_claims = None\<rparr>"

definition sample_env :: auth_env where
  "sample_env =
     \<lparr>ev_roles = (\<lambda>_. [''app'']), ev_banned = (\<lambda>i. i = ''bob''),
      ev_authenticate = (\<lambda>p _ _ credentials _.
        if p = ''federation'' \<and> credentials = ''abc'' then Identifies sample_identity False else Rejects (Some UNRECOGNIZED)),
      ev_incept = (\<lambda>_ _ _ _ _. Inl ''no''), ev_newid = ''new'', ev_url = (\<lambda>_. None), ev_glob = (=), ev_encrypt = (\<lambda>_ _. []),
      ev_sha256 = id\<rparr>"

definition sample_context :: auth_context where
  "sample_context =
     \<lparr>ac_authorization = Some ''Bearer abc'', ac_authority = ''toa.io'', ac_method = ''GET'', ac_path = ''/pots/1/'',
      ac_hostname = ''toa.io'', ac_procedural = False, ac_exploratory = False, ac_client = sample_request,
      ac_identity = None, ac_rejection = None, ac_vetted = False, ac_reads = False, ac_body = [], ac_created = False\<rparr>"

definition named_context :: auth_context where
  "named_context = sample_context\<lparr>ac_identity := Some sample_identity\<rparr>"



lemma preflight_names_witness:
  "\<exists>us p. providers ''bearer'' = Some (us @ [p]) \<and> us = [PRIMARY] \<and> p = ''federation'' \<and>
     \<not> ev_banned sample_env ''ann'' \<and> audience sample_env [''/pots/''] sample_context"
proof -
  have res: "case auth_preflight sample_env 0 0 None None sample_context of
      (Inr (), c', q) \<Rightarrow> map_option ai_id (ac_identity c') = Some ''ann'' \<and> Option.bind (ac_identity c') ai_aud = Some [''/pots/'']
    | _ \<Rightarrow> False"
    by code_simp
  then obtain c' q i where "auth_preflight sample_env 0 0 None None sample_context = (Inr (), c', q)"
    and i: "ac_identity c' = Some i" "ai_id i = ''ann''" "ai_aud i = Some [''/pots/'']"
    by (auto split: prod.splits sum.splits unit.splits)
  from preflight_names [OF this(1,2)] i(2,3) show ?thesis
    by (auto simp: sample_context_def split_authorization_def lower_def providers_def PROVIDERS_def sample_env_def PRIMARY_def
        Cons_eq_append_conv split: if_splits)
qed

end
