(* ===== verification/Reorder.thy ===== *)
theory Reorder
  imports Prelude "HOL-Library.Multiset" "HOL-Library.List_Lexorder" "HOL-Library.Char_ord"
begin

text \<open>
  Objects whose keys are put in order before they are read, as more than one part of the program does: in
  whatever order the keys were written, what is read is one.
\<close>

lemma sort_key_perm:
  assumes "mset xs = mset ys" "inj_on f (set xs)"
  shows "sort_key f xs = sort_key f ys"
proof (rule properties_for_sort_key)
  show "mset (sort_key f ys) = mset xs" using assms(1) by simp
  show "sorted (map f (sort_key f ys))" by simp
next
  fix x
  assume "x \<in> set (sort_key f ys)"
  then have x: "x \<in> set xs" using assms(1) by (metis mset_eq_setD set_sort)
  have same: "filter (\<lambda>y. f x = f y) zs = replicate (count (mset xs) x) x" if "mset zs = mset xs" for zs
  proof -
    have "inj_on f (insert x (set zs))"
      using assms(2) x mset_eq_setD [OF that] by (simp add: insert_absorb)
    then show ?thesis
      by (simp add: inj_on_filter_key_eq replicate_count_mset_eq_filter_eq flip: that)
  qed
  show "filter (\<lambda>y. f x = f y) (sort_key f ys) = filter (\<lambda>y. f x = f y) xs"
    using same [of "sort_key f ys"] same [of xs] assms(1) by simp
qed

lemma sort_keys_perm:
  assumes "mset ps = mset qs" "distinct (map fst ps)"
  shows "sort_key fst ps = sort_key fst qs"
  by (rule sort_key_perm [OF assms(1)]) (use assms(2) in \<open>simp add: distinct_map\<close>)

end
