(* ===== verification/Cadence.thy ===== *)
theory Cadence
  imports Atomicity Identity Contract Reorder "HOL-Library.List_Lexorder"
    "HOL-Library.Char_ord" "HOL-Library.Product_Lexorder"
begin

text \<open>
  Calls made later: \<open>extensions/cadence/source/{row,Schedule,Pulse,Scheduler,Aspect,Factory}.ts\<close>, the
  operations of \<open>extensions/cadence/components/cadence.metronome\<close> and
  \<open>definitions/source/extensions.cadence/{schedule,const,manifest}.ts\<close>.

  A delayed call is a row; a schedule an operation hands over is one row that moves on from occurrence
  to occurrence; a schedule a manifest states stores a row for each occurrence as it becomes the next;
  a pulse stores nothing. What a cron expression means is a library's, and a parameter: \<open>cron\<close> reads an
  expression and a zone, and answers what comes first after a moment. Times are milliseconds. Chance,
  the clock and the digest of identities are given.
\<close>

section \<open>Occurrences\<close>

type_synonym cron = "string \<Rightarrow> string \<Rightarrow> string + (int \<Rightarrow> int option)"

fun words :: "string \<Rightarrow> nat" where
  "words [] = 0"
| "words (c # s) = (if is_space c then words s else if s = [] \<or> is_space (hd s) then Suc (words s) else words s)"

definition fields :: "string \<Rightarrow> nat" where
  "fields s = max 1 (words s)"

definition occurrences :: "cron \<Rightarrow> int \<Rightarrow> string \<Rightarrow> string \<Rightarrow> string + (int \<Rightarrow> int option)" where
  "occurrences cron now expression zone =
     (if fields expression \<noteq> 5 \<and> fields expression \<noteq> 6
      then Inl ([CHR 0x27] @ expression @ [CHR 0x27] @ '' is not a cron expression of five or six fields'')
      else rbind (cron expression zone) (\<lambda>next.
             if next now = None then Inl ([CHR 0x27] @ expression @ [CHR 0x27] @ '' never comes due'') else Inr next))"

text \<open>What the library promises: what comes after a moment is after it, and nothing is between.\<close>

definition calendar :: "(int \<Rightarrow> int option) \<Rightarrow> bool" where
  "calendar next \<longleftrightarrow>
     (\<forall>a t. next a = Some t \<longrightarrow> a < t \<and> (\<forall>b. a \<le> b \<and> b < t \<longrightarrow> next b = Some t)) \<and>
     (\<forall>a b. next a = None \<and> a \<le> b \<longrightarrow> next b = None)"

lemma calendar_after: "calendar next \<Longrightarrow> next a = Some t \<Longrightarrow> a < t"
  unfolding calendar_def by blast

lemma calendar_same: "calendar next \<Longrightarrow> next a = Some t \<Longrightarrow> a \<le> b \<Longrightarrow> b < t \<Longrightarrow> next b = Some t"
  unfolding calendar_def by blast

section \<open>Rows\<close>

definition CADENCE_LANES :: nat where "CADENCE_LANES = 128"
definition MAX_SAFE_INTEGER :: int where "MAX_SAFE_INTEGER = 2 ^ 53 - 1"

record delayed =
  dl_id :: string
  dl_lane :: nat
  dl_due :: int
  dl_expires :: int
  dl_endpoint :: string
  dl_request :: "props option"
  dl_trail :: "string list option"
  dl_schedule :: "string option"
  dl_zone :: "string option"
  dl_overdue :: "int option"
  dl_deleted :: "int option"

text \<open>\<open>row\<close> and \<open>recurring\<close>: the lane is drawn, and is given.\<close>

definition row_of :: "string \<Rightarrow> nat \<Rightarrow> string \<Rightarrow> int \<Rightarrow> int option \<Rightarrow> props option \<Rightarrow> string list option \<Rightarrow> delayed" where
  "row_of i lane endpoint due overdue request trail =
     \<lparr>dl_id = i, dl_lane = lane, dl_due = due,
      dl_expires = (case overdue of None \<Rightarrow> MAX_SAFE_INTEGER | Some d \<Rightarrow> due + d),
      dl_endpoint = endpoint, dl_request = request, dl_trail = trail, dl_schedule = None, dl_zone = None,
      dl_overdue = None, dl_deleted = None\<rparr>"

definition recurring ::
  "string \<Rightarrow> nat \<Rightarrow> string \<Rightarrow> int \<Rightarrow> props option \<Rightarrow> string \<Rightarrow> string \<Rightarrow> int option \<Rightarrow> int option \<Rightarrow> delayed" where
  "recurring i lane endpoint due request schedule zone overdue expires =
     \<lparr>dl_id = i, dl_lane = lane, dl_due = due,
      dl_expires = (case expires of None \<Rightarrow> MAX_SAFE_INTEGER | Some e \<Rightarrow> e),
      dl_endpoint = endpoint, dl_request = request, dl_trail = None, dl_schedule = Some schedule, dl_zone = Some zone,
      dl_overdue = overdue, dl_deleted = None\<rparr>"

definition next_of :: "cron \<Rightarrow> int \<Rightarrow> delayed \<Rightarrow> int \<Rightarrow> string + int option" where
  "next_of cron now r moment =
     rbind (occurrences cron now (case dl_schedule r of None \<Rightarrow> [] | Some s \<Rightarrow> s) (case dl_zone r of None \<Rightarrow> [] | Some z \<Rightarrow> z))
       (\<lambda>next. Inr (next moment))"

definition bound :: "cron \<Rightarrow> int \<Rightarrow> delayed \<Rightarrow> string + int" where
  "bound cron now r =
     (case dl_overdue r of
        Some d \<Rightarrow> Inr (dl_due r + d)
      | None \<Rightarrow> rbind (next_of cron now r (dl_due r)) (\<lambda>t. Inr (case t of None \<Rightarrow> MAX_SAFE_INTEGER | Some t \<Rightarrow> t)))"

definition following :: "cron \<Rightarrow> delayed \<Rightarrow> int \<Rightarrow> string + int option" where
  "following cron r now =
     rbind (next_of cron now r (max now (dl_due r))) (\<lambda>t.
       Inr (case t of None \<Rightarrow> None | Some t \<Rightarrow> if dl_expires r < t then None else Some t))"

section \<open>The operations of the metronome\<close>

definition delay ::
  "string \<Rightarrow> nat \<Rightarrow> int \<Rightarrow> string \<Rightarrow> int \<Rightarrow> int option \<Rightarrow> props option \<Rightarrow> string list option \<Rightarrow> delayed" where
  "delay i lane now endpoint interval overdue request trail = row_of i lane endpoint (now + interval) overdue request trail"

text \<open>A tombstone committed without touching \<open>DELETED\<close> is revived.\<close>

definition resume :: "int \<Rightarrow> nat \<Rightarrow> delayed \<Rightarrow> delayed" where
  "resume due lane r = r\<lparr>dl_due := due, dl_lane := lane, dl_deleted := None\<rparr>"

definition settle_row :: "cron \<Rightarrow> int \<Rightarrow> (string \<times> int) list \<Rightarrow> string list \<Rightarrow> delayed \<Rightarrow> string + delayed" where
  "settle_row cron now made ended r =
     (if dl_schedule r = None \<or> dl_id r \<in> set ended then Inr (r\<lparr>dl_deleted := Some now\<rparr>)
      else if map_of made (dl_id r) \<noteq> Some (dl_due r) then Inr r
      else rbind (following cron r now) (\<lambda>due.
             Inr (case due of None \<Rightarrow> r\<lparr>dl_deleted := Some now\<rparr> | Some t \<Rightarrow> r\<lparr>dl_due := t\<rparr>)))"

fun settle_rows :: "cron \<Rightarrow> int \<Rightarrow> (string \<times> int) list \<Rightarrow> string list \<Rightarrow> delayed list \<Rightarrow> string + delayed list" where
  "settle_rows cron now made ended [] = Inr []"
| "settle_rows cron now made ended (r # rs) =
     rbind (settle_row cron now made ended r) (\<lambda>r'. rbind (settle_rows cron now made ended rs) (\<lambda>rs'. Inr (r' # rs')))"

section \<open>Schedules a manifest states\<close>

definition MAX_DELAY :: int where "MAX_DELAY = 2 ^ 31 - 1"
definition RETRY :: int where "RETRY = 5000"

record schedule =
  sc_endpoint :: string
  sc_next :: "int \<Rightarrow> int option"
  sc_overdue :: "int option"
  sc_region :: nat
  sc_at :: "int option"
  sc_timer :: "int option"
  sc_retry :: "int option"
  sc_closing :: bool
  sc_quiesced :: bool

text \<open>\<open>sc_timer\<close> and \<open>sc_retry\<close> are the delays of the timers that are set.\<close>

definition new_schedule ::
  "cron \<Rightarrow> int \<Rightarrow> string \<Rightarrow> string \<Rightarrow> string \<Rightarrow> string \<Rightarrow> int option \<Rightarrow> nat option \<Rightarrow> nat \<Rightarrow> string + schedule" where
  "new_schedule cron now locator endpoint expression zone overdue region rank =
     rbind (occurrences cron now expression zone) (\<lambda>next.
       Inr \<lparr>sc_endpoint = locator @ ''.'' @ endpoint, sc_next = next, sc_overdue = map_option (\<lambda>d. d * 1000) overdue,
            sc_region = (case region of None \<Rightarrow> rank | Some r \<Rightarrow> r), sc_at = None, sc_timer = None, sc_retry = None,
            sc_closing = False, sc_quiesced = False\<rparr>)"

text \<open>One tick: what it hands over to be stored, where the occurrence waited for has come.\<close>

definition schedule_tick :: "int \<Rightarrow> schedule \<Rightarrow> int option \<times> schedule" where
  "schedule_tick now s =
     (if sc_closing s \<or> sc_quiesced s then (None, s)
      else
        (let waits = (\<lambda>t s. s\<lparr>sc_timer := Some (min (t - now) MAX_DELAY)\<rparr>)
         in case sc_at s of
              Some t \<Rightarrow>
                if now < t then (None, waits t s)
                else (case sc_next s now of
                        None \<Rightarrow> (None, s)
                      | Some t' \<Rightarrow> (Some t', waits t' (s\<lparr>sc_at := Some t'\<rparr>)))
            | None \<Rightarrow>
                (case sc_next s now of
                   None \<Rightarrow> (None, s)
                 | Some t' \<Rightarrow> (Some t', waits t' (s\<lparr>sc_at := Some t'\<rparr>)))))"

definition disarm_schedule :: "schedule \<Rightarrow> schedule" where
  "disarm_schedule s = s\<lparr>sc_timer := None, sc_retry := None\<rparr>"

definition schedule_close :: "schedule \<Rightarrow> schedule" where
  "schedule_close s = disarm_schedule (s\<lparr>sc_closing := True\<rparr>)"

definition schedule_pause :: "schedule \<Rightarrow> schedule" where
  "schedule_pause s = disarm_schedule (s\<lparr>sc_quiesced := True\<rparr>)"

definition schedule_unpause :: "int \<Rightarrow> schedule \<Rightarrow> int option \<times> schedule" where
  "schedule_unpause now s = schedule_tick now (s\<lparr>sc_quiesced := False, sc_at := None\<rparr>)"

definition late :: "schedule \<Rightarrow> int \<Rightarrow> int option" where
  "late s t = (case sc_overdue s of Some d \<Rightarrow> Some d | None \<Rightarrow> map_option (\<lambda>u. u - t) (sc_next s t))"

definition occurrence_id :: "(byte list \<Rightarrow> byte list) \<Rightarrow> (string \<Rightarrow> byte list) \<Rightarrow> schedule \<Rightarrow> int \<Rightarrow> string" where
  "occurrence_id sha1 utf8 s t =
     derive sha1 utf8 [IdText ''cadence'', IdNumber (sc_region s), IdText (sc_endpoint s), IdNumber (nat t)]"

definition schedule_row :: "(byte list \<Rightarrow> byte list) \<Rightarrow> (string \<Rightarrow> byte list) \<Rightarrow> nat \<Rightarrow> schedule \<Rightarrow> int \<Rightarrow> delayed" where
  "schedule_row sha1 utf8 lane s t =
     row_of (occurrence_id sha1 utf8 s t) lane (sc_endpoint s) t (late s t)
       (Some [(''input'', Obj [(''at'', Num t)])]) None"

text \<open>How storing ends: one that failed is tried again, while it is what is waited for.\<close>

definition store_failed :: "schedule \<Rightarrow> schedule" where
  "store_failed s = s\<lparr>sc_retry := Some RETRY\<rparr>"

definition retries :: "int \<Rightarrow> schedule \<Rightarrow> bool" where
  "retries t s \<longleftrightarrow> \<not> sc_closing s \<and> \<not> sc_quiesced s \<and> sc_at s = Some t"

section \<open>Pulses\<close>

text \<open>\<open>pu_cycle\<close> in milliseconds, of which a manifest gives at least a thousand to each interval.\<close>

record pulse =
  pu_cycle :: int
  pu_n :: int
  pu_fired :: int
  pu_timer :: "int option"
  pu_firing :: bool
  pu_closing :: bool
  pu_quiesced :: bool

definition new_pulse :: "int \<Rightarrow> int \<Rightarrow> pulse" where
  "new_pulse cycle intervals =
     \<lparr>pu_cycle = cycle * 1000, pu_n = intervals, pu_fired = 0, pu_timer = None, pu_firing = False, pu_closing = False,
      pu_quiesced = False\<rparr>"

definition interval_ordinal :: "pulse \<Rightarrow> int \<Rightarrow> int" where
  "interval_ordinal p now = now * pu_n p div pu_cycle p"


definition boundary :: "pulse \<Rightarrow> int \<Rightarrow> int" where
  "boundary p now = ((interval_ordinal p now + 1) * pu_cycle p + pu_n p - 1) div pu_n p"

definition pulse_arm :: "int \<Rightarrow> pulse \<Rightarrow> pulse" where
  "pulse_arm now p = p\<lparr>pu_timer := Some (min (boundary p now - now) MAX_DELAY)\<rparr>"

definition pulse_open :: "int \<Rightarrow> pulse \<Rightarrow> pulse" where
  "pulse_open now p = pulse_arm now (p\<lparr>pu_fired := interval_ordinal p now\<rparr>)"



definition pulse_fired :: "pulse \<Rightarrow> pulse" where
  "pulse_fired p = p\<lparr>pu_firing := False\<rparr>"

definition pulse_pause :: "pulse \<Rightarrow> pulse" where
  "pulse_pause p = p\<lparr>pu_quiesced := True, pu_timer := None\<rparr>"

definition pulse_unpause :: "int \<Rightarrow> pulse \<Rightarrow> pulse" where
  "pulse_unpause now p = pulse_open now (p\<lparr>pu_quiesced := False\<rparr>)"

definition pulse_close :: "pulse \<Rightarrow> pulse" where
  "pulse_close p = p\<lparr>pu_closing := True, pu_timer := None\<rparr>"

section \<open>Schedules an operation hands over\<close>

text \<open>What a schedule is stated as: an expression, or an object that states one.\<close>

datatype recurrence_error = Refused string | Metronome string

record recurrence =
  re_schedule :: string
  re_zone :: string
  re_overdue :: "int option"
  re_expires :: "int option"

definition stated_number :: "(int \<Rightarrow> bool) \<Rightarrow> string \<Rightarrow> val \<Rightarrow> recurrence_error + int option" where
  "stated_number ok message v =
     (case v of Undef \<Rightarrow> Inr None | Num n \<Rightarrow> if ok n then Inr (Some n) else Inl (Refused message) | _ \<Rightarrow> Inl (Refused message))"

definition recurrence_of :: "val \<Rightarrow> recurrence_error + recurrence" where
  "recurrence_of stated =
     (let declared = (case stated of Str s \<Rightarrow> Some [(''schedule'', Str s)] | Obj ps \<Rightarrow> Some ps | _ \<Rightarrow> None);
          stating = ''A schedule is a cron expression, or an object stating one as `schedule`''
      in case declared of
           None \<Rightarrow> Inl (Refused stating)
         | Some ps \<Rightarrow>
             (case dget Undef ps ''schedule'' of
                Str s \<Rightarrow>
                  rbind (case dget Undef ps ''zone'' of
                           Undef \<Rightarrow> Inr ''UTC''
                         | Str z \<Rightarrow> Inr z
                         | _ \<Rightarrow> Inl (Refused ''A schedule names its `zone` by a string'')) (\<lambda>zone.
                    rbind (stated_number (\<lambda>n. 0 \<le> n) ''The `overdue` of a schedule is a whole number of milliseconds''
                             (dget Undef ps ''overdue'')) (\<lambda>overdue.
                      rbind (stated_number (\<lambda>_. True) ''The `expires` of a schedule is milliseconds since the epoch''
                               (dget Undef ps ''expires'')) (\<lambda>expires.
                        Inr \<lparr>re_schedule = s, re_zone = zone, re_overdue = overdue, re_expires = expires\<rparr>)))
              | _ \<Rightarrow> Inl (Refused stating)))"

text \<open>
  \<open>canonical\<close>: what JSON makes of a value with the keys of every object in order. Keys that are array
  indices go first, as an object has them, and the others by their characters; what is \<open>undefined\<close> is
  not written in an object and is \<open>null\<close> in an array.
\<close>

definition is_index :: "string \<Rightarrow> bool" where
  "is_index k \<longleftrightarrow> k \<noteq> [] \<and> list_all is_digit k \<and> (k = ''0'' \<or> hd k \<noteq> CHR ''0'') \<and> str_nat k < 2 ^ 32 - 1"

definition key_rank :: "string \<Rightarrow> nat \<times> nat \<times> string" where
  "key_rank k = (if is_index k then (0, str_nat k, k) else (1, 0, k))"

definition ordered :: "(string \<times> 'v) list \<Rightarrow> (string \<times> 'v) list" where
  "ordered = sort_key (\<lambda>(k, v). key_rank k)"

fun canonical :: "val \<Rightarrow> string" where
  "canonical Undef = ''null''"
| "canonical Null = ''null''"
| "canonical (Bool b) = (if b then ''true'' else ''false'')"
| "canonical (Num n) = int_str n"
| "canonical (Str s) = quote s"
| "canonical (Arr vs) = ''['' @ join '','' (map canonical vs) @ '']''"
| "canonical (Obj ps) =
     ''{'' @ join '','' (map (\<lambda>(k, t). quote k @ '':'' @ t)
               (ordered (map (\<lambda>(k, v). (k, canonical v)) (filter (\<lambda>(k, v). v \<noteq> Undef) ps)))) @ ''}''"
| "canonical (Part ps) =
     ''{'' @ join '','' (map (\<lambda>(k, t). quote k @ '':'' @ t)
               (ordered (map (\<lambda>(k, v). (k, canonical v)) (filter (\<lambda>(k, v). v \<noteq> Undef) ps)))) @ ''}''"
| "canonical (View bs) =
     ''{'' @ join '','' (map (\<lambda>(i, b). quote (nat_str i) @ '':'' @ nat_str b) (List.enumerate 0 bs)) @ ''}''"
| "canonical (Stream b vs) = ''{}''"

definition default_endpoint :: "string \<Rightarrow> string" where
  "default_endpoint e = (if length (split_on (CHR ''.'') e) = 2 then ''default.'' @ e else e)"

text \<open>What of a request is refused: a process it names, and an input its occurrence cannot be added to.\<close>

definition schedulable :: "props option \<Rightarrow> recurrence_error + unit" where
  "schedulable request =
     (case request of
        None \<Rightarrow> Inr ()
      | Some ps \<Rightarrow>
          if map_of ps ''instance'' \<noteq> None then Inl (Refused ''A scheduled call names no `instance`'')
          else (case dget Undef ps ''input'' of
                  Undef \<Rightarrow> Inr ()
                | Null \<Rightarrow> Inr ()
                | Obj qs \<Rightarrow>
                    if map_of qs ''at'' \<noteq> None
                    then Inl (Refused ''The input of a scheduled call states no `at`: that is the occurrence it is made for'')
                    else Inr ()
                | Part _ \<Rightarrow> Inr ()
                | View _ \<Rightarrow> Inr ()
                | Stream _ _ \<Rightarrow> Inr ()
                | _ \<Rightarrow> Inl (Refused ''The input of a scheduled call is an object, to which its occurrence is added as `at`'')))"

definition schedule_id ::
  "(byte list \<Rightarrow> byte list) \<Rightarrow> (string \<Rightarrow> byte list) \<Rightarrow> string \<Rightarrow> props option \<Rightarrow> recurrence \<Rightarrow> string" where
  "schedule_id sha1 utf8 endpoint request r =
     derive sha1 utf8
       [IdText ''cadence'', IdText ''schedule'', IdText endpoint,
        IdText (canonical (case request of None \<Rightarrow> Null | Some ps \<Rightarrow> Obj ps)), IdText (re_schedule r), IdText (re_zone r),
        (case re_expires r of None \<Rightarrow> IdText [] | Some e \<Rightarrow> IdText (int_str e))]"

text \<open>
  The store of the metronome, by id. \<open>ensure\<close> finds a row or stores one, and refuses where a tombstone
  holds the id; \<open>resume\<close> of one that is not there is not found.
\<close>

type_synonym metronome = "(string \<times> delayed) list"

definition metronome_ensure :: "delayed \<Rightarrow> metronome \<Rightarrow> metronome option" where
  "metronome_ensure r m =
     (case map_of m (dl_id r) of
        None \<Rightarrow> Some (AList.update (dl_id r) r m)
      | Some found \<Rightarrow> if dl_deleted found = None then Some m else None)"

definition metronome_resume :: "string \<Rightarrow> int \<Rightarrow> nat \<Rightarrow> metronome \<Rightarrow> recurrence_error + metronome" where
  "metronome_resume i due lane m =
     (case map_of m i of
        None \<Rightarrow> Inl (Metronome ''NotFound'')
      | Some r \<Rightarrow> Inr (AList.update i (resume due lane r) m))"

definition expires_first :: "string \<Rightarrow> string" where
  "expires_first expression =
     ''The schedule '' @ [CHR 0x27] @ expression @ [CHR 0x27] @ '' expires before its first occurrence''"

text \<open>
  How the row of a schedule is kept: \<open>m\<close> is the store as it is read, and \<open>m'\<close> as it is written, when others
  may have come between.
\<close>

definition keep_schedule :: "delayed \<Rightarrow> metronome \<Rightarrow> metronome \<Rightarrow> recurrence_error + string \<times> metronome" where
  "keep_schedule e m m' =
     (let resumed = rbind (metronome_resume (dl_id e) (dl_due e) (dl_lane e) m') (\<lambda>w. Inr (dl_id e, w));
          tombstone = (case map_of m (dl_id e) of None \<Rightarrow> False | Some found \<Rightarrow> dl_deleted found \<noteq> None)
      in if tombstone then resumed
         else (case metronome_ensure e m' of Some w \<Rightarrow> Inr (dl_id e, w) | None \<Rightarrow> resumed))"

definition hand_over ::
  "cron \<Rightarrow> (byte list \<Rightarrow> byte list) \<Rightarrow> (string \<Rightarrow> byte list) \<Rightarrow> int \<Rightarrow> nat \<Rightarrow> string \<Rightarrow> props option \<Rightarrow> val \<Rightarrow> metronome \<Rightarrow> metronome \<Rightarrow>
   recurrence_error + string \<times> metronome" where
  "hand_over cron sha1 utf8 now lane endpoint request stated m m' =
     rbind (recurrence_of stated) (\<lambda>r.
       rbind (schedulable request) (\<lambda>_.
         case occurrences cron now (re_schedule r) (re_zone r) of
           Inl message \<Rightarrow> Inl (Refused message)
         | Inr next \<Rightarrow>
             (case (next now, re_expires r) of
                (None, None) \<Rightarrow> Inl (Metronome ''EntityContract'')
              | (None, Some _) \<Rightarrow> Inl (Refused (expires_first (re_schedule r)))
              | (Some due, expires) \<Rightarrow>
                  if (case expires of None \<Rightarrow> False | Some e \<Rightarrow> e < due) then Inl (Refused (expires_first (re_schedule r)))
                  else
                    (let e = default_endpoint endpoint
                     in keep_schedule
                          (recurring (schedule_id sha1 utf8 e request r) lane e due request (re_schedule r) (re_zone r)
                             (re_overdue r) expires) m m'))))"

section \<open>Delays\<close>

text \<open>\<open>context.delay\<close>: what the metronome is called with.\<close>

definition delay_input ::
  "string \<Rightarrow> props option \<Rightarrow> int \<Rightarrow> int option \<Rightarrow> bool \<Rightarrow> string list option \<Rightarrow>
   recurrence_error + string \<times> int \<times> int option \<times> props option \<times> string list option" where
  "delay_input endpoint request interval overdue unchained hops =
     (if (case request of None \<Rightarrow> False | Some ps \<Rightarrow> map_of ps ''instance'' \<noteq> None)
      then Inl (Refused ''A delayed call names no `instance`'')
      else Inr (default_endpoint endpoint, interval, overdue, request, if unchained then None else hops))"

section \<open>Declarations\<close>

datatype scope = Group | Replica

datatype cadence_entry =
    Pulse_entry int int scope "nat option"
  | Schedule_entry string string "int option" "nat option"

text \<open>
  What a manifest may state of an operation, filled with its defaults: a number is a cycle and a text an
  expression.
\<close>

definition fill_default :: "string \<Rightarrow> val \<Rightarrow> props \<Rightarrow> props" where
  "fill_default k v ps = (if is_nullish (dget Undef ps k) then AList.update k v ps else ps)"

definition normal_entry :: "val \<Rightarrow> props" where
  "normal_entry stated =
     (let declared = (case stated of Num n \<Rightarrow> [(''cycle'', Num n)] | Str s \<Rightarrow> [(''schedule'', Str s)] | Obj ps \<Rightarrow> ps | _ \<Rightarrow> [])
      in if map_of declared ''schedule'' \<noteq> None then fill_default ''zone'' (Str ''UTC'') declared
         else if map_of declared ''cycle'' \<noteq> None
         then fill_default ''scope'' (Str ''group'') (fill_default ''intervals'' (Num 1) declared)
         else declared)"

definition expand_cadence :: "props option \<Rightarrow> (string \<times> props list) list" where
  "expand_cadence d =
     (case d of
        None \<Rightarrow> []
      | Some ps \<Rightarrow> map (\<lambda>(e, stated). (e, map normal_entry (case stated of Arr vs \<Rightarrow> vs | v \<Rightarrow> [v]))) ps)"

text \<open>
  What is checked of an entry, beside its schema, which is a parameter: \<open>pulse_schema\<close> and
  \<open>schedule_schema\<close> answer the entry they read, or why they refuse it.
\<close>

definition check_pulse :: "string \<Rightarrow> cadence_entry \<Rightarrow> string + unit" where
  "check_pulse endpoint e =
     (case e of
        Pulse_entry cycle intervals sc region \<Rightarrow>
          if cycle < intervals
          then Inl (''Pulse '' @ [CHR 0x27] @ endpoint @ [CHR 0x27] @ '' splits a cycle of '' @ int_str cycle @ '' seconds into '' @
                 int_str intervals @ '' intervals, which is less than a second each'')
          else if sc = Replica \<and> region \<noteq> None
          then Inl (''Pulse '' @ [CHR 0x27] @ endpoint @ [CHR 0x27] @ '' is every replica's and cannot name a region'')
          else Inr ()
      | _ \<Rightarrow> Inr ())"

definition check_entry ::
  "cron \<Rightarrow> int \<Rightarrow> (props \<Rightarrow> string + cadence_entry) \<Rightarrow> (props \<Rightarrow> string + cadence_entry) \<Rightarrow> string \<Rightarrow> props \<Rightarrow> string + cadence_entry" where
  "check_entry cron now pulse_schema schedule_schema endpoint e =
     (let quoted = [CHR 0x27] @ endpoint @ [CHR 0x27]; has = (\<lambda>k. map_of e k \<noteq> None)
      in if has ''cycle'' \<and> has ''schedule'' then Inl (''Cadence of '' @ quoted @ '' states both a cycle and a schedule'')
         else if has ''schedule'' then
           (if map_of e ''overdue'' = Some Null
            then Inl (''Invalid schedule '' @ quoted @ '': a schedule states a bound or none, not null'')
            else rbind (schedule_schema e) (\<lambda>entry.
                   case entry of
                     Schedule_entry expression zone _ _ \<Rightarrow>
                       (case occurrences cron now expression zone of
                          Inl message \<Rightarrow> Inl (''Invalid schedule '' @ quoted @ '': '' @ message)
                        | Inr _ \<Rightarrow> Inr entry)
                   | _ \<Rightarrow> Inr entry))
         else if has ''cycle'' then rbind (pulse_schema e) (\<lambda>entry. rbind (check_pulse endpoint entry) (\<lambda>_. Inr entry))
         else Inl (''Cadence of '' @ quoted @ '' states neither a cycle nor a schedule''))"

definition CADENCE_TYPES :: "string list" where
  "CADENCE_TYPES = [''transition'', ''assignment'', ''effect'', ''unmanaged'']"

text \<open>What runs beside a component: the entries of its regions, and whether it decides with its replicas.\<close>

fun entry_region :: "cadence_entry \<Rightarrow> nat option" where
  "entry_region (Pulse_entry _ _ _ r) = r"
| "entry_region (Schedule_entry _ _ _ r) = r"

definition tenant_entries :: "nat list \<Rightarrow> (string \<times> cadence_entry list) list \<Rightarrow> (string \<times> cadence_entry) list" where
  "tenant_entries ranks entries =
     concat (map (\<lambda>(endpoint, es). map (\<lambda>e. (endpoint, e))
       (filter (\<lambda>e. case entry_region e of None \<Rightarrow> True | Some r \<Rightarrow> r \<in> set ranks) es)) entries)"

definition needs_atom :: "(string \<times> cadence_entry) list \<Rightarrow> bool" where
  "needs_atom es \<longleftrightarrow> list_ex (\<lambda>(_, e). case e of Pulse_entry _ _ sc _ \<Rightarrow> sc = Group | _ \<Rightarrow> False) es"

section \<open>Intervals of a pulse\<close>

lemma le_div_iff: "0 < c \<Longrightarrow> k \<le> a div c \<longleftrightarrow> k * c \<le> a" for a c k :: int
proof -
  assume "0 < c"
  then have "k + (a - c * k) div c = a div c"
    using div_mult_self1 [of c a "- k"] by (simp add: algebra_simps)
  moreover have "0 \<le> (a - c * k) div c \<longleftrightarrow> c * k \<le> a"
    using pos_imp_zdiv_nonneg_iff [OF \<open>0 < c\<close>, of "a - c * k"] by simp
  ultimately show ?thesis by (simp add: mult.commute) linarith
qed

lemma ceil_div_le: "0 < c \<Longrightarrow> (x + c - 1) div c \<le> t \<longleftrightarrow> x \<le> t * c" for c x t :: int
  using le_div_iff [of c "t + 1" "x + c - 1"] by (auto simp: algebra_simps not_le)

text \<open>
  A pulse wakes when its interval is over and not before: the moment it waits for is the first of the
  next interval, and no interval is skipped, however the cycle divides into them.
\<close>

theorem pulse_boundary:
  assumes "0 < pu_n p" "pu_n p \<le> pu_cycle p"
  shows "(boundary p now \<le> t \<longleftrightarrow> interval_ordinal p now < interval_ordinal p t) \<and>
    interval_ordinal p (boundary p now) = interval_ordinal p now + 1"
proof -
  have wakes: "boundary p now \<le> t \<longleftrightarrow> interval_ordinal p now + 1 \<le> interval_ordinal p t" for t
    using assms le_div_iff [of "pu_cycle p" "interval_ordinal p now + 1" "t * pu_n p"]
    by (simp add: boundary_def ceil_div_le interval_ordinal_def [of p t])
  let ?b = "boundary p now - 1"
  have "(?b + 1) * pu_n p \<le> ?b * pu_n p + pu_cycle p"
    using assms(2) by (simp add: algebra_simps)
  then have "interval_ordinal p (?b + 1) \<le> (?b * pu_n p + pu_cycle p) div pu_cycle p"
    unfolding interval_ordinal_def using assms by (intro zdiv_mono1) simp_all
  also have "\<dots> = interval_ordinal p ?b + 1"
    using assms by (simp add: interval_ordinal_def)
  finally show ?thesis
    using wakes [of t] wakes [of "boundary p now"] wakes [of ?b] by auto
qed

lemma pulse_boundary_witness:
  "interval_ordinal (new_pulse 10 3) 3333 = 0 \<and> boundary (new_pulse 10 3) 3333 = 3334 \<and>
   interval_ordinal (new_pulse 10 3) 3334 = 1"
  using pulse_boundary [of "new_pulse 10 3" 3333 0] by (simp add: new_pulse_def boundary_def interval_ordinal_def)




section \<open>Moving on\<close>

text \<open>
  A schedule only moves forward, and once for each occurrence: a row that settling neither left nor
  disposed of waits for an occurrence after now and after the one it was at, no later than it expires;
  and the same word settles it no further, whenever it comes again.
\<close>

theorem settled_moves_on:
  assumes "\<And>e z next. cron e z = Inr next \<Longrightarrow> calendar next"
    and "settle_row cron now made ended r = Inr r'" "r' \<noteq> r" "dl_deleted r = None" "dl_deleted r' = None"
  shows "dl_due r < dl_due r' \<and> now < dl_due r' \<and> dl_due r' \<le> dl_expires r \<and> settle_row cron now' made ended r' = Inr r'"
proof -
  obtain t where recurs: "dl_schedule r \<noteq> None" "dl_id r \<notin> set ended" "map_of made (dl_id r) = Some (dl_due r)"
    and t: "following cron r now = Inr (Some t)" "r' = r\<lparr>dl_due := t\<rparr>"
    using assms(2-5) by (auto simp: settle_row_def rbind_eq_Inr split: if_splits option.splits)
  from t(1) obtain e z f where "cron e z = Inr f" "f (max now (dl_due r)) = Some t" "t \<le> dl_expires r"
    by (auto simp: following_def next_of_def occurrences_def rbind_eq_Inr split: if_splits option.splits)
  with calendar_after [OF assms(1)] have "max now (dl_due r) < t" "t \<le> dl_expires r"
    by blast+
  with recurs t(2) show ?thesis
    by (auto simp: settle_row_def)
qed

text \<open>Every hour, in milliseconds.\<close>

definition hourly :: "int \<Rightarrow> int option" where
  "hourly t = Some ((t div 3600000 + 1) * 3600000)"

lemma calendar_hourly: "calendar hourly"
proof -
  have "b div 3600000 = a div 3600000" if "a \<le> b" "b < (a div 3600000 + 1) * 3600000" for a b :: int
    using that zdiv_mono1 [of a b 3600000] le_div_iff [of 3600000 "a div 3600000 + 1" b] by simp
  moreover have "a < (a div 3600000 + 1) * 3600000" for a :: int
    using le_div_iff [of 3600000 "a div 3600000 + 1" a] by simp
  ultimately show ?thesis by (auto simp: calendar_def hourly_def)
qed

definition sample_cron :: cron where
  "sample_cron e z = Inr hourly"

definition sample_recurring :: delayed where
  "sample_recurring = recurring ''s'' 5 ''default.pots.clean'' 3600000 None ''0 * * * *'' ''UTC'' None (Some 9000000)"

lemma settled_moves_on_witness:
  "settle_row sample_cron 3600500 [(''s'', 3600000)] [] sample_recurring = Inr (sample_recurring\<lparr>dl_due := 7200000\<rparr>) \<and>
   settle_row sample_cron 9999999 [(''s'', 3600000)] [] (sample_recurring\<lparr>dl_due := 7200000\<rparr>) =
     Inr (sample_recurring\<lparr>dl_due := 7200000\<rparr>)"
proof -
  have moved: "settle_row sample_cron 3600500 [(''s'', 3600000)] [] sample_recurring = Inr (sample_recurring\<lparr>dl_due := 7200000\<rparr>)"
    by code_simp
  moreover have "\<And>e z next. sample_cron e z = Inr next \<Longrightarrow> calendar next"
    by (simp add: sample_cron_def calendar_hourly)
  ultimately show ?thesis
    using settled_moves_on [of sample_cron 3600500 "[(''s'', 3600000)]" "[]" sample_recurring
        "sample_recurring\<lparr>dl_due := 7200000\<rparr>" 9999999]
    by (simp add: sample_recurring_def recurring_def)
qed

section \<open>What a stated schedule stores\<close>

fun schedule_run :: "int list \<Rightarrow> schedule \<Rightarrow> int list \<times> schedule" where
  "schedule_run [] s = ([], s)"
| "schedule_run (t # ts) s =
     (case schedule_tick t s of
        (handed, s') \<Rightarrow> (case schedule_run ts s' of (later, s'') \<Rightarrow> ((case handed of None \<Rightarrow> later | Some u \<Rightarrow> u # later), s'')))"

text \<open>What is waited for came first after a tick that is past.\<close>

definition waiting_since :: "int \<Rightarrow> schedule \<Rightarrow> bool" where
  "waiting_since now s \<longleftrightarrow>
     calendar (sc_next s) \<and> \<not> sc_closing s \<and> \<not> sc_quiesced s \<and> (\<forall>t. sc_at s = Some t \<longrightarrow> (\<exists>b \<le> now. sc_next s b = Some t))"

lemma waiting_next: "waiting_since now s \<Longrightarrow> sc_at s = Some t \<Longrightarrow> now < t \<Longrightarrow> sc_next s now = Some t"
  unfolding waiting_since_def using calendar_same by blast

lemma waiting_after: "waiting_since now s \<Longrightarrow> sc_next s now = Some t \<Longrightarrow> now < t"
  unfolding waiting_since_def using calendar_after by blast

lemma schedule_tick_cases:
  assumes "waiting_since now s"
  shows "schedule_tick now s =
    (case sc_next s now of
       None \<Rightarrow> (None, s)
     | Some t \<Rightarrow> (if sc_at s = Some t then None else Some t, s\<lparr>sc_at := Some t, sc_timer := Some (min (t - now) MAX_DELAY)\<rparr>))"
proof (cases "\<exists>t. sc_at s = Some t \<and> now < t")
  case True
  then show ?thesis
    using assms waiting_next [OF assms] by (auto simp: schedule_tick_def Let_def waiting_since_def)
next
  case False
  then show ?thesis
    using assms waiting_after [OF assms]
    by (cases "sc_at s"; cases "sc_next s now") (auto simp: schedule_tick_def Let_def waiting_since_def)
qed

lemma waiting_since_tick:
  assumes "waiting_since now s" "now \<le> now'"
  shows "waiting_since now' (snd (schedule_tick now s))"
  using assms unfolding schedule_tick_cases [OF assms(1)]
  by (auto simp: waiting_since_def split: option.splits intro: order_trans)

lemma schedule_run_next:
  assumes "waiting_since (hd ts) s" "sorted ts" "ts \<noteq> []" "schedule_run ts s = (handed, s')"
  shows "sc_next s' = sc_next s \<and> (\<forall>t. sc_next s (last ts) = Some t \<longrightarrow> sc_at s' = Some t \<and> (sc_at s = Some t \<or> t \<in> set handed)) \<and>
    sorted_wrt (<) handed \<and> (\<forall>t \<in> set handed. hd ts < t \<and> (\<forall>u. sc_at s = Some u \<longrightarrow> u < t))"
  using assms
proof (induction ts arbitrary: s handed)
  case (Cons now ts)
  obtain h s1 where tick: "schedule_tick now s = (h, s1)" by (cases "schedule_tick now s")
  have "waiting_since now s" using Cons.prems(1) by simp
  note cases = schedule_tick_cases [OF this]
  obtain rest where run: "schedule_run ts s1 = (rest, s')" and handed: "handed = (case h of None \<Rightarrow> rest | Some u \<Rightarrow> u # rest)"
    using Cons.prems(4) tick by (auto split: prod.splits)
  have waits: "t \<le> now" if "sc_at s = Some t" "sc_next s now \<noteq> Some t" for t
    using waiting_next [OF \<open>waiting_since now s\<close>] that by fastforce
  have wait1: "waiting_since (hd ts) s1" if "ts \<noteq> []"
    using waiting_since_tick [OF \<open>waiting_since now s\<close>, of "hd ts"] Cons.prems(2) that tick by (cases ts) simp_all
  show ?case
  proof (cases "sc_next s now")
    case None
    then have "h = None" "s1 = s" using tick cases by simp_all
    then show ?thesis
      using Cons.IH [OF wait1 _ _ run] None Cons.prems(2) run handed by (cases ts) auto
  next
    case (Some t)
    then have s1: "sc_at s1 = Some t" "sc_next s1 = sc_next s" and h: "h = (if sc_at s = Some t then None else Some t)"
      using tick cases by auto
    have "now < t" using waiting_after [OF \<open>waiting_since now s\<close> Some] .
    have "sc_next s' = sc_next s \<and> sorted_wrt (<) rest \<and> (\<forall>x \<in> set rest. t < x) \<and>
        (\<forall>x. sc_next s (last (now # ts)) = Some x \<longrightarrow> sc_at s' = Some x \<and> (x = t \<or> x \<in> set rest))"
    proof (cases "ts = []")
      case True
      then show ?thesis using run s1 Some by auto
    next
      case False
      then show ?thesis using Cons.IH [OF wait1 _ _ run] Cons.prems(2) s1 by auto
    qed
    moreover have "u < t" if "sc_at s = Some u" "u \<noteq> t" for u
      using waits [of u] that Some \<open>now < t\<close> by simp
    ultimately show ?thesis
      using handed h \<open>now < t\<close> by (cases "sc_at s = Some t") fastforce+
  qed
qed simp

text \<open>
  The next occurrence is always stored, and each once: over the ticks of a schedule, from the first,
  at whatever times they come, what was handed over is in order with nothing twice and nothing past, and
  what comes first after the last tick is in it and is what is waited for.
\<close>

theorem schedule_stores_next:
  assumes "calendar (sc_next s)" "sc_at s = None" "\<not> sc_closing s" "\<not> sc_quiesced s"
    and "sorted ts" "ts \<noteq> []" "schedule_run ts s = (handed, s')"
  shows "sorted_wrt (<) handed \<and> list_all (\<lambda>t. hd ts < t) handed \<and>
    (case sc_next s (last ts) of None \<Rightarrow> True | Some t \<Rightarrow> t \<in> set handed \<and> sc_at s' = Some t)"
proof -
  have "waiting_since (hd ts) s"
    using assms(1-4) by (simp add: waiting_since_def)
  from schedule_run_next [OF this assms(5-7)] show ?thesis
    using assms(2) by (auto simp: list_all_iff split: option.splits)
qed

definition sample_schedule :: schedule where
  "sample_schedule =
     \<lparr>sc_endpoint = ''default.pots.clean'', sc_next = hourly, sc_overdue = None, sc_region = 0, sc_at = None, sc_timer = None,
      sc_retry = None, sc_closing = False, sc_quiesced = False\<rparr>"

lemma schedule_stores_next_witness:
  "fst (schedule_run [5, 3599999, 3600000, 3600001] sample_schedule) = [3600000, 7200000] \<and>
   (case hourly 3600001 of None \<Rightarrow> True
    | Some t \<Rightarrow> t \<in> set (fst (schedule_run [5, 3599999, 3600000, 3600001] sample_schedule)))"
proof -
  have "fst (schedule_run [5, 3599999, 3600000, 3600001] sample_schedule) = [3600000, 7200000]"
    by code_simp
  moreover have "case sc_next sample_schedule (last [5, 3599999, 3600000, 3600001]) of None \<Rightarrow> True
    | Some t \<Rightarrow> t \<in> set (fst (schedule_run [5, 3599999, 3600000, 3600001] sample_schedule)) \<and>
        sc_at (snd (schedule_run [5, 3599999, 3600000, 3600001] sample_schedule)) = Some t"
    using schedule_stores_next [of sample_schedule "[5, 3599999, 3600000, 3600001]"] calendar_hourly
    by (simp add: sample_schedule_def)
  ultimately show ?thesis
    by (simp add: sample_schedule_def hourly_def)
qed

text \<open>At most one occurrence is owed at a time: a call that states no bound is owed until the next is due.\<close>

lemma owed_until_next:
  "sc_overdue s = None \<Longrightarrow> sc_next s t = Some u \<Longrightarrow>
     dl_expires (schedule_row sha1 utf8 lane s t) = dl_due (schedule_row sha1 utf8 lane' s u)"
  by (simp add: schedule_row_def row_of_def late_def)

section \<open>What a schedule handed over is\<close>

lemma inj_key_rank: "inj key_rank"
  by (auto simp: inj_def key_rank_def split: if_splits)

lemma canonical_order:
  assumes "mset ps = mset qs" "distinct (map fst ps)"
  shows "canonical (Obj ps) = canonical (Obj qs)"
proof -
  let ?w = "\<lambda>ps. map (\<lambda>(k, v). (k, canonical v)) (filter (\<lambda>(k, v). v \<noteq> Undef) ps)"
  have "mset (?w ps) = mset (?w qs)"
    by (simp add: assms(1))
  moreover have "distinct (map fst (?w ps))"
    using distinct_fst_filter [OF assms(2)] by (simp add: comp_def case_prod_beta)
  then have "inj_on fst (set (?w ps))"
    by (subst (asm) distinct_map) (rule conjunct2)
  then have "inj_on (\<lambda>(k, v). key_rank k) (set (?w ps))"
    using comp_inj_on [OF _ inj_on_subset [OF inj_key_rank subset_UNIV]] by (simp add: comp_def case_prod_beta')
  ultimately have "ordered (?w ps) = ordered (?w qs)"
    unfolding ordered_def by (rule sort_key_perm)
  then show ?thesis by simp
qed

lemma keep_schedule_live:
  assumes "keep_schedule e m m' = Inr (i, w)" "dl_deleted e = None"
  shows "i = dl_id e \<and> (\<exists>row. map_of w i = Some row \<and> dl_deleted row = None)"
  using assms
  by (auto simp: keep_schedule_def metronome_resume_def metronome_ensure_def resume_def rbind_eq_Inr Let_def
      split: option.splits if_splits)

lemma keep_schedule_kept:
  assumes "keep_schedule e w w = Inr (i, w')" "map_of w (dl_id e) = Some row" "dl_deleted row = None"
  shows "w' = w"
  using assms by (simp add: keep_schedule_def metronome_ensure_def)

lemma hand_over_keeps:
  assumes "hand_over cron sha1 utf8 now lane endpoint request stated m m' = Inr (i, w)"
  obtains r due where "recurrence_of stated = Inr r"
    "keep_schedule (recurring (schedule_id sha1 utf8 (default_endpoint endpoint) request r) lane (default_endpoint endpoint) due
       request (re_schedule r) (re_zone r) (re_overdue r) (re_expires r)) m m' = Inr (i, w)"
proof -
  from assms obtain r where r: "recurrence_of stated = Inr r" and
    rest: "(case occurrences cron now (re_schedule r) (re_zone r) of
           Inl message \<Rightarrow> Inl (Refused message)
         | Inr next \<Rightarrow>
             (case (next now, re_expires r) of
                (None, None) \<Rightarrow> Inl (Metronome ''EntityContract'')
              | (None, Some _) \<Rightarrow> Inl (Refused (expires_first (re_schedule r)))
              | (Some due, expires) \<Rightarrow>
                  if (case expires of None \<Rightarrow> False | Some e \<Rightarrow> e < due) then Inl (Refused (expires_first (re_schedule r)))
                  else keep_schedule (recurring (schedule_id sha1 utf8 (default_endpoint endpoint) request r) lane
                         (default_endpoint endpoint) due request (re_schedule r) (re_zone r) (re_overdue r) expires) m m')) = Inr (i, w)"
    unfolding hand_over_def rbind_eq_Inr Let_def by blast
  show ?thesis
  proof (cases "occurrences cron now (re_schedule r) (re_zone r)")
    case (Inr f)
    then show ?thesis
      using rest r that by (cases "f now"; cases "re_expires r") (auto split: if_splits)
  qed (use rest in simp)
qed

lemma recurring_fields [simp]:
  "dl_id (recurring i lane e due request s z o' x) = i" "dl_deleted (recurring i lane e due request s z o' x) = None"
  by (simp_all add: recurring_def)

lemma hand_over_id:
  assumes "hand_over cron sha1 utf8 now lane endpoint request stated m m' = Inr (i, w)"
  obtains r where "recurrence_of stated = Inr r" "i = schedule_id sha1 utf8 (default_endpoint endpoint) request r"
    "\<exists>row. map_of w i = Some row \<and> dl_deleted row = None"
  using assms by (rule hand_over_keeps) (use that keep_schedule_live in fastforce)

lemma hand_over_live:
  assumes "hand_over cron sha1 utf8 now lane endpoint request stated w w = Inr (i, w')"
    and "map_of w i = Some row" "dl_deleted row = None"
  shows "w' = w"
proof -
  from assms(1) obtain e where e: "keep_schedule e w w = Inr (i, w')" "dl_deleted e = None"
    by (rule hand_over_keeps) simp
  with keep_schedule_live [OF e] keep_schedule_kept [OF e(1)] assms(2,3) show ?thesis by simp
qed

text \<open>
  A schedule handed over twice is one: what is handed over again, at whatever time and however the
  keys of its request are written, is the schedule that is already kept, under the same id, and nothing
  is stored.
\<close>

theorem handed_over_twice:
  assumes "hand_over cron sha1 utf8 now lane endpoint (Some ps) stated m m' = Inr (i, w)"
    and "hand_over cron sha1 utf8 now' lane' endpoint (Some qs) stated w w = Inr (i', w')"
    and "mset ps = mset qs" "distinct (map fst ps)"
  shows "i' = i \<and> w' = w"
proof -
  from hand_over_id [OF assms(1)] obtain r row where
    r: "recurrence_of stated = Inr r" "i = schedule_id sha1 utf8 (default_endpoint endpoint) (Some ps) r"
    and row: "map_of w i = Some row" "dl_deleted row = None" by metis
  from hand_over_id [OF assms(2)] have "i' = schedule_id sha1 utf8 (default_endpoint endpoint) (Some qs) r"
    using r(1) by auto
  then have "i' = i"
    using r(2) canonical_order [OF assms(3,4)] by (simp add: schedule_id_def)
  with hand_over_live [OF assms(2)] row show ?thesis by simp
qed

definition sample_hash :: "byte list \<Rightarrow> byte list" where
  "sample_hash bs = replicate 20 (of_nat (length bs))"

definition sample_handing :: "int \<Rightarrow> props \<Rightarrow> metronome \<Rightarrow> recurrence_error + string \<times> metronome" where
  "sample_handing now ps m =
     hand_over sample_cron sample_hash (map (of_nat \<circ> of_char)) now 7 ''pots.clean'' (Some ps) (Str ''0 * * * *'') m m"

lemma handed_over_twice_witness:
  "\<exists>i w. sample_handing 5 [(''input'', Null), (''authentic'', Bool True)] [] = Inr (i, w) \<and> length w = 1 \<and>
     sample_handing 9999999 [(''authentic'', Bool True), (''input'', Null)] w = Inr (i, w)"
proof -
  have runs: "case sample_handing 5 [(''input'', Null), (''authentic'', Bool True)] [] of
      Inr x \<Rightarrow> length (snd x) = 1 \<and> \<not> isl (sample_handing 9999999 [(''authentic'', Bool True), (''input'', Null)] (snd x))
    | _ \<Rightarrow> False"
    by code_simp
  then obtain x where x: "sample_handing 5 [(''input'', Null), (''authentic'', Bool True)] [] = Inr x" "length (snd x) = 1"
    "\<not> isl (sample_handing 9999999 [(''authentic'', Bool True), (''input'', Null)] (snd x))"
    by (auto split: sum.splits)
  obtain i w where iw: "x = (i, w)" by (cases x)
  with x have first: "sample_handing 5 [(''input'', Null), (''authentic'', Bool True)] [] = Inr (i, w)" "length w = 1" by simp_all
  obtain i' w' where second: "sample_handing 9999999 [(''authentic'', Bool True), (''input'', Null)] w = Inr (i', w')"
    using x(3) iw by (cases "sample_handing 9999999 [(''authentic'', Bool True), (''input'', Null)] w") auto
  from handed_over_twice [OF first(1) [unfolded sample_handing_def] second [unfolded sample_handing_def]]
  have "i' = i \<and> w' = w" by (simp add: add.commute)
  with first second show ?thesis by blast
qed

end
