(* ===== verification/Dispatcher.thy ===== *)
theory Dispatcher
  imports Cadence Exceptions
begin

text \<open>
  What makes the calls that were put off: \<open>extensions/cadence/source/Dispatcher.ts\<close>.

  A dispatcher holds the rows it has a timer for or a call of, the occurrences it has disposed of and not
  settled yet, and the schedules that are over. Its code runs in pieces between awaits, and each piece is
  a function here; the replicas of the metronome, its rows and what happens between the pieces are a step
  relation, in which a write that fails and a read that is late are steps too.
\<close>

section \<open>The dispatcher\<close>

definition BATCH_ROWS :: nat where "BATCH_ROWS = 200"

text \<open>
  A row in hand: the timer that was set for it, and its lane. A timer that was not cleared fires once,
  whether or not its row is still in hand.
\<close>

record armed =
  ar_timer :: nat
  ar_lane :: nat

record dispatcher =
  di_armed :: "(string \<times> armed) list"
  di_timers :: "(nat \<times> delayed) list"
  di_timer :: nat
  di_called :: "(string \<times> int) list"
  di_ended :: "string list"
  di_scanning :: bool
  di_closing :: bool
  di_quiesced :: bool

definition new_dispatcher :: dispatcher where
  "new_dispatcher =
     \<lparr>di_armed = [], di_timers = [], di_timer = 0, di_called = [], di_ended = [], di_scanning = False, di_closing = False, di_quiesced = False\<rparr>"

text \<open>Whether a tick starts a scan.\<close>

definition starts_scan :: "dispatcher \<Rightarrow> bool" where
  "starts_scan d \<longleftrightarrow> \<not> di_closing d \<and> \<not> di_quiesced d \<and> \<not> di_scanning d"

definition dispatcher_tick :: "dispatcher \<Rightarrow> dispatcher" where
  "dispatcher_tick d = (if starts_scan d then d\<lparr>di_scanning := True\<rparr> else d)"

definition scan_over :: "dispatcher \<Rightarrow> dispatcher" where
  "scan_over d = d\<lparr>di_scanning := False\<rparr>"

text \<open>What is kept in hand; the timers of the rest are cleared.\<close>

definition retain :: "(string \<Rightarrow> armed \<Rightarrow> bool) \<Rightarrow> dispatcher \<Rightarrow> dispatcher" where
  "retain keeps d =
     (let cleared = map (ar_timer \<circ> snd) (filter (\<lambda>(i, a). \<not> keeps i a) (di_armed d))
      in d\<lparr>di_armed := filter (\<lambda>(i, a). keeps i a) (di_armed d),
           di_timers := filter (\<lambda>(t, r). t \<notin> set cleared) (di_timers d)\<rparr>)"

definition disarm :: "nat list \<Rightarrow> dispatcher \<Rightarrow> dispatcher" where
  "disarm lanes = retain (\<lambda>i a. ar_lane a \<in> set lanes)"

definition adopt :: "nat list option \<Rightarrow> dispatcher \<Rightarrow> dispatcher" where
  "adopt lanes d = dispatcher_tick (disarm (case lanes of None \<Rightarrow> [] | Some ls \<Rightarrow> ls) d)"

text \<open>
  What a scan asks the metronome for: rows that are live, of its lanes and regions, due before the
  horizon, soonest first, and no more than a batch. \<open>region\<close> is what each row carries.
\<close>

definition enumerate_due :: "(delayed \<Rightarrow> nat) \<Rightarrow> nat list \<Rightarrow> nat list \<Rightarrow> int \<Rightarrow> metronome \<Rightarrow> delayed list" where
  "enumerate_due region lanes regions until m =
     take BATCH_ROWS (sort_key dl_due
       (filter (\<lambda>r. dl_deleted r = None \<and> dl_lane r \<in> set lanes \<and> region r \<in> set regions \<and> dl_due r < until) (map snd m)))"

definition scan_page ::
  "(delayed \<Rightarrow> nat) \<Rightarrow> nat list \<Rightarrow> int \<Rightarrow> nat list option \<Rightarrow> int \<Rightarrow> metronome \<Rightarrow> delayed list option" where
  "scan_page region regions discreteness lanes now m =
     (case lanes of
        None \<Rightarrow> None
      | Some [] \<Rightarrow> None
      | Some ls \<Rightarrow> Some (enumerate_due region ls regions (now + 2 * discreteness) m))"

text \<open>What becomes of a row a scan has read.\<close>

datatype arming = Held | Over | Lapsed | Arms int | Raises string

definition arming_of :: "cron \<Rightarrow> int \<Rightarrow> delayed \<Rightarrow> dispatcher \<Rightarrow> arming" where
  "arming_of cron now r d =
     (if map_of (di_armed d) (dl_id r) \<noteq> None \<or> map_of (di_called d) (dl_id r) \<noteq> None \<or> dl_id r \<in> set (di_ended d) then Held
      else
        (let once = (if dl_expires r \<le> now then Lapsed else Arms (max (dl_due r - now) 0))
         in case dl_schedule r of
              None \<Rightarrow> once
            | Some _ \<Rightarrow>
                if dl_expires r \<le> now then Over
                else (case bound cron now r of
                        Inl e \<Rightarrow> Raises e
                      | Inr b \<Rightarrow> if b \<le> now then Lapsed else once)))"

definition arm :: "delayed \<Rightarrow> arming \<Rightarrow> dispatcher \<Rightarrow> dispatcher" where
  "arm r f d =
     (case f of
        Over \<Rightarrow> d\<lparr>di_ended := sadd (dl_id r) (di_ended d)\<rparr>
      | Lapsed \<Rightarrow> d\<lparr>di_called := AList.update (dl_id r) (dl_due r) (di_called d)\<rparr>
      | Arms _ \<Rightarrow>
          d\<lparr>di_armed := AList.update (dl_id r) \<lparr>ar_timer = di_timer d, ar_lane = dl_lane r\<rparr> (di_armed d),
            di_timers := (di_timer d, r) # di_timers d, di_timer := Suc (di_timer d)\<rparr>
      | _ \<Rightarrow> d)"

text \<open>
  The rows of a page in turn, each with the time it is looked at, until one raises; then what the store
  no longer answers is given up.
\<close>

fun arm_page :: "cron \<Rightarrow> (int \<times> delayed) list \<Rightarrow> dispatcher \<Rightarrow> (string + unit) \<times> dispatcher" where
  "arm_page cron [] d = (Inr (), d)"
| "arm_page cron ((now, r) # rs) d =
     (case arming_of cron now r d of
        Raises e \<Rightarrow> (Inl e, d)
      | f \<Rightarrow> arm_page cron rs (arm r f d))"

definition forget :: "string list \<Rightarrow> dispatcher \<Rightarrow> dispatcher" where
  "forget read d = retain (\<lambda>i a. i \<in> set read \<or> map_of (di_called d) i \<noteq> None) d"

definition scanned :: "cron \<Rightarrow> (int \<times> delayed) list \<Rightarrow> dispatcher \<Rightarrow> dispatcher" where
  "scanned cron page d =
     (case arm_page cron page d of
        (Inl e, d') \<Rightarrow> scan_over d'
      | (Inr _, d') \<Rightarrow> scan_over (if length page = BATCH_ROWS then d' else forget (map (dl_id \<circ> snd) page) d'))"

text \<open>A timer that fires: the row whose call goes out, unless the dispatcher is closing.\<close>

definition fire :: "nat \<Rightarrow> dispatcher \<Rightarrow> delayed option \<times> dispatcher" where
  "fire t d =
     (case map_of (di_timers d) t of
        None \<Rightarrow> (None, d)
      | Some r \<Rightarrow>
          (let d' = d\<lparr>di_timers := AList.delete t (di_timers d)\<rparr>
           in if di_closing d then (None, d'\<lparr>di_armed := AList.delete (dl_id r) (di_armed d')\<rparr>)
              else (Some r, d')))"

text \<open>The request a row is called with: its own identity, and each occurrence's where it recurs.\<close>

definition occurrence_call :: "(byte list \<Rightarrow> byte list) \<Rightarrow> (string \<Rightarrow> byte list) \<Rightarrow> delayed \<Rightarrow> string" where
  "occurrence_call sha1 utf8 r =
     (case dl_schedule r of
        None \<Rightarrow> dl_id r
      | Some _ \<Rightarrow> derive sha1 utf8 [IdText (dl_id r), IdNumber (nat (dl_due r))])"

definition dispatch_input :: "delayed \<Rightarrow> val" where
  "dispatch_input r =
     (let stated = (case dl_request r of None \<Rightarrow> Undef | Some ps \<Rightarrow> dget Undef ps ''input'')
      in case dl_schedule r of
           Some _ \<Rightarrow> Obj (AList.update ''at'' (Num (dl_due r)) (case stated of Obj ps \<Rightarrow> ps | _ \<Rightarrow> []))
         | None \<Rightarrow> (case dl_request r of
                      None \<Rightarrow> Null
                    | Some ps \<Rightarrow> (case map_of ps ''input'' of None \<Rightarrow> Null | Some v \<Rightarrow> v)))"

definition dispatch_request :: "(byte list \<Rightarrow> byte list) \<Rightarrow> (string \<Rightarrow> byte list) \<Rightarrow> delayed \<Rightarrow> props" where
  "dispatch_request sha1 utf8 r =
     (let stored = (case dl_request r of None \<Rightarrow> [] | Some ps \<Rightarrow> ps);
          base = AList.update ''task'' (Bool True) (AList.update ''input'' (dispatch_input r) stored);
          trailed = (case dl_trail r of None \<Rightarrow> base | Some hops \<Rightarrow> AList.update ''trail'' (Arr (map Str hops)) base)
      in AList.update ''id'' (Str (occurrence_call sha1 utf8 r)) trailed)"

text \<open>How a call ends: it was taken, was refused for good, or failed on the way.\<close>

datatype call_outcome = Taken | Refused_for_good | Failed_on_the_way

definition outcome_of :: "thrown option \<Rightarrow> call_outcome" where
  "outcome_of e = (case e of None \<Rightarrow> Taken | Some e \<Rightarrow> if permanent e then Refused_for_good else Failed_on_the_way)"

definition call_over :: "delayed \<Rightarrow> call_outcome \<Rightarrow> dispatcher \<Rightarrow> dispatcher" where
  "call_over r o' d =
     (let d' = (case o' of
                  Taken \<Rightarrow> d\<lparr>di_called := AList.update (dl_id r) (dl_due r) (di_called d)\<rparr>
                | Refused_for_good \<Rightarrow>
                    if dl_schedule r = None then d\<lparr>di_called := AList.update (dl_id r) (dl_due r) (di_called d)\<rparr>
                    else d\<lparr>di_ended := sadd (dl_id r) (di_ended d)\<rparr>
                | Failed_on_the_way \<Rightarrow> d)
      in d'\<lparr>di_armed := AList.delete (dl_id r) (di_armed d')\<rparr>)"

text \<open>\<open>settle\<close>: what is written, and what is let go once it has been.\<close>

type_synonym settlement = "(string \<times> int) list \<times> string list"

definition settlement_of :: "dispatcher \<Rightarrow> settlement option" where
  "settlement_of d = (if di_called d = [] \<and> di_ended d = [] then None else Some (di_called d, di_ended d))"

definition settle_over :: "settlement \<Rightarrow> dispatcher \<Rightarrow> dispatcher" where
  "settle_over s d =
     d\<lparr>di_called := filter (\<lambda>(i, t). i \<notin> fst ` set (fst s)) (di_called d),
       di_ended := filter (\<lambda>i. i \<notin> set (snd s)) (di_ended d)\<rparr>"

definition dispatcher_close :: "dispatcher \<Rightarrow> dispatcher" where
  "dispatcher_close d = retain (\<lambda>i a. False) (d\<lparr>di_closing := True\<rparr>)"

definition dispatcher_pause :: "dispatcher \<Rightarrow> dispatcher" where
  "dispatcher_pause d = retain (\<lambda>i a. False) (d\<lparr>di_quiesced := True\<rparr>)"

definition dispatcher_unpause :: "nat list option \<Rightarrow> dispatcher \<Rightarrow> dispatcher" where
  "dispatcher_unpause lanes d = adopt lanes (d\<lparr>di_quiesced := False\<rparr>)"

text \<open>
  The metronome's \<open>settle\<close> over its rows: those of the ids that are live are handed to the transition, and
  what it makes of them is committed in their place.
\<close>

definition selects :: "settlement \<Rightarrow> delayed \<Rightarrow> bool" where
  "selects s r \<longleftrightarrow> dl_id r \<in> set (map fst (fst s) @ snd s) \<and> dl_deleted r = None"

fun settle_store :: "cron \<Rightarrow> int \<Rightarrow> settlement \<Rightarrow> metronome \<Rightarrow> string + metronome" where
  "settle_store cron now s [] = Inr []"
| "settle_store cron now s ((i, r) # m) =
     rbind (if selects s r then settle_row cron now (fst s) (snd s) r else Inr r) (\<lambda>r'.
       rbind (settle_store cron now s m) (\<lambda>m'. Inr ((i, r') # m')))"

section \<open>Replicas and rows\<close>

text \<open>
  The rows of the metronome and the replicas that work on them. Between awaits are the pages that were
  read, the calls on their way and the settlements that are being written, each of a replica. \<open>wo_log\<close>
  is what has happened to calls, and nothing reads it.
\<close>

datatype happened = Took delayed | Turned_away delayed | Seen int delayed

record clockwork =
  wo_rows :: metronome
  wo_replica :: "nat \<Rightarrow> dispatcher"
  wo_pages :: "(nat \<times> delayed list) list"
  wo_calls :: "(nat \<times> delayed) list"
  wo_settling :: "(nat \<times> settlement \<times> bool) list"
  wo_log :: "happened list"

definition new_clockwork :: clockwork where
  "new_clockwork =
     \<lparr>wo_rows = [], wo_replica = (\<lambda>_. new_dispatcher), wo_pages = [], wo_calls = [], wo_settling = [], wo_log = []\<rparr>"

definition replica_becomes :: "nat \<Rightarrow> dispatcher \<Rightarrow> clockwork \<Rightarrow> clockwork" where
  "replica_becomes k d w = w\<lparr>wo_replica := (wo_replica w)(k := d)\<rparr>"

definition settle_begins :: "nat \<Rightarrow> clockwork \<Rightarrow> clockwork" where
  "settle_begins k w =
     (case settlement_of (wo_replica w k) of None \<Rightarrow> w | Some s \<Rightarrow> w\<lparr>wo_settling := (k, s, False) # wo_settling w\<rparr>)"

text \<open>What of a settlement is written before it fails: that of some of its ids.\<close>

definition part_of :: "string list \<Rightarrow> settlement \<Rightarrow> settlement" where
  "part_of ids s = (filter (\<lambda>(i, t). i \<in> set ids) (fst s), filter (\<lambda>i. i \<in> set ids) (snd s))"

definition logged :: "happened list \<Rightarrow> clockwork \<Rightarrow> clockwork" where
  "logged hs w = w\<lparr>wo_log := hs @ wo_log w\<rparr>"

datatype occasion =
    Written delayed
  | Cancelled string int
  | Resumed string int nat
  | Ticked nat
  | Adopted nat "nat list option"
  | Scan_failed nat
  | Settle_parted nat "string list" int
  | Settle_written nat int
  | Settle_answered nat
  | Settle_failed nat
  | Page_read nat "delayed list"
  | Page_armed nat "(int \<times> delayed) list"
  | Fired nat nat
  | Call_ended nat delayed call_outcome
  | Closed nat
  | Paused nat
  | Unpaused nat "nat list option"
  | Crashed nat

text \<open>
  A row is written under an id nothing has, and cancelled, and a schedule handed over again is resumed;
  a page is what a scan read at some moment; a settlement is written whole or in part, any number of
  times, and then is answered or fails; a replica that crashes loses all it held.
\<close>

inductive metronome_step :: "cron \<Rightarrow> clockwork \<Rightarrow> occasion \<Rightarrow> clockwork \<Rightarrow> bool" for cron where
  written: "metronome_ensure r (wo_rows w) = Some m \<Longrightarrow> metronome_step cron w (Written r) (w\<lparr>wo_rows := m\<rparr>)"
| cancelled: "map_of (wo_rows w) i = Some r \<Longrightarrow>
    metronome_step cron w (Cancelled i now) (w\<lparr>wo_rows := AList.update i (r\<lparr>dl_deleted := Some now\<rparr>) (wo_rows w)\<rparr>)"
| resumed: "map_of (wo_rows w) i = Some r \<Longrightarrow> dl_schedule r \<noteq> None \<Longrightarrow>
    metronome_resume i due lane (wo_rows w) = Inr m \<Longrightarrow> metronome_step cron w (Resumed i due lane) (w\<lparr>wo_rows := m\<rparr>)"
| ticked: "starts_scan (wo_replica w k) \<Longrightarrow>
    metronome_step cron w (Ticked k) (settle_begins k (replica_becomes k (dispatcher_tick (wo_replica w k)) w))"
| adopted: "metronome_step cron w (Adopted k lanes)
    ((if starts_scan (wo_replica w k) then settle_begins k else id) (replica_becomes k (adopt lanes (wo_replica w k)) w))"
| scan_failed: "metronome_step cron w (Scan_failed k) (replica_becomes k (scan_over (wo_replica w k)) w)"
| settle_parted: "(k, s, b) \<in> set (wo_settling w) \<Longrightarrow> settle_store cron now (part_of ids s) (wo_rows w) = Inr m \<Longrightarrow>
    metronome_step cron w (Settle_parted k ids now) (w\<lparr>wo_rows := m\<rparr>)"
| settle_written: "(k, s, b) \<in> set (wo_settling w) \<Longrightarrow> settle_store cron now s (wo_rows w) = Inr m \<Longrightarrow>
    metronome_step cron w (Settle_written k now)
      (w\<lparr>wo_rows := m, wo_settling := (k, s, True) # remove1 (k, s, b) (wo_settling w)\<rparr>)"
| settle_answered: "(k, s, True) \<in> set (wo_settling w) \<Longrightarrow>
    metronome_step cron w (Settle_answered k)
      (replica_becomes k (settle_over s (wo_replica w k)) (w\<lparr>wo_settling := remove1 (k, s, True) (wo_settling w)\<rparr>))"
| settle_failed: "(k, s, b) \<in> set (wo_settling w) \<Longrightarrow>
    metronome_step cron w (Settle_failed k) (w\<lparr>wo_settling := remove1 (k, s, b) (wo_settling w)\<rparr>)"
| page_read: "di_scanning (wo_replica w k) \<Longrightarrow>
    scan_page region regions discreteness lanes now (wo_rows w) = Some page \<Longrightarrow>
    metronome_step cron w (Page_read k page) (w\<lparr>wo_pages := (k, page) # wo_pages w\<rparr>)"
| page_armed: "(k, map snd timed) \<in> set (wo_pages w) \<Longrightarrow>
    metronome_step cron w (Page_armed k timed)
      (logged (map (\<lambda>(now, r). Seen now r) timed)
        (replica_becomes k (scanned cron timed (wo_replica w k)) (w\<lparr>wo_pages := remove1 (k, map snd timed) (wo_pages w)\<rparr>)))"
| fired: "fire t (wo_replica w k) = (call, d) \<Longrightarrow>
    metronome_step cron w (Fired k t)
      (replica_becomes k d (w\<lparr>wo_calls := (case call of None \<Rightarrow> wo_calls w | Some r \<Rightarrow> (k, r) # wo_calls w)\<rparr>))"
| call_ended: "(k, r) \<in> set (wo_calls w) \<Longrightarrow>
    metronome_step cron w (Call_ended k r o')
      (logged (case o' of Taken \<Rightarrow> [Took r] | Refused_for_good \<Rightarrow> [Turned_away r] | Failed_on_the_way \<Rightarrow> [])
        (replica_becomes k (call_over r o' (wo_replica w k)) (w\<lparr>wo_calls := remove1 (k, r) (wo_calls w)\<rparr>)))"
| closed: "metronome_step cron w (Closed k) (settle_begins k (replica_becomes k (dispatcher_close (wo_replica w k)) w))"
| paused: "metronome_step cron w (Paused k) (settle_begins k (replica_becomes k (dispatcher_pause (wo_replica w k)) w))"
| unpaused: "metronome_step cron w (Unpaused k lanes)
    ((if starts_scan ((wo_replica w k)\<lparr>di_quiesced := False\<rparr>) then settle_begins k else id)
       (replica_becomes k (dispatcher_unpause lanes (wo_replica w k)) w))"
| crashed: "metronome_step cron w (Crashed k)
    (w\<lparr>wo_replica := (wo_replica w)(k := new_dispatcher), wo_pages := filter (\<lambda>(j, _). j \<noteq> k) (wo_pages w),
       wo_calls := filter (\<lambda>(j, _). j \<noteq> k) (wo_calls w), wo_settling := filter (\<lambda>(j, _). j \<noteq> k) (wo_settling w)\<rparr>)"

inductive metronome_reaches :: "cron \<Rightarrow> clockwork \<Rightarrow> bool" for cron where
  start: "metronome_reaches cron new_clockwork"
| further: "metronome_reaches cron w \<Longrightarrow> metronome_step cron w e w' \<Longrightarrow> metronome_reaches cron w'"

section \<open>What is owed\<close>

definition is_owed :: "clockwork \<Rightarrow> string \<Rightarrow> int \<Rightarrow> bool" where
  "is_owed w i t \<longleftrightarrow>
     (case map_of (wo_rows w) i of None \<Rightarrow> False | Some r \<Rightarrow> dl_deleted r = None \<and> dl_due r = t)"

text \<open>
  When a call needs no more: it was taken, or was past its bound when it was looked at, or its target will
  never take it. A schedule is over past its end, and once its call is refused for good.
\<close>

definition past :: "cron \<Rightarrow> int \<Rightarrow> delayed \<Rightarrow> bool" where
  "past cron now r \<longleftrightarrow>
     dl_expires r \<le> now \<or> dl_schedule r \<noteq> None \<and> (case bound cron now r of Inl _ \<Rightarrow> False | Inr b \<Rightarrow> b \<le> now)"

definition disposes :: "cron \<Rightarrow> string \<Rightarrow> int \<Rightarrow> happened \<Rightarrow> bool" where
  "disposes cron i t h =
     (case h of
        Took r \<Rightarrow> dl_id r = i \<and> dl_due r = t
      | Turned_away r \<Rightarrow> dl_schedule r = None \<and> dl_id r = i \<and> dl_due r = t
      | Seen now r \<Rightarrow> past cron now r \<and> dl_id r = i \<and> dl_due r = t)"

definition ends :: "string \<Rightarrow> happened \<Rightarrow> bool" where
  "ends i h =
     (case h of
        Took r \<Rightarrow> False
      | Turned_away r \<Rightarrow> dl_schedule r \<noteq> None \<and> dl_id r = i
      | Seen now r \<Rightarrow> dl_expires r \<le> now \<and> dl_schedule r \<noteq> None \<and> dl_id r = i)"

definition settled_rightly :: "cron \<Rightarrow> happened list \<Rightarrow> string \<Rightarrow> int \<Rightarrow> bool" where
  "settled_rightly cron hs i t \<longleftrightarrow> list_ex (\<lambda>h. disposes cron i t h \<or> ends i h) hs"

subsection \<open>What a replica holds is a row there was\<close>

definition was_there :: "metronome \<Rightarrow> string \<Rightarrow> string option \<Rightarrow> int \<Rightarrow> bool" where
  "was_there m i s t \<longleftrightarrow> (\<exists>r. map_of m i = Some r \<and> dl_schedule r = s \<and> (s = None \<longrightarrow> dl_due r = t))"

abbreviation was_row :: "metronome \<Rightarrow> delayed \<Rightarrow> bool" where
  "was_row m r \<equiv> was_there m (dl_id r) (dl_schedule r) (dl_due r)"

definition settlement_ok :: "cron \<Rightarrow> metronome \<Rightarrow> happened list \<Rightarrow> settlement \<Rightarrow> bool" where
  "settlement_ok cron m hs s \<longleftrightarrow>
     (\<forall>(i, t) \<in> set (fst s). list_ex (disposes cron i t) hs \<and> (\<exists>e. was_there m i e t)) \<and>
     (\<forall>i \<in> set (snd s). list_ex (ends i) hs \<and> (\<exists>e t. was_there m i (Some e) t))"

definition replica_ok :: "cron \<Rightarrow> metronome \<Rightarrow> happened list \<Rightarrow> dispatcher \<Rightarrow> bool" where
  "replica_ok cron m hs d \<longleftrightarrow>
     (\<forall>(t, r) \<in> set (di_timers d). was_row m r) \<and> settlement_ok cron m hs (di_called d, di_ended d)"

definition keyed :: "metronome \<Rightarrow> bool" where
  "keyed m \<longleftrightarrow> distinct (map fst m) \<and> (\<forall>(i, r) \<in> set m. dl_id r = i)"

definition clockwork_ok :: "cron \<Rightarrow> clockwork \<Rightarrow> bool" where
  "clockwork_ok cron w \<longleftrightarrow>
     keyed (wo_rows w) \<and>
     (\<forall>k. replica_ok cron (wo_rows w) (wo_log w) (wo_replica w k)) \<and>
     (\<forall>(k, page) \<in> set (wo_pages w). \<forall>r \<in> set page. was_row (wo_rows w) r) \<and>
     (\<forall>(k, r) \<in> set (wo_calls w). was_row (wo_rows w) r) \<and>
     (\<forall>(k, s, b) \<in> set (wo_settling w). settlement_ok cron (wo_rows w) (wo_log w) s)"

text \<open>Rows keep what they are: their schedule, and when they are due where they have none.\<close>

definition grows :: "metronome \<Rightarrow> metronome \<Rightarrow> bool" where
  "grows m m' \<longleftrightarrow> (\<forall>i s t. was_there m i s t \<longrightarrow> was_there m' i s t)"

lemma grows_refl [simp]: "grows m m"
  by (simp add: grows_def)

lemma grows_update:
  assumes "map_of m i = Some r" "dl_schedule r' = dl_schedule r" "dl_schedule r = None \<longrightarrow> dl_due r' = dl_due r"
  shows "grows m (AList.update i r' m)"
  using assms by (auto simp: grows_def was_there_def update_conv')

lemma grows_new: "map_of m i = None \<Longrightarrow> grows m (AList.update i r m)"
  by (auto simp: grows_def was_there_def update_conv')

lemma settlement_ok_mono:
  "settlement_ok cron m hs s \<Longrightarrow> grows m m' \<Longrightarrow> set hs \<subseteq> set hs' \<Longrightarrow> settlement_ok cron m' hs' s"
  unfolding settlement_ok_def grows_def list_ex_iff by (fastforce split: prod.splits)

lemma replica_ok_mono:
  "replica_ok cron m hs d \<Longrightarrow> grows m m' \<Longrightarrow> set hs \<subseteq> set hs' \<Longrightarrow> replica_ok cron m' hs' d"
  unfolding replica_ok_def using settlement_ok_mono by (auto simp: grows_def)

lemma was_row_grows: "was_row m r \<Longrightarrow> grows m m' \<Longrightarrow> was_row m' r"
  by (simp add: grows_def)

lemma settlement_ok_filter:
  assumes "settlement_ok cron m hs s" "set made \<subseteq> set (fst s)" "set ended \<subseteq> set (snd s)"
  shows "settlement_ok cron m hs (made, ended)"
  using assms unfolding settlement_ok_def by (auto 0 3)

lemma set_update_subset: "set (AList.update k v ps) \<subseteq> insert (k, v) (set ps)"
  by (induction ps) auto

lemma settlement_ok_made:
  assumes "settlement_ok cron m hs s" "list_ex (disposes cron i t) hs" "was_there m i e t"
  shows "settlement_ok cron m hs (AList.update i t (fst s), snd s)"
  using assms set_update_subset [of i t "fst s"] unfolding settlement_ok_def by (auto 0 3)

lemma settlement_ok_ended:
  assumes "settlement_ok cron m hs s" "list_ex (ends i) hs" "was_there m i (Some e) t"
  shows "settlement_ok cron m hs (fst s, sadd i (snd s))"
  using assms unfolding settlement_ok_def by auto

subsection \<open>What every operation of a dispatcher keeps\<close>

lemma replica_ok_new [simp]: "replica_ok cron m hs new_dispatcher"
  by (simp add: replica_ok_def settlement_ok_def new_dispatcher_def)

lemma replica_ok_flags [simp]:
  "replica_ok cron m hs (d\<lparr>di_scanning := b\<rparr>) = replica_ok cron m hs d"
  "replica_ok cron m hs (d\<lparr>di_closing := b\<rparr>) = replica_ok cron m hs d"
  "replica_ok cron m hs (d\<lparr>di_quiesced := b\<rparr>) = replica_ok cron m hs d"
  "replica_ok cron m hs (d\<lparr>di_armed := a\<rparr>) = replica_ok cron m hs d"
  by (simp_all add: replica_ok_def)

lemma retain_ok: "replica_ok cron m hs d \<Longrightarrow> replica_ok cron m hs (retain keeps d)"
  by (auto simp: replica_ok_def retain_def Let_def)

lemma tick_ok: "replica_ok cron m hs (dispatcher_tick d) = replica_ok cron m hs d"
  by (simp add: dispatcher_tick_def)

lemma adopt_ok: "replica_ok cron m hs d \<Longrightarrow> replica_ok cron m hs (adopt lanes d)"
  by (simp add: adopt_def tick_ok disarm_def retain_ok)

lemma unpause_ok: "replica_ok cron m hs d \<Longrightarrow> replica_ok cron m hs (dispatcher_unpause lanes d)"
  by (simp add: dispatcher_unpause_def adopt_ok)

lemma settle_over_ok: "replica_ok cron m hs d \<Longrightarrow> replica_ok cron m hs (settle_over s d)"
  by (auto simp: replica_ok_def settle_over_def intro: settlement_ok_filter)

lemma fire_ok:
  assumes "replica_ok cron m hs d" "fire t d = (call, d')"
  shows "replica_ok cron m hs d' \<and> (\<forall>r. call = Some r \<longrightarrow> was_row m r)"
proof (cases "map_of (di_timers d) t")
  case None
  then show ?thesis using assms by (simp add: fire_def)
next
  case (Some r)
  then have "was_row m r" using assms(1) map_of_SomeD [OF Some] unfolding replica_ok_def by blast
  moreover have "replica_ok cron m hs (d\<lparr>di_timers := AList.delete t (di_timers d)\<rparr>)"
    using assms(1) by (auto simp: replica_ok_def AList.delete_eq)
  ultimately show ?thesis
    using assms(2) Some by (auto simp: fire_def Let_def split: if_splits)
qed

lemma called_ok:
  "replica_ok cron m hs d \<Longrightarrow> list_ex (disposes cron i t) hs \<Longrightarrow> was_there m i e t \<Longrightarrow>
     replica_ok cron m hs (d\<lparr>di_called := AList.update i t (di_called d)\<rparr>)"
  using settlement_ok_made [of cron m hs "(di_called d, di_ended d)"] by (simp add: replica_ok_def)

lemma ended_ok:
  "replica_ok cron m hs d \<Longrightarrow> list_ex (ends i) hs \<Longrightarrow> was_there m i (Some e) t \<Longrightarrow>
     replica_ok cron m hs (d\<lparr>di_ended := sadd i (di_ended d)\<rparr>)"
  using settlement_ok_ended [of cron m hs "(di_called d, di_ended d)"] by (simp add: replica_ok_def)

lemma call_over_ok:
  assumes "replica_ok cron m hs d" "was_row m r"
    and "o' = Taken \<Longrightarrow> Took r \<in> set hs" "o' = Refused_for_good \<Longrightarrow> Turned_away r \<in> set hs"
  shows "replica_ok cron m hs (call_over r o' d)"
proof (cases o')
  case Taken
  then have "list_ex (disposes cron (dl_id r) (dl_due r)) hs"
    using assms(3) by (auto simp: list_ex_iff disposes_def split: happened.splits intro!: bexI [of _ "Took r"])
  then show ?thesis using called_ok [OF assms(1) _ assms(2)] Taken by (simp add: call_over_def Let_def)
next
  case Refused_for_good
  then have "Turned_away r \<in> set hs" using assms(4) by simp
  then have "list_ex (if dl_schedule r = None then disposes cron (dl_id r) (dl_due r) else ends (dl_id r)) hs"
    by (auto simp: list_ex_iff disposes_def ends_def split: happened.splits intro!: bexI [of _ "Turned_away r"])
  then show ?thesis
    using called_ok [OF assms(1) _ assms(2)] ended_ok [OF assms(1)] assms(2) Refused_for_good
    by (auto simp: call_over_def Let_def)
next
  case Failed_on_the_way
  then show ?thesis using assms(1) by (simp add: call_over_def)
qed

lemma arm_ok:
  assumes "replica_ok cron m hs d" "was_row m r" "Seen now r \<in> set hs"
  shows "replica_ok cron m hs (arm r (arming_of cron now r d) d)"
proof (cases "arming_of cron now r d")
  case Over
  then have "ends (dl_id r) (Seen now r)" "dl_schedule r \<noteq> None"
    by (auto simp: arming_of_def ends_def Let_def split: if_splits option.splits sum.splits)
  then show ?thesis
    using ended_ok [OF assms(1), of "dl_id r"] assms(2,3) Over by (fastforce simp: arm_def list_ex_iff)
next
  case Lapsed
  then have "disposes cron (dl_id r) (dl_due r) (Seen now r)"
    by (auto simp: arming_of_def disposes_def past_def Let_def split: if_splits option.splits sum.splits)
  then show ?thesis
    using called_ok [OF assms(1) _ assms(2)] assms(3) Lapsed by (auto simp: arm_def list_ex_iff)
next
  case (Arms x)
  then show ?thesis using assms(1,2) by (auto simp: arm_def replica_ok_def)
qed (use assms(1) in \<open>simp_all add: arm_def\<close>)

lemma arm_page_ok:
  assumes "replica_ok cron m hs d" "\<And>now r. (now, r) \<in> set page \<Longrightarrow> was_row m r \<and> Seen now r \<in> set hs"
  shows "replica_ok cron m hs (snd (arm_page cron page d))"
  using assms
proof (induction page arbitrary: d)
  case (Cons x page)
  obtain now r where x: "x = (now, r)" by (cases x)
  have "was_row m r" "Seen now r \<in> set hs" using Cons.prems(2) [of now r] x by simp_all
  note armed = arm_ok [OF Cons.prems(1) this]
  have "replica_ok cron m hs (snd (arm_page cron page (arm r (arming_of cron now r d) d)))"
    by (rule Cons.IH [OF armed]) (use Cons.prems(2) in auto)
  then show ?case
    using Cons.prems(1) x by (cases "arming_of cron now r d") simp_all
qed simp

lemma scanned_ok:
  assumes "replica_ok cron m hs d" "\<And>now r. (now, r) \<in> set page \<Longrightarrow> was_row m r \<and> Seen now r \<in> set hs"
  shows "replica_ok cron m hs (scanned cron page d)"
proof -
  have "replica_ok cron m hs (snd (arm_page cron page d))" by (rule arm_page_ok) (use assms in blast)+
  then show ?thesis
    by (cases "arm_page cron page d") (simp add: scanned_def scan_over_def forget_def retain_ok split: sum.split)
qed

subsection \<open>What every step keeps\<close>

lemma settle_row_same:
  "settle_row cron now made ended r = Inr r' \<Longrightarrow>
     dl_id r' = dl_id r \<and> dl_schedule r' = dl_schedule r \<and> (dl_schedule r = None \<longrightarrow> dl_due r' = dl_due r)"
  by (auto simp: settle_row_def rbind_eq_Inr split: if_splits option.splits)

lemma settle_store_row:
  assumes "settle_store cron now s m = Inr m'" "map_of m i = Some r"
  shows "\<exists>r'. map_of m' i = Some r' \<and> (r' = r \<or> selects s r \<and> settle_row cron now (fst s) (snd s) r = Inr r')"
  using assms
proof (induction m arbitrary: m')
  case (Cons x m)
  obtain j q where x: "x = (j, q)" by (cases x)
  with Cons.prems(1) obtain q' m1 where m': "m' = (j, q') # m1" "settle_store cron now s m = Inr m1"
    and q': "(if selects s q then settle_row cron now (fst s) (snd s) q else Inr q) = Inr q'"
    by (auto simp: rbind_eq_Inr)
  show ?case
  proof (cases "i = j")
    case True
    then show ?thesis using Cons.prems(2) x m'(1) q' by (auto split: if_splits)
  next
    case False
    then show ?thesis using Cons.IH [OF m'(2)] Cons.prems(2) x m'(1) by simp
  qed
qed simp

lemma settle_store_keyed:
  assumes "settle_store cron now s m = Inr m'" "keyed m"
  shows "keyed m'"
proof -
  have "map fst m' = map fst m \<and> (\<forall>(i, r) \<in> set m'. dl_id r = i)"
    using assms unfolding keyed_def
  proof (induction m arbitrary: m')
    case (Cons x m)
    then show ?case by (cases x) (auto simp: rbind_eq_Inr dest!: settle_row_same split: if_splits)
  qed simp
  then show ?thesis using assms(2) by (simp add: keyed_def)
qed

lemma settle_store_grows:
  assumes "settle_store cron now s m = Inr m'"
  shows "grows m m'"
  unfolding grows_def
proof (intro allI impI)
  fix i e t
  assume "was_there m i e t"
  then obtain r where r: "map_of m i = Some r" "dl_schedule r = e" "e = None \<longrightarrow> dl_due r = t"
    unfolding was_there_def by (elim exE conjE)
  from settle_store_row [OF assms r(1)] obtain r' where "map_of m' i = Some r'"
    and same: "r' = r \<or> selects s r \<and> settle_row cron now (fst s) (snd s) r = Inr r'" by (elim exE conjE)
  moreover from same have "dl_schedule r' = dl_schedule r \<and> (dl_schedule r = None \<longrightarrow> dl_due r' = dl_due r)"
    by (elim disjE conjE) (simp, blast dest: settle_row_same)
  ultimately show "was_there m' i e t"
    using r(2,3) by (simp add: was_there_def)
qed

text \<open>
  Where the rows keep what they are, and what happened is not forgotten, all that is held is as it
  should be still.
\<close>

lemma clockwork_ok_mono:
  assumes "clockwork_ok cron w" "grows (wo_rows w) m" "keyed m" "set (wo_log w) \<subseteq> set hs"
  shows "clockwork_ok cron (w\<lparr>wo_rows := m, wo_log := hs\<rparr>)"
  unfolding clockwork_ok_def
proof (intro conjI)
  show "\<forall>k. replica_ok cron (wo_rows (w\<lparr>wo_rows := m, wo_log := hs\<rparr>)) (wo_log (w\<lparr>wo_rows := m, wo_log := hs\<rparr>))
      (wo_replica (w\<lparr>wo_rows := m, wo_log := hs\<rparr>) k)"
    using assms(1) replica_ok_mono [OF _ assms(2,4)] by (simp add: clockwork_ok_def)
  show "\<forall>(k, s, b) \<in> set (wo_settling (w\<lparr>wo_rows := m, wo_log := hs\<rparr>)).
      settlement_ok cron (wo_rows (w\<lparr>wo_rows := m, wo_log := hs\<rparr>)) (wo_log (w\<lparr>wo_rows := m, wo_log := hs\<rparr>)) s"
    using assms(1) settlement_ok_mono [OF _ assms(2,4)] by (auto simp: clockwork_ok_def)
qed (use assms(1,2,3) in \<open>auto simp: clockwork_ok_def grows_def\<close>)

lemma clockwork_ok_rows:
  "clockwork_ok cron w \<Longrightarrow> grows (wo_rows w) m \<Longrightarrow> keyed m \<Longrightarrow> clockwork_ok cron (w\<lparr>wo_rows := m\<rparr>)"
  using clockwork_ok_mono [of cron w m "wo_log w"] by simp

lemma clockwork_ok_logged:
  assumes "clockwork_ok cron w"
  shows "clockwork_ok cron (logged hs w)"
proof -
  have "clockwork_ok cron (w\<lparr>wo_rows := wo_rows w, wo_log := hs @ wo_log w\<rparr>)"
    by (rule clockwork_ok_mono [OF assms]) (use assms in \<open>simp_all add: clockwork_ok_def\<close>)
  then show ?thesis by (simp add: logged_def)
qed

lemma clockwork_ok_replica:
  assumes "clockwork_ok cron w" "replica_ok cron (wo_rows w) (wo_log w) d"
  shows "clockwork_ok cron (replica_becomes k d w)"
  using assms by (simp add: clockwork_ok_def replica_becomes_def)

lemma clockwork_ok_less:
  assumes "clockwork_ok cron w" "set pages \<subseteq> set (wo_pages w)" "set calls \<subseteq> set (wo_calls w)"
    "set settling \<subseteq> set (wo_settling w)"
  shows "clockwork_ok cron (w\<lparr>wo_pages := pages, wo_calls := calls, wo_settling := settling\<rparr>)"
  using assms unfolding clockwork_ok_def by (auto 0 3)

lemma settle_begins_ok: "clockwork_ok cron w \<Longrightarrow> clockwork_ok cron (settle_begins k w)"
  by (auto simp: clockwork_ok_def settle_begins_def settlement_of_def replica_ok_def split: option.splits if_splits)

lemma clockwork_ok_less_one:
  assumes "clockwork_ok cron w"
  shows "clockwork_ok cron (w\<lparr>wo_pages := remove1 p (wo_pages w)\<rparr>)"
    "clockwork_ok cron (w\<lparr>wo_calls := remove1 c (wo_calls w)\<rparr>)"
    "clockwork_ok cron (w\<lparr>wo_settling := remove1 x (wo_settling w)\<rparr>)"
  using assms set_remove1_subset unfolding clockwork_ok_def by (fastforce, fastforce, fastforce)

lemma keyed_update: "keyed m \<Longrightarrow> dl_id q = j \<Longrightarrow> keyed (AList.update j q m)"
  using set_update_subset [of j q m] distinct_update [of m j q] unfolding keyed_def by blast

lemma keyed_row: "keyed m \<Longrightarrow> r \<in> snd ` set m \<Longrightarrow> map_of m (dl_id r) = Some r"
  unfolding keyed_def by (auto intro: map_of_is_SomeI)

lemma keyed_id: "keyed m \<Longrightarrow> map_of m i = Some r \<Longrightarrow> dl_id r = i"
  unfolding keyed_def by (auto dest: map_of_SomeD)

lemma logged_replica: "logged hs (replica_becomes k d w) = replica_becomes k d (logged hs w)"
  by (cases w) (simp add: logged_def replica_becomes_def)

lemma clockwork_okD:
  assumes "clockwork_ok cron w"
  shows "replica_ok cron (wo_rows w) (wo_log w) (wo_replica w k)"
    "keyed (wo_rows w)"
    "(k, page) \<in> set (wo_pages w) \<Longrightarrow> r \<in> set page \<Longrightarrow> was_row (wo_rows w) r"
    "(k, r) \<in> set (wo_calls w) \<Longrightarrow> was_row (wo_rows w) r"
    "(k, s, b) \<in> set (wo_settling w) \<Longrightarrow> settlement_ok cron (wo_rows w) (wo_log w) s"
  using assms unfolding clockwork_ok_def by fastforce+

lemma store_step_keeps:
  assumes "clockwork_ok cron w"
  shows "metronome_ensure r (wo_rows w) = Some m \<Longrightarrow> clockwork_ok cron (w\<lparr>wo_rows := m\<rparr>)"
    and "map_of (wo_rows w) i = Some r \<Longrightarrow>
      clockwork_ok cron (w\<lparr>wo_rows := AList.update i (r\<lparr>dl_deleted := Some now\<rparr>) (wo_rows w)\<rparr>)"
    and "map_of (wo_rows w) i = Some r \<Longrightarrow> dl_schedule r \<noteq> None \<Longrightarrow>
      metronome_resume i due lane (wo_rows w) = Inr m \<Longrightarrow> clockwork_ok cron (w\<lparr>wo_rows := m\<rparr>)"
    and "settle_store cron now s (wo_rows w) = Inr m \<Longrightarrow> clockwork_ok cron (w\<lparr>wo_rows := m\<rparr>)"
proof -
  note keyed = clockwork_okD(2) [OF assms] and rows = clockwork_ok_rows [OF assms]
  show "clockwork_ok cron (w\<lparr>wo_rows := m\<rparr>)" if "metronome_ensure r (wo_rows w) = Some m"
  proof (rule rows)
    show "grows (wo_rows w) m" "keyed m"
      using that grows_new keyed_update [OF keyed] keyed by (auto simp: metronome_ensure_def split: option.splits if_splits)
  qed
  note id = keyed_id [OF keyed]
  show "clockwork_ok cron (w\<lparr>wo_rows := AList.update i (r\<lparr>dl_deleted := Some now\<rparr>) (wo_rows w)\<rparr>)"
    if "map_of (wo_rows w) i = Some r"
    by (rule rows) (use id [OF that] grows_update [OF that] keyed_update [OF keyed, of "r\<lparr>dl_deleted := Some now\<rparr>"] in simp_all)
  show "clockwork_ok cron (w\<lparr>wo_rows := m\<rparr>)"
    if "map_of (wo_rows w) i = Some r" "dl_schedule r \<noteq> None" "metronome_resume i due lane (wo_rows w) = Inr m"
  proof (rule rows)
    have "m = AList.update i (resume due lane r) (wo_rows w)" using that by (simp add: metronome_resume_def)
    then show "grows (wo_rows w) m" "keyed m"
      using that(2) id [OF that(1)] grows_update [OF that(1)] keyed_update [OF keyed, of "resume due lane r"]
      by (auto simp: resume_def)
  qed
  show "clockwork_ok cron (w\<lparr>wo_rows := m\<rparr>)" if "settle_store cron now s (wo_rows w) = Inr m"
    by (rule rows) (use settle_store_grows [OF that] settle_store_keyed [OF that keyed] in auto)
qed

lemma replica_step_keeps:
  assumes "clockwork_ok cron w" "\<And>m hs. replica_ok cron m hs (wo_replica w k) \<Longrightarrow> replica_ok cron m hs d"
  shows "clockwork_ok cron (replica_becomes k d w)"
  by (rule clockwork_ok_replica [OF assms(1)]) (use assms(2) clockwork_okD(1) [OF assms(1)] in blast)

lemma page_read_keeps:
  assumes "clockwork_ok cron w" "scan_page region regions discreteness lanes now (wo_rows w) = Some page"
  shows "clockwork_ok cron (w\<lparr>wo_pages := (k, page) # wo_pages w\<rparr>)"
proof -
  have "was_row (wo_rows w) r" if "r \<in> set page" for r
    using that assms(2) keyed_row [OF clockwork_okD(2) [OF assms(1)], of r]
    by (auto simp: scan_page_def enumerate_due_def was_there_def dest!: in_set_takeD split: option.splits list.splits)
  then show ?thesis using assms(1) by (auto simp: clockwork_ok_def)
qed

lemma page_armed_keeps:
  assumes "clockwork_ok cron w" "(k, map snd timed) \<in> set (wo_pages w)"
  shows "clockwork_ok cron
      (logged (map (\<lambda>(now, r). Seen now r) timed)
        (replica_becomes k (scanned cron timed (wo_replica w k)) (w\<lparr>wo_pages := remove1 p (wo_pages w)\<rparr>)))"
proof -
  let ?w = "logged (map (\<lambda>(now, r). Seen now r) timed) (w\<lparr>wo_pages := remove1 p (wo_pages w)\<rparr>)"
  have ok: "clockwork_ok cron ?w"
    by (intro clockwork_ok_logged clockwork_ok_less_one assms(1))
  have "replica_ok cron (wo_rows ?w) (wo_log ?w) (scanned cron timed (wo_replica ?w k))"
  proof (rule scanned_ok [OF clockwork_okD(1) [OF ok]])
    fix now r
    assume "(now, r) \<in> set timed"
    then show "was_row (wo_rows ?w) r \<and> Seen now r \<in> set (wo_log ?w)"
      using clockwork_okD(3) [OF assms] by (force simp: logged_def)
  qed
  from clockwork_ok_replica [OF ok this, of k] show ?thesis
    by (simp add: logged_replica) (simp add: logged_def)
qed

lemma call_ended_keeps:
  assumes "clockwork_ok cron w" "(k, r) \<in> set (wo_calls w)"
  shows "clockwork_ok cron
      (logged (case o' of Taken \<Rightarrow> [Took r] | Refused_for_good \<Rightarrow> [Turned_away r] | Failed_on_the_way \<Rightarrow> [])
        (replica_becomes k (call_over r o' (wo_replica w k)) (w\<lparr>wo_calls := remove1 c (wo_calls w)\<rparr>)))"
proof -
  let ?w = "logged (case o' of Taken \<Rightarrow> [Took r] | Refused_for_good \<Rightarrow> [Turned_away r] | Failed_on_the_way \<Rightarrow> [])
    (w\<lparr>wo_calls := remove1 c (wo_calls w)\<rparr>)"
  have ok: "clockwork_ok cron ?w"
    by (intro clockwork_ok_logged clockwork_ok_less_one assms(1))
  have "replica_ok cron (wo_rows ?w) (wo_log ?w) (call_over r o' (wo_replica ?w k))"
    by (rule call_over_ok [OF clockwork_okD(1) [OF ok]]) (use clockwork_okD(4) [OF assms] in \<open>simp_all add: logged_def\<close>)
  from clockwork_ok_replica [OF ok this, of k] show ?thesis
    by (simp add: logged_replica) (simp add: logged_def)
qed

lemma settle_marked:
  assumes "clockwork_ok cron w" "(k, s, b) \<in> set (wo_settling w)"
  shows "clockwork_ok cron (w\<lparr>wo_settling := (k, s, b') # remove1 x (wo_settling w)\<rparr>)"
  using clockwork_ok_less_one(3) [OF assms(1)] clockwork_okD(5) [OF assms] by (simp add: clockwork_ok_def)

lemma step_keeps:
  assumes "metronome_step cron w e w'" "clockwork_ok cron w"
  shows "clockwork_ok cron w'"
  using assms(1)
proof cases
  case (settle_written k s b now m)
  from settle_marked [OF store_step_keeps(4) [OF assms(2) settle_written(4)]] settle_written(3)
  show ?thesis unfolding settle_written(2) by simp
next
  case (settle_answered k s)
  show ?thesis
    unfolding settle_answered(2)
    by (rule replica_step_keeps [OF clockwork_ok_less_one(3) [OF assms(2)]]) (simp add: settle_over_ok)
next
  case (fired t k call d)
  note kept = fire_ok [OF clockwork_okD(1) [OF assms(2)] fired(3)]
  then have "clockwork_ok cron (w\<lparr>wo_calls := (case call of None \<Rightarrow> wo_calls w | Some r \<Rightarrow> (k, r) # wo_calls w)\<rparr>)"
    using assms(2) by (auto simp: clockwork_ok_def split: option.splits)
  from clockwork_ok_replica [OF this] kept show ?thesis unfolding fired(2) by simp
next
  case (crashed k)
  from clockwork_ok_less [OF clockwork_ok_replica [OF assms(2) replica_ok_new]]
  have "clockwork_ok cron ((replica_becomes k new_dispatcher w)
      \<lparr>wo_pages := filter (\<lambda>(j, _). j \<noteq> k) (wo_pages w), wo_calls := filter (\<lambda>(j, _). j \<noteq> k) (wo_calls w),
       wo_settling := filter (\<lambda>(j, _). j \<noteq> k) (wo_settling w)\<rparr>)"
    by (simp add: replica_becomes_def)
  then show ?thesis unfolding crashed(2) by (simp add: replica_becomes_def)
qed (use assms(2) in \<open>simp_all add: store_step_keeps settle_begins_ok replica_step_keeps tick_ok adopt_ok
   settle_over_ok clockwork_ok_less_one page_read_keeps page_armed_keeps call_ended_keeps dispatcher_close_def
   dispatcher_pause_def retain_ok unpause_ok scan_over_def\<close>)

lemma reached_ok: "metronome_reaches cron w \<Longrightarrow> clockwork_ok cron w"
proof (induction rule: metronome_reaches.induct)
  case start
  then show ?case by (simp add: clockwork_ok_def new_clockwork_def keyed_def)
qed (rule step_keeps)

section \<open>A call is struck off for a reason\<close>

lemma settles_rightly:
  assumes "settlement_ok cron m hs s" "settle_store cron now (part_of ids s) m = Inr m'" "map_of m i = Some r"
    and "dl_id r = i" "dl_deleted r = None"
    and changes: "\<not> (\<exists>r'. map_of m' i = Some r' \<and> dl_deleted r' = None \<and> dl_due r' = dl_due r)"
  shows "settled_rightly cron hs i (dl_due r)"
proof -
  let ?p = "part_of ids s"
  from settle_store_row [OF assms(2,3)] obtain r' where r': "map_of m' i = Some r'"
    and moved: "r' = r \<or> selects ?p r \<and> settle_row cron now (fst ?p) (snd ?p) r = Inr r'" by (elim exE conjE)
  with changes assms(5) have settled: "selects ?p r" "settle_row cron now (fst ?p) (snd ?p) r = Inr r'" "r' \<noteq> r"
    by auto
  consider (ended) "i \<in> set (snd s)" | (made) "i \<notin> set (snd s)" "(i, dl_due r) \<in> set (fst s)"
    | (once) t where "i \<notin> set (snd s)" "dl_schedule r = None" "(i, t) \<in> set (fst s)"
  proof (cases "i \<in> set (snd s)")
    case False
    then have notin: "dl_id r \<notin> set (snd ?p)" using assms(4) by (simp add: part_of_def)
    then obtain t where t: "(i, t) \<in> set (fst s)"
      using settled(1) assms(4) by (auto simp: selects_def part_of_def)
    show thesis
    proof (cases "dl_schedule r = None")
      case True
      then show thesis using once False t by blast
    next
      case recurs: False
      then have "map_of (fst ?p) i = Some (dl_due r)"
        using settled(2,3) notin assms(4) by (auto simp: settle_row_def split: if_splits)
      then show thesis using made False by (auto simp: part_of_def dest: map_of_SomeD)
    qed
  qed (rule ended)
  then show ?thesis
  proof cases
    case ended
    then show ?thesis using assms(1) by (auto simp: settlement_ok_def settled_rightly_def list_ex_iff)
  next
    case made
    then show ?thesis using assms(1) by (fastforce simp: settlement_ok_def settled_rightly_def list_ex_iff)
  next
    case (once t)
    then have "list_ex (disposes cron i t) hs" "t = dl_due r"
      using assms(1,3) by (fastforce simp: settlement_ok_def was_there_def)+
    then show ?thesis by (auto simp: settled_rightly_def list_ex_iff)
  qed
qed

lemma part_of_whole: "part_of (map fst (fst s) @ snd s) s = s"
  by (force simp: part_of_def intro!: prod_eqI filter_True)

lemma is_owed_rows: "wo_rows w' = wo_rows w \<Longrightarrow> is_owed w' i t = is_owed w i t"
  by (simp add: is_owed_def)

lemma rows_same [simp]:
  "wo_rows (replica_becomes k d w) = wo_rows w" "wo_rows (logged hs w) = wo_rows w" "wo_rows (settle_begins k w) = wo_rows w"
  by (simp_all add: replica_becomes_def logged_def settle_begins_def split: option.split)

lemma settle_owed:
  assumes "clockwork_ok cron w" "(k, s, b) \<in> set (wo_settling w)"
    and "settle_store cron now (part_of ids s) (wo_rows w) = Inr m" "wo_rows w' = m" "is_owed w i t" "\<not> is_owed w' i t"
  shows "settled_rightly cron (wo_log w) i t"
proof -
  obtain r where r: "map_of (wo_rows w) i = Some r" "dl_deleted r = None" "dl_due r = t"
    using assms(5) by (auto simp: is_owed_def split: option.splits)
  have "\<not> (\<exists>r'. map_of m i = Some r' \<and> dl_deleted r' = None \<and> dl_due r' = dl_due r)"
    using assms(4,6) r(3) by (auto simp: is_owed_def)
  from settles_rightly [OF clockwork_okD(5) [OF assms(1,2)] assms(3) r(1) _ r(2) this] show ?thesis
    using keyed_id [OF clockwork_okD(2) [OF assms(1)] r(1)] r(3) by simp
qed

text \<open>
  C8. A call that was put off stays owed until there is a reason: in whatever order replicas scan, call,
  settle, change lanes, pause and crash, with writes that fail halfway and answers that come late, an
  occurrence is struck off only by who cancels it or hands its schedule over again, or else it was taken,
  was past its bound, was refused for good, or its schedule was over.
\<close>

theorem struck_for_a_reason:
  assumes "metronome_reaches cron w" "metronome_step cron w e w'" "is_owed w i t" "\<not> is_owed w' i t"
  shows "settled_rightly cron (wo_log w) i t \<or> (\<exists>now. e = Cancelled i now) \<or> (\<exists>due lane. e = Resumed i due lane)"
  using assms(2)
proof cases
  case (written r m)
  then have "is_owed w' i t"
    using assms(3) by (auto simp: metronome_ensure_def is_owed_def split: option.splits if_splits)
  with assms(4) show ?thesis ..
next
  case (cancelled j r now)
  then have "i = j" using assms(3,4) by (auto simp: is_owed_def split: if_splits)
  with cancelled show ?thesis by simp
next
  case (resumed j r due lane m)
  then have "i = j" using assms(3,4) by (auto simp: is_owed_def metronome_resume_def split: if_splits)
  with resumed show ?thesis by simp
next
  case (settle_parted k s b now ids m)
  with settle_owed [OF reached_ok [OF assms(1)] settle_parted(3,4) _ assms(3,4)] show ?thesis by simp
next
  case (settle_written k s b now m)
  from settle_owed [OF reached_ok [OF assms(1)] settle_written(3), of now "map fst (fst s) @ snd s", OF _ _ assms(3,4)]
  show ?thesis using settle_written by (simp add: part_of_whole)
qed (use assms(3,4) in \<open>auto simp: is_owed_def split: if_splits\<close>)

definition sample_call :: delayed where
  "sample_call = row_of ''a'' 0 ''default.pots.clean'' 10 (Some 50) None None"

text \<open>A row is written, read by a scan, called and taken, and a later scan has its settlement to write.\<close>

definition sample_clockwork :: clockwork where
  "sample_clockwork =
     (let w1 = new_clockwork\<lparr>wo_rows := [(''a'', sample_call)]\<rparr>;
          w2 = settle_begins 0 (replica_becomes 0 (dispatcher_tick (wo_replica w1 0)) w1);
          w3 = w2\<lparr>wo_pages := (0, [sample_call]) # wo_pages w2\<rparr>;
          w4 = logged [Seen 5 sample_call] (replica_becomes 0 (scanned sample_cron [(5, sample_call)] (wo_replica w3 0))
                 (w3\<lparr>wo_pages := remove1 (0, [sample_call]) (wo_pages w3)\<rparr>));
          w5 = replica_becomes 0 (snd (fire 0 (wo_replica w4 0))) (w4\<lparr>wo_calls := (0, sample_call) # wo_calls w4\<rparr>);
          w6 = logged [Took sample_call] (replica_becomes 0 (call_over sample_call Taken (wo_replica w5 0))
                 (w5\<lparr>wo_calls := remove1 (0, sample_call) (wo_calls w5)\<rparr>))
      in settle_begins 0 (replica_becomes 0 (dispatcher_tick (wo_replica w6 0)) w6))"

lemma sample_clockwork_reached: "metronome_reaches sample_cron sample_clockwork"
proof -
  note unfolded = new_clockwork_def new_dispatcher_def settle_begins_def replica_becomes_def logged_def dispatcher_tick_def
    starts_scan_def settlement_of_def scanned_def arming_of_def arm_def scan_over_def forget_def retain_def BATCH_ROWS_def
    fire_def call_over_def sample_call_def row_of_def Let_def scan_page_def enumerate_due_def
  let ?w1 = "new_clockwork\<lparr>wo_rows := [(''a'', sample_call)]\<rparr>"
  let ?w2 = "settle_begins 0 (replica_becomes 0 (dispatcher_tick (wo_replica ?w1 0)) ?w1)"
  let ?w3 = "?w2\<lparr>wo_pages := (0, [sample_call]) # wo_pages ?w2\<rparr>"
  let ?w4 = "logged [Seen 5 sample_call] (replica_becomes 0 (scanned sample_cron [(5, sample_call)] (wo_replica ?w3 0))
    (?w3\<lparr>wo_pages := remove1 (0, [sample_call]) (wo_pages ?w3)\<rparr>))"
  let ?w5 = "replica_becomes 0 (snd (fire 0 (wo_replica ?w4 0))) (?w4\<lparr>wo_calls := (0, sample_call) # wo_calls ?w4\<rparr>)"
  let ?w6 = "logged [Took sample_call] (replica_becomes 0 (call_over sample_call Taken (wo_replica ?w5 0))
    (?w5\<lparr>wo_calls := remove1 (0, sample_call) (wo_calls ?w5)\<rparr>))"
  have "metronome_step sample_cron new_clockwork (Written sample_call) ?w1"
    by (rule metronome_step.written) (simp add: metronome_ensure_def unfolded)
  note w1 = further [OF start this]
  have "metronome_step sample_cron ?w1 (Ticked 0) ?w2"
    by (rule metronome_step.ticked) (simp add: unfolded)
  note w2 = further [OF w1 this]
  have "metronome_step sample_cron ?w2 (Page_read 0 [sample_call]) ?w3"
    by (rule metronome_step.page_read [where region = "\<lambda>_. 0" and regions = "[0]" and discreteness = 60 and lanes = "Some [0]" and now = 5])
      (simp_all add: unfolded)
  note w3 = further [OF w2 this]
  have "metronome_step sample_cron ?w3 (Page_armed 0 [(5, sample_call)]) ?w4"
    using metronome_step.page_armed [of 0 "[(5, sample_call)]" ?w3 sample_cron] by simp
  note w4 = further [OF w3 this]
  have "fire 0 (wo_replica ?w4 0) = (Some sample_call, snd (fire 0 (wo_replica ?w4 0)))"
    by code_simp
  from metronome_step.fired [OF this, of sample_cron] have "metronome_step sample_cron ?w4 (Fired 0 0) ?w5" by simp
  note w5 = further [OF w4 this]
  have "metronome_step sample_cron ?w5 (Call_ended 0 sample_call Taken) ?w6"
    using metronome_step.call_ended [of 0 sample_call ?w5 sample_cron Taken] by (simp add: replica_becomes_def)
  note w6 = further [OF w5 this]
  have "metronome_step sample_cron ?w6 (Ticked 0) (settle_begins 0 (replica_becomes 0 (dispatcher_tick (wo_replica ?w6 0)) ?w6))"
    by (rule metronome_step.ticked) (simp add: unfolded)
  from further [OF w6 this] show ?thesis unfolding sample_clockwork_def Let_def .
qed

lemma struck_for_a_reason_witness:
  "\<exists>w'. metronome_step sample_cron sample_clockwork (Settle_written 0 20) w' \<and> is_owed sample_clockwork ''a'' 10 \<and>
     \<not> is_owed w' ''a'' 10 \<and> settled_rightly sample_cron (wo_log sample_clockwork) ''a'' 10"
proof -
  have rows: "wo_rows sample_clockwork = [(''a'', sample_call)]" "wo_settling sample_clockwork = [(0, ([(''a'', 10)], []), False)]"
    by code_simp+
  have "settle_store sample_cron 20 ([(''a'', 10)], []) (wo_rows sample_clockwork) = Inr [(''a'', sample_call\<lparr>dl_deleted := Some 20\<rparr>)]"
    unfolding rows by code_simp
  from metronome_step.settle_written [OF _ this] rows(2) obtain w' where
    w': "metronome_step sample_cron sample_clockwork (Settle_written 0 20) w'" "wo_rows w' = [(''a'', sample_call\<lparr>dl_deleted := Some 20\<rparr>)]"
    by fastforce
  have owed: "is_owed sample_clockwork ''a'' 10" "\<not> is_owed w' ''a'' 10"
    by (simp_all add: is_owed_def rows w'(2)) (simp add: sample_call_def row_of_def)
  from struck_for_a_reason [OF sample_clockwork_reached w'(1) owed] w'(1) owed show ?thesis by blast
qed

section \<open>A scan takes in all it reads\<close>








text \<open>The calls of one occurrence are one call, whoever makes them and however often.\<close>

lemma occurrence_call_same:
  "dl_id r' = dl_id r \<Longrightarrow> dl_schedule r' = dl_schedule r \<Longrightarrow> dl_due r' = dl_due r \<Longrightarrow>
     occurrence_call sha1 utf8 r' = occurrence_call sha1 utf8 r"
  by (simp add: occurrence_call_def split: option.split)

end
