(* ===== verification/Continuity.thy ===== *)
theory Continuity
  imports Call Contract Identity Reorder "HOL-Library.Sublist"
begin

text \<open>
  An operation that picks up where it failed: \<open>extensions/continuity/source/{answers,fingerprint,Journal,Run,
  Factory}.ts\<close>, the operations of \<open>extensions/continuity/components/continuity.journal\<close> and
  \<open>definitions/source/extensions.continuity/manifest.ts\<close>.

  What a step of an operation answered is kept in a journal under what the step asks, and a later attempt
  is given it back. The digest, the encoding of text and the clock are given. An operation is what it asks
  of its context, one thing after another, and goes on by what it is answered; one that raises is an
  attempt that stops. Dates and URLs are no values here.
\<close>

section \<open>Base64\<close>

definition base64_alphabet :: string where
  "base64_alphabet = ''ABCDEFGHIJKLMNOPQRSTUVWXYZabcdefghijklmnopqrstuvwxyz0123456789+/''"

definition base64_char :: "nat \<Rightarrow> char" where
  "base64_char n = base64_alphabet ! n"

definition base64_index :: "char \<Rightarrow> nat" where
  "base64_index c = length (takeWhile (\<lambda>d. d \<noteq> c) base64_alphabet)"

fun to_base64 :: "nat list \<Rightarrow> string" where
  "to_base64 [] = []"
| "to_base64 [a] = [base64_char (a div 4), base64_char (a mod 4 * 16), CHR ''='', CHR ''='']"
| "to_base64 [a, b] =
     [base64_char (a div 4), base64_char (a mod 4 * 16 + b div 16), base64_char (b mod 16 * 4), CHR ''='']"
| "to_base64 (a # b # c # bs) =
     base64_char (a div 4) # base64_char (a mod 4 * 16 + b div 16) # base64_char (b mod 16 * 4 + c div 64) #
       base64_char (c mod 64) # to_base64 bs"

fun from_indices :: "nat list \<Rightarrow> nat list" where
  "from_indices (i # j # k # l # is) =
     (i * 4 + j div 16) # (j mod 16 * 16 + k div 4) # (k mod 4 * 64 + l) # from_indices is"
| "from_indices [i, j, k] = [i * 4 + j div 16, j mod 16 * 16 + k div 4]"
| "from_indices [i, j] = [i * 4 + j div 16]"
| "from_indices _ = []"

definition from_base64 :: "string \<Rightarrow> nat list" where
  "from_base64 s = from_indices (map base64_index (takeWhile (\<lambda>c. c \<noteq> CHR ''='') s))"

lemma base64_table: "\<forall>n < 64. base64_index (base64_char n) = n \<and> base64_char n \<noteq> CHR ''=''"
  unfolding base64_char_def base64_index_def base64_alphabet_def by code_simp

lemma base64_index_char [simp]: "n < 64 \<Longrightarrow> base64_index (base64_char n) = n"
  using base64_table by blast

lemma base64_char_pad [simp]: "n < 64 \<Longrightarrow> base64_char n \<noteq> CHR ''=''"
  using base64_table by blast

lemma small_div [simp]: "a < 256 \<Longrightarrow> a div 4 < 64" "a < 256 \<Longrightarrow> a div 16 < 16" "a < 256 \<Longrightarrow> a div 64 < 4" for a :: nat
  by (simp_all add: less_mult_imp_div_less)

lemma six_bits [simp]:
  fixes a b :: nat
  assumes "a < 256"
  shows "b mod 4 * 16 + a div 16 < 64" "b mod 16 * 4 + a div 64 < 64" "a mod 4 * 16 < 64" "a mod 16 * 4 < 64"
proof -
  have "b mod 4 < 4" "b mod 16 < 16" "a mod 4 < 4" "a mod 16 < 16" "a div 16 < 16" "a div 64 < 4" using assms by simp_all
  then show "b mod 4 * 16 + a div 16 < 64" "b mod 16 * 4 + a div 64 < 64" "a mod 4 * 16 < 64" "a mod 16 * 4 < 64" by linarith+
qed

lemma div_again [simp]: "a < 256 \<Longrightarrow> a div 16 div 16 = 0" "a < 256 \<Longrightarrow> a div 64 div 4 = 0" for a :: nat
  by (simp_all flip: div_mult2_eq)

lemma from_to_base64: "list_all (\<lambda>b. b < 256) bs \<Longrightarrow> from_base64 (to_base64 bs) = bs"
  by (induction bs rule: to_base64.induct) (simp_all add: from_base64_def)

section \<open>Answers\<close>

text \<open>What a step may answer beside a value: a declared error, and the response to a fetch.\<close>

record response =
  rs_status :: nat
  rs_text :: string
  rs_headers :: "(string \<times> string) list"
  rs_body :: "nat list option"

datatype step_answer = Given val | Declared string props | Fetched response

record kept_response =
  kr_status :: nat
  kr_text :: string
  kr_headers :: "(string \<times> string) list"
  kr_body :: "string option"

datatype kept =
    Kept_value val
  | Kept_none
  | Kept_bytes string
  | Kept_error props
  | Kept_response kept_response

definition response_of :: "response \<Rightarrow> kept_response" where
  "response_of r =
     \<lparr>kr_status = rs_status r, kr_text = rs_text r, kr_headers = rs_headers r, kr_body = map_option to_base64 (rs_body r)\<rparr>"

definition revive_response :: "kept_response \<Rightarrow> response" where
  "revive_response k =
     \<lparr>rs_status = kr_status k, rs_text = kr_text k, rs_headers = kr_headers k, rs_body = map_option from_base64 (kr_body k)\<rparr>"

fun encode :: "step_answer \<Rightarrow> exception + kept" where
  "encode (Given Undef) = Inr Kept_none"
| "encode (Fetched r) = Inr (Kept_response (response_of r))"
| "encode (Given (Stream b vs)) =
     Inl (derive_exception Unrecordable (Some ''a step answered with a stream, which is read once and cannot be given back'') None)"
| "encode (Given (View bs)) = Inr (Kept_bytes (to_base64 bs))"
| "encode (Declared m ps) = Inr (Kept_error ps)"
| "encode (Given v) = Inr (Kept_value v)"

text \<open>The code is the message of the error: what \<open>new Error\<close> makes of a value that is one.\<close>

definition error_text :: "val option \<Rightarrow> string" where
  "error_text v = (case v of Some (Str s) \<Rightarrow> s | Some (Num n) \<Rightarrow> int_str n | Some (Bool b) \<Rightarrow> (if b then ''true'' else ''false'')
     | Some Null \<Rightarrow> ''null'' | _ \<Rightarrow> [])"

fun decode_kept :: "kept \<Rightarrow> step_answer" where
  "decode_kept Kept_none = Given Undef"
| "decode_kept (Kept_bytes s) = Given (View (from_base64 s))"
| "decode_kept (Kept_error ps) = Declared (case map_of ps ''message'' of Some (Str m) \<Rightarrow> m | _ \<Rightarrow> error_text (map_of ps ''code'')) ps"
| "decode_kept (Kept_response k) = Fetched (revive_response k)"
| "decode_kept (Kept_value v) = Given v"

text \<open>Bytes are bytes, and the message of a declared error is its code.\<close>

fun answerable :: "step_answer \<Rightarrow> bool" where
  "answerable (Given (View bs)) = list_all (\<lambda>b. b < 256) bs"
| "answerable (Given v) = True"
| "answerable (Declared m ps) = (map_of ps ''message'' = None \<and> m = error_text (map_of ps ''code''))"
| "answerable (Fetched r) = (case rs_body r of None \<Rightarrow> True | Some bs \<Rightarrow> list_all (\<lambda>b. b < 256) bs)"

text \<open>
  C24. What a step answered is given back as it was: a value, nothing, bytes, a declared error or the
  response to a fetch. A stream, and nothing else, is refused.
\<close>

theorem kept_given_back:
  assumes "answerable a"
  shows "case encode a of Inl e \<Rightarrow> (\<exists>b vs. a = Given (Stream b vs)) \<and> ex_code e = 603 | Inr k \<Rightarrow> decode_kept k = a"
proof (cases a)
  case (Given v)
  with assms show ?thesis
    by (cases v) (simp_all add: from_to_base64 derive_exception_def Let_def Exception_def)
next
  case (Fetched r)
  with assms show ?thesis
    by (cases r) (auto simp: response_of_def revive_response_def from_to_base64 split: option.splits)
qed (use assms in simp)

lemma kept_given_back_witness:
  "encode (Given (View [104, 105, 0, 255])) = Inr (Kept_bytes ''aGkA/w=='') \<and>
   decode_kept (Kept_bytes ''aGkA/w=='') = Given (View [104, 105, 0, 255])"
proof -
  have "encode (Given (View [104, 105, 0, 255])) = Inr (Kept_bytes ''aGkA/w=='')" by code_simp
  with kept_given_back [of "Given (View [104, 105, 0, 255])"] show ?thesis by simp
qed

section \<open>What a step asks\<close>

text \<open>
  What is digested of a value: each scalar by its type, an object by its keys in order and without those
  that are undefined, bytes as they are. What cannot be given twice is told by its kind.
\<close>

definition asked_scalar :: "(string \<Rightarrow> byte list) \<Rightarrow> string \<Rightarrow> string \<Rightarrow> byte list" where
  "asked_scalar utf8 typ text = utf8 (typ @ '':'' @ text @ '';'')"

definition asked_keys :: "(string \<Rightarrow> byte list) \<Rightarrow> (string \<times> byte list) list \<Rightarrow> byte list" where
  "asked_keys utf8 ps = utf8 ''{'' @ concat (map (\<lambda>(k, bs). utf8 (quote k @ ''='') @ bs) (sort_key fst ps)) @ utf8 ''}''"

fun asked_value :: "(string \<Rightarrow> byte list) \<Rightarrow> val \<Rightarrow> byte list" where
  "asked_value utf8 Undef = asked_scalar utf8 ''undefined'' ''undefined''"
| "asked_value utf8 Null = asked_scalar utf8 ''object'' ''null''"
| "asked_value utf8 (Bool b) = asked_scalar utf8 ''boolean'' (if b then ''true'' else ''false'')"
| "asked_value utf8 (Num n) = asked_scalar utf8 ''number'' (int_str n)"
| "asked_value utf8 (Str s) = asked_scalar utf8 ''string'' s"
| "asked_value utf8 (View bs) = utf8 ''bytes:'' @ map of_nat bs @ utf8 '';''"
| "asked_value utf8 (Arr vs) = utf8 ''['' @ concat (map (asked_value utf8) vs) @ utf8 '']''"
| "asked_value utf8 (Obj ps) = asked_keys utf8 (map (\<lambda>(k, v). (k, asked_value utf8 v)) (filter (\<lambda>(k, v). v \<noteq> Undef) ps))"
| "asked_value utf8 (Part ps) = asked_keys utf8 (map (\<lambda>(k, v). (k, asked_value utf8 v)) (filter (\<lambda>(k, v). v \<noteq> Undef) ps))"
| "asked_value utf8 (Stream b vs) = utf8 ''<Readable>;''"

definition fingerprint :: "(byte list \<Rightarrow> byte list) \<Rightarrow> (string \<Rightarrow> byte list) \<Rightarrow> val list \<Rightarrow> string" where
  "fingerprint sha1 utf8 args = hex_string (sha1 (asked_value utf8 (Arr args)))"

text \<open>The order of keys is no part of an ask, and neither is a key that is undefined.\<close>

lemma asked_order:
  assumes "mset ps = mset qs" "distinct (map fst ps)"
  shows "asked_value utf8 (Obj ps) = asked_value utf8 (Obj qs)"
proof -
  let ?w = "\<lambda>ps. map (\<lambda>(k, v). (k, asked_value utf8 v)) (filter (\<lambda>(k, v). v \<noteq> Undef) ps)"
  have "mset (?w ps) = mset (?w qs)" by (simp add: assms(1))
  moreover have "distinct (map fst (?w ps))"
    using distinct_fst_filter [OF assms(2)] by (simp add: comp_def case_prod_beta)
  ultimately have "sort_key fst (?w ps) = sort_key fst (?w qs)" by (rule sort_keys_perm)
  then show ?thesis by (simp add: asked_keys_def)
qed

lemma asked_undefined: "asked_value utf8 (Obj ((k, Undef) # ps)) = asked_value utf8 (Obj ps)"
  by simp

text \<open>
  A text is digested as it is, without its length or an end that it cannot hold, so requests that differ
  are one ask whatever the digest: a value that spells out the key after it stands for it.
\<close>

lemma asks_confused:
  assumes "\<And>s t. utf8 (s @ t) = utf8 s @ utf8 t"
  shows "fingerprint sha1 utf8 [Obj [(''a'', Str ''1''), (''b'', Str ''2'')]] =
    fingerprint sha1 utf8 [Obj [(''a'', Str (''1;'' @ quote ''b'' @ ''=string:2''))]]"
proof -
  have "sort_key fst [(''a'', x), (''b'', y)] = [(''a'', x), (''b'', y)]" for x y :: "byte list"
    by (simp add: insort_key_def)
  then show ?thesis
    by (simp add: fingerprint_def asked_keys_def asked_scalar_def flip: assms)
qed

section \<open>The journal\<close>















section \<open>A run\<close>

text \<open>\<open>ru_writing\<close>: what was taken without waiting and is still being written.\<close>

record run =
  ru_id :: string
  ru_window :: int
  ru_steps :: "(string \<times> kept) list"
  ru_expires :: "int option"
  ru_asked :: "(string \<times> nat) list"
  ru_writing :: "(string \<times> kept \<times> int) list"


text \<open>\<open>key\<close>: what is asked, and how many times it was asked before.\<close>

definition asked_text :: "(byte list \<Rightarrow> byte list) \<Rightarrow> (string \<Rightarrow> byte list) \<Rightarrow> string \<Rightarrow> val list \<Rightarrow> string" where
  "asked_text sha1 utf8 member args = member @ '':'' @ fingerprint sha1 utf8 args"






section \<open>What is continued\<close>

definition WINDOW :: int where "WINDOW = 600"

definition PASSED :: "string list" where
  "PASSED = [''logs'', ''span'', ''metrics'', ''configuration'', ''state'', ''atom'']"

text \<open>\<open>IDENTITY\<close>: what a run may be known by.\<close>

definition identity_char :: "char \<Rightarrow> bool" where
  "identity_char c \<longleftrightarrow>
     is_digit c \<or> of_char c \<in> {65 :: nat..90} \<or> of_char c \<in> {97 :: nat..122} \<or> c = CHR ''_'' \<or> c = CHR ''-''"

definition is_identity :: "string \<Rightarrow> bool" where
  "is_identity s \<longleftrightarrow> list_all identity_char s \<and> 1 \<le> length s \<and> length s \<le> 128"

definition delivered :: "call_request option \<Rightarrow> bool" where
  "delivered request =
     (case request of
        None \<Rightarrow> False
      | Some q \<Rightarrow>
          (case cq_trail q of
             None \<Rightarrow> False
           | Some hs \<Rightarrow> hs \<noteq> [] \<and> (case last hs of [] \<Rightarrow> False | c # _ \<Rightarrow> c = CHR ''~'')))"

definition refuse_run :: "string \<Rightarrow> string \<Rightarrow> call_request option \<Rightarrow> exception option" where
  "refuse_run component endpoint request =
     (let target = [CHR 0x27] @ component @ ''.'' @ endpoint @ [CHR 0x27]
      in if \<not> (case request of None \<Rightarrow> False | Some q \<Rightarrow> cq_task q) \<and> \<not> delivered request
         then Some (RequestContractException
                (Refused_text (target @ '' is continued, and runs as a task or for an event, which nobody waits for'')) None)
         else if \<not> (case request of None \<Rightarrow> False | Some q \<Rightarrow> (case cq_id q of None \<Rightarrow> False | Some i \<Rightarrow> is_identity i))
         then Some (RequestContractException
                (Refused_text (target @ '' is continued, and a request that carries no identity has no run to continue'')) None)
         else None)"

definition coded :: "thrown \<Rightarrow> thrown" where
  "coded e =
     (if (case code_of e of Some (Num _) \<Rightarrow> True | _ \<Rightarrow> False) then e
      else Exc (case e of
                  Exc x \<Rightarrow> x
                | Err j \<Rightarrow> SystemException j
                | Threw (Str s) \<Rightarrow> SystemException_text s
                | Threw v \<Rightarrow> SystemException_text (error_text (case v of Obj ps \<Rightarrow> map_of ps ''message'' | _ \<Rightarrow> None))))"

text \<open>
  The component, wrapped: an endpoint that is not declared is invoked as it was; \<open>begins\<close> is reading the
  journal, \<open>runs\<close> the operation in the scope of its run, and \<open>waits\<close> waiting for what is being written.
\<close>

definition continued_invoke ::
  "string \<Rightarrow> (string \<times> int) list \<Rightarrow> string \<Rightarrow> call_request option \<Rightarrow> 'reply \<Rightarrow> (thrown \<Rightarrow> 'reply) \<Rightarrow>
   (string \<Rightarrow> int \<Rightarrow> thrown + 'r) \<Rightarrow> ('r \<Rightarrow> 'reply \<times> 'r) \<Rightarrow> ('r \<Rightarrow> thrown + unit) \<Rightarrow> 'reply" where
  "continued_invoke component declaration endpoint request plain raised begins runs waits =
     (case map_of declaration endpoint of
        None \<Rightarrow> plain
      | Some window \<Rightarrow>
          (case refuse_run component endpoint request of
             Some e \<Rightarrow> raised (Exc e)
           | None \<Rightarrow>
               (case begins (case request of None \<Rightarrow> [] | Some q \<Rightarrow> (case cq_id q of None \<Rightarrow> [] | Some i \<Rightarrow> i)) window of
                  Inl e \<Rightarrow> raised (coded e)
                | Inr r \<Rightarrow>
                    (case runs r of
                       (reply, r') \<Rightarrow> (case waits r' of Inl e \<Rightarrow> raised (coded e) | Inr _ \<Rightarrow> reply)))))"

text \<open>\<open>identified\<close>: the identity of the step, unless the request states one.\<close>

definition identified :: "call_request \<Rightarrow> string \<Rightarrow> call_request" where
  "identified q i = q\<lparr>cq_id := Some (case cq_id q of None \<Rightarrow> i | Some j \<Rightarrow> j)\<rparr>"

text \<open>
  What the members of a context are as steps: the name each is asked by, and which aspects are steps. The run
  in scope is that of the invocation it was handed to, and of no call that one makes.
\<close>

definition call_member :: "string \<Rightarrow> string \<Rightarrow> string \<Rightarrow> string" where
  "call_member namespace name endpoint = ''call:'' @ namespace @ ''.'' @ name @ ''.'' @ endpoint"

definition apply_member :: "string \<Rightarrow> string" where
  "apply_member endpoint = ''apply:'' @ endpoint"

definition aspect_member :: "string \<Rightarrow> string option" where
  "aspect_member name = (if name \<in> set PASSED then None else Some (''aspect:'' @ name))"

definition current_run :: "run option \<Rightarrow> string option \<Rightarrow> run option" where
  "current_run r current = (case r of None \<Rightarrow> None | Some r' \<Rightarrow> if current = Some (ru_id r') then r else None)"

text \<open>The declaration of a component, beside its schema: each operation it names is an effect.\<close>

fun check_continuity :: "(string \<times> string) list \<Rightarrow> (string \<times> int) list \<Rightarrow> string + unit" where
  "check_continuity operations [] = Inr ()"
| "check_continuity operations ((endpoint, window) # rest) =
     (case map_of operations endpoint of
        None \<Rightarrow> Inl (''Continuity refers to undefined operation '' @ [CHR 0x27] @ endpoint @ [CHR 0x27])
      | Some type \<Rightarrow>
          if type \<noteq> ''effect''
          then Inl (''Continuity refers to '' @ [CHR 0x27] @ endpoint @ [CHR 0x27] @ '', and '' @ [CHR 0x27] @ endpoint @ [CHR 0x27] @ '' is not an effect'')
          else check_continuity operations rest)"

lemma refuse_run_iff:
  "refuse_run c e request = None \<longleftrightarrow>
     (\<exists>q i. request = Some q \<and> (cq_task q \<or> delivered request) \<and> cq_id q = Some i \<and> is_identity i)"
  by (cases request) (auto simp: refuse_run_def delivered_def Let_def split: option.splits)

text \<open>What a run is known by cannot leave the quotes it is put between when its steps are looked up.\<close>

lemma identity_unquoted: "is_identity i \<Longrightarrow> CHR 0x22 \<notin> set i \<and> CHR 0x5C \<notin> set i"
  by (auto simp: is_identity_def identity_char_def list_all_iff is_digit_def)

section \<open>Attempts\<close>












section \<open>A later attempt is given what an earlier one was\<close>

definition next_key :: "(byte list \<Rightarrow> byte list) \<Rightarrow> (string \<Rightarrow> byte list) \<Rightarrow> string \<Rightarrow> string \<Rightarrow> val list \<Rightarrow> (string \<times> nat) list \<Rightarrow> string" where
  "next_key sha1 utf8 i m args asked =
     derive sha1 utf8 [IdText i, IdText (asked_text sha1 utf8 m args), IdNumber (dget 0 asked (asked_text sha1 utf8 m args))]"

definition next_asked :: "(byte list \<Rightarrow> byte list) \<Rightarrow> (string \<Rightarrow> byte list) \<Rightarrow> string \<Rightarrow> val list \<Rightarrow> (string \<times> nat) list \<Rightarrow> (string \<times> nat) list" where
  "next_asked sha1 utf8 m args asked =
     (let t = asked_text sha1 utf8 m args in AList.update t (dget 0 asked t + 1) asked)"












































text \<open>An operation that takes the time and asks with it, and its first attempt, step by step.\<close>

definition sample_digest :: "byte list \<Rightarrow> byte list" where
  "sample_digest bs = replicate 20 (case drop 21 bs of [] \<Rightarrow> 0 | b # _ \<Rightarrow> b)"

definition sample_utf8 :: "string \<Rightarrow> byte list" where
  "sample_utf8 = map (of_nat \<circ> of_char)"


definition sample_asked :: "(string \<times> nat) list" where
  "sample_asked = next_asked sample_digest sample_utf8 ''now'' [] []"

definition sample_took_key :: string where
  "sample_took_key = next_key sample_digest sample_utf8 ''run'' ''now'' [] []"

definition sample_made_key :: string where
  "sample_made_key = next_key sample_digest sample_utf8 ''run'' ''call:default.mail.send'' [Num 7] sample_asked"

lemma sample_keys [simp]: "sample_made_key \<noteq> sample_took_key" "sample_took_key \<noteq> sample_made_key"
  by code_simp+





















end
