(* ===== verification/Streams.thy ===== *)
theory Streams
  imports Exceptions "HOL-Library.List_Lexorder" "HOL-Library.Char_ord" "HOL-Library.Product_Lexorder" "HOL-Library.Multiset"
begin

text \<open>
  A collection read as a stream: \<open>connectors/storages.mongodb/src/{streams,match,record,translate}.js\<close> and
  \<open>translate/{criteria,options,rename}.js\<close>.

  A reader keeps a copy of what some criteria select: it reads the collection a window at a time, and from
  then on what changed in it. The history of a collection is the list of the writes committed to it, and a
  position in it is how many came before. What a filter selects, in what order a read without windows answers
  and what a projection leaves are MongoDB's, and parameters; so is how a position is written in a token. The
  text of a token is JSON in base64url, and a token here is what parsing it gives.
\<close>

section \<open>Documents\<close>

datatype bson =
    BNull
  | BBool bool
  | BNum int
  | BStr string
  | BDate int
  | BArr "bson list"
  | BObj "(string \<times> bson) list"

type_synonym bdoc = "(string \<times> bson) list"

section \<open>Matching\<close>

text \<open>\<open>equal\<close>: an object or an array is never the one that is compared with it.\<close>

definition equal_to :: "bson option \<Rightarrow> bson \<Rightarrow> bool" where
  "equal_to v operand =
     (case operand of
        BNull \<Rightarrow> v = None \<or> v = Some BNull
      | BArr _ \<Rightarrow> False
      | BObj _ \<Rightarrow> False
      | _ \<Rightarrow> v = Some operand)"

text \<open>\<open>compare\<close>: nothing where the types differ.\<close>

definition compare_to :: "bson option \<Rightarrow> bson \<Rightarrow> int option" where
  "compare_to v operand =
     (case (v, operand) of
        (Some (BDate s), BDate t) \<Rightarrow> Some (s - t)
      | (Some (BNum m), BNum n) \<Rightarrow> Some (m - n)
      | (Some (BStr s), BStr t) \<Rightarrow> Some (if s < t then - 1 else if t < s then 1 else 0)
      | _ \<Rightarrow> None)"

definition holds_some :: "bson option \<Rightarrow> (bson option \<Rightarrow> bool) \<Rightarrow> bool" where
  "holds_some v test \<longleftrightarrow> test v \<or> (case v of Some (BArr vs) \<Rightarrow> list_ex (\<lambda>e. test (Some e)) vs | _ \<Rightarrow> False)"

definition op_eq :: "bson option \<Rightarrow> bson \<Rightarrow> bool" where
  "op_eq v operand = holds_some v (\<lambda>e. equal_to e operand)"

definition op_compares :: "(int \<Rightarrow> bool) \<Rightarrow> bson option \<Rightarrow> bson \<Rightarrow> bool" where
  "op_compares p v operand = holds_some v (\<lambda>e. case compare_to e operand of None \<Rightarrow> False | Some c \<Rightarrow> p c)"

definition op_in :: "bson option \<Rightarrow> bson \<Rightarrow> bool" where
  "op_in v operands = (case operands of BArr os \<Rightarrow> list_ex (op_eq v) os | _ \<Rightarrow> False)"

definition operator_test :: "string \<Rightarrow> (bson option \<Rightarrow> bson \<Rightarrow> bool) option" where
  "operator_test name =
     map_of [(''$eq'', op_eq), (''$ne'', \<lambda>v o'. \<not> op_eq v o'), (''$in'', op_in), (''$nin'', \<lambda>v o'. \<not> op_in v o'),
       (''$gt'', op_compares (\<lambda>c. 0 < c)), (''$gte'', op_compares (\<lambda>c. 0 \<le> c)), (''$lt'', op_compares (\<lambda>c. c < 0)),
       (''$lte'', op_compares (\<lambda>c. c \<le> 0))] name"

definition is_operator :: "string \<Rightarrow> bool" where
  "is_operator k \<longleftrightarrow> (case k of [] \<Rightarrow> False | c # _ \<Rightarrow> c = CHR ''$'')"

definition unmatchable :: "string \<Rightarrow> string" where
  "unmatchable name = ''A change cannot be matched against '' @ [CHR 0x27] @ name @ [CHR 0x27]"

fun field_tests :: "bson option \<Rightarrow> (string \<times> bson) list \<Rightarrow> string + bool" where
  "field_tests v [] = Inr True"
| "field_tests v ((operator, operand) # rest) =
     (case operator_test operator of
        None \<Rightarrow> Inl (unmatchable operator)
      | Some test \<Rightarrow> if test v operand then field_tests v rest else Inr False)"

definition match_field :: "bson option \<Rightarrow> bson \<Rightarrow> string + bool" where
  "match_field v condition =
     (case condition of
        BObj ps \<Rightarrow> if ps \<noteq> [] \<and> list_all (is_operator \<circ> fst) ps then field_tests v ps else Inr (op_eq v condition)
      | _ \<Rightarrow> Inr (op_eq v condition))"

text \<open>\<open>read\<close>: a path is followed through objects; the properties of an array are its elements and its length.\<close>

definition property_of :: "bson option \<Rightarrow> string \<Rightarrow> bson option" where
  "property_of v k =
     (case v of
        Some (BObj ps) \<Rightarrow> map_of ps k
      | Some (BArr vs) \<Rightarrow>
          if k = ''length'' then Some (BNum (int (length vs)))
          else if nat_str (str_nat k) = k \<and> str_nat k < length vs then Some (vs ! str_nat k)
          else None
      | _ \<Rightarrow> None)"

definition read_path :: "bdoc \<Rightarrow> string \<Rightarrow> bson option" where
  "read_path d path = foldl property_of (Some (BObj d)) (split_on (CHR ''.'') path)"

text \<open>\<open>match\<close>, over the entries of a filter in turn; what a filter cannot be matched by is raised.\<close>

fun match_doc :: "bdoc \<Rightarrow> bdoc \<Rightarrow> string + bool"
  and match_key :: "bdoc \<Rightarrow> string \<Rightarrow> bson \<Rightarrow> string + bool"
  and match_every :: "bdoc \<Rightarrow> bson list \<Rightarrow> string + bool"
  and match_some :: "bdoc \<Rightarrow> bson list \<Rightarrow> string + bool"
  and match_one :: "bdoc \<Rightarrow> bson \<Rightarrow> string + bool" where
  "match_doc d [] = Inr True"
| "match_doc d ((k, c) # fs) = rbind (match_key d k c) (\<lambda>b. if b then match_doc d fs else Inr False)"
| "match_key d k (BArr cs) =
     (if k = ''$and'' then match_every d cs
      else if k = ''$or'' then match_some d cs
      else if k = ''$nor'' then rbind (match_some d cs) (\<lambda>b. Inr (\<not> b))
      else if is_operator k then Inl (unmatchable k)
      else match_field (read_path d k) (BArr cs))"
| "match_key d k c = (if is_operator k then Inl (unmatchable k) else match_field (read_path d k) c)"
| "match_every d [] = Inr True"
| "match_every d (c # cs) = rbind (match_one d c) (\<lambda>b. if b then match_every d cs else Inr False)"
| "match_some d [] = Inr False"
| "match_some d (c # cs) = rbind (match_one d c) (\<lambda>b. if b then Inr True else match_some d cs)"
| "match_one d (BObj fs) = match_doc d fs"
| "match_one d c = Inr True"

section \<open>Translating a query\<close>

text \<open>\<open>rename\<close>; a name that every object inherits is not among those of properties here.\<close>

definition rename_key :: "string \<Rightarrow> string" where
  "rename_key name = (if name = ''id'' then ''_id'' else name)"

text \<open>The tree the grammar gives: what is compared is a property and a value.\<close>

datatype criteria_node = Logic char criteria_node criteria_node | Comparison string string bson

definition LOGIC_OPERATORS :: "(char \<times> string) list" where
  "LOGIC_OPERATORS = [(CHR '';'', ''$and''), (CHR '','', ''$or'')]"

definition COMPARISON_OPERATORS :: "(string \<times> string) list" where
  "COMPARISON_OPERATORS =
     [(''=='', ''$eq''), (''>'', ''$gt''), (''>='', ''$gte''), (''=in='', ''$in''), (''<'', ''$lt''), (''<='', ''$lte''),
      (''!='', ''$ne''), (''=out='', ''$nin'')]"

text \<open>\<open>date\<close>: \<open>moment\<close> is what the language's \<open>Date\<close> reads of a text.\<close>

fun to_date :: "(string \<Rightarrow> int) \<Rightarrow> bson \<Rightarrow> bson" where
  "to_date moment (BArr vs) = BArr (map (to_date moment) vs)"
| "to_date moment BNull = BNull"
| "to_date moment (BStr s) = BDate (moment s)"
| "to_date moment (BNum n) = BDate n"
| "to_date moment v = v"

fun translate_criteria :: "(string \<Rightarrow> int) \<Rightarrow> string list \<Rightarrow> criteria_node \<Rightarrow> string + bdoc" where
  "translate_criteria moment dates (Logic operator l r) =
     rbind (translate_criteria moment dates l) (\<lambda>left.
       rbind (translate_criteria moment dates r) (\<lambda>right.
         Inr [(case map_of LOGIC_OPERATORS operator of None \<Rightarrow> ''undefined'' | Some k \<Rightarrow> k, BArr [BObj left, BObj right])]))"
| "translate_criteria moment dates (Comparison operator selector v) =
     (case map_of COMPARISON_OPERATORS operator of
        None \<Rightarrow> Inl (''AST parse error: unknown operator '' @ [CHR 0x27] @ operator @ [CHR 0x27])
      | Some k \<Rightarrow>
          (let left = rename_key selector
           in Inr [(left, BObj [(k, if left \<in> set dates then to_date moment v else v)])]))"

record read_options =
  ro_skip :: "nat option"
  ro_limit :: "nat option"
  ro_sort :: "(string \<times> bool) list option"
  ro_projection :: "string list option"
  ro_stop :: bool

text \<open>\<open>options\<close>: what is zero is not there. A direction is whether it ascends.\<close>

definition translate_options ::
  "nat option \<Rightarrow> nat option \<Rightarrow> (string \<times> string) list option \<Rightarrow> string list option \<Rightarrow> bool \<Rightarrow> read_options" where
  "translate_options omit limit sort_by projection stop =
     \<lparr>ro_skip = (if omit = Some 0 then None else omit), ro_limit = (if limit = Some 0 then None else limit),
      ro_sort = map_option (map (\<lambda>(k, direction). (rename_key k, direction = ''asc''))) sort_by,
      ro_projection = map_option (map rename_key) projection, ro_stop = stop\<rparr>"

record storage_query =
  sq_id :: "string option"
  sq_ids :: "string list option"
  sq_version :: "int option"
  sq_search :: "string option"
  sq_criteria :: "criteria_node option"

text \<open>\<open>translate\<close>: what a query states beside its criteria is set over them.\<close>

definition set_key :: "string \<Rightarrow> bson option \<Rightarrow> bdoc \<Rightarrow> bdoc" where
  "set_key k v d = (case v of None \<Rightarrow> d | Some v' \<Rightarrow> AList.update k v' d)"

definition translate_query :: "(string \<Rightarrow> int) \<Rightarrow> string list \<Rightarrow> storage_query \<Rightarrow> string + bdoc" where
  "translate_query moment dates q =
     rbind (case sq_criteria q of None \<Rightarrow> Inr [] | Some node \<Rightarrow> translate_criteria moment dates node) (\<lambda>d.
       Inr (set_key ''$text'' (map_option (\<lambda>t. BObj [(''$search'', BStr t)]) (sq_search q))
           (set_key ''VERSION'' (map_option BNum (sq_version q))
             (set_key ''_id'' (map_option (\<lambda>is. BObj [(''$in'', BArr (map BStr is))]) (sq_ids q))
               (set_key ''_id'' (map_option BStr (sq_id q)) d)))))"

text \<open>\<open>Storage.stream\<close>: without what was deleted, unless it is asked for.\<close>

definition stream_criteria :: "bool \<Rightarrow> bdoc \<Rightarrow> bdoc" where
  "stream_criteria deleted d = (if deleted then d else AList.update ''DELETED'' BNull d)"

section \<open>Records and entities\<close>

definition from_record :: "bdoc \<Rightarrow> bdoc" where
  "from_record d = (case map_of d ''_id'' of None \<Rightarrow> d | Some i \<Rightarrow> AList.delete ''_id'' (AList.update ''id'' i d))"

definition to_record :: "bdoc \<Rightarrow> bdoc" where
  "to_record e = (case map_of e ''id'' of None \<Rightarrow> e | Some i \<Rightarrow> (''_id'', i) # AList.delete ''id'' e)"

text \<open>What a property declared a moment is read back as; \<open>iso_text\<close> is the text of a moment.\<close>

definition read_cast :: "(int \<Rightarrow> string) \<Rightarrow> string \<Rightarrow> bson \<Rightarrow> bson" where
  "read_cast iso_text format v =
     (case v of BDate t \<Rightarrow> (if format = ''date-time'' then BStr (iso_text t) else BNum t) | _ \<Rightarrow> v)"

definition moments :: "(string \<times> string \<times> string) list \<Rightarrow> (string \<times> string) list" where
  "moments properties =
     map (\<lambda>(name, type, format). (name, format))
       (filter (\<lambda>(name, type, format). (format, type) \<in> {(''date-time'', ''string''), (''epoch-millis'', ''integer'')}) properties)"

definition convert :: "(string \<times> (bson \<Rightarrow> bson)) list \<Rightarrow> bdoc \<Rightarrow> bdoc" where
  "convert casts d =
     foldl (\<lambda>d (name, cast).
       case map_of d name of None \<Rightarrow> d | Some BNull \<Rightarrow> d | Some v \<Rightarrow> AList.update name (cast v) d) d casts"

text \<open>What is written of a moment, a text or a number by its schema.\<close>

definition record_date :: "(string \<Rightarrow> int) \<Rightarrow> bson \<Rightarrow> bson" where
  "record_date moment v = (case v of BStr s \<Rightarrow> BDate (moment s) | BNum n \<Rightarrow> BDate n | BBool b \<Rightarrow> BDate (of_bool b) | _ \<Rightarrow> v)"

definition codec_to :: "(string \<Rightarrow> int) \<Rightarrow> (string \<times> string) list \<Rightarrow> bdoc \<Rightarrow> bdoc" where
  "codec_to moment ms e = convert (map (\<lambda>(name, _). (name, record_date moment)) ms) (to_record e)"

definition codec_from :: "(int \<Rightarrow> string) \<Rightarrow> (string \<times> string) list \<Rightarrow> bdoc \<Rightarrow> bdoc" where
  "codec_from iso_text ms d = convert (map (\<lambda>(name, format). (name, read_cast iso_text format)) ms) (from_record d)"

section \<open>The history of a collection\<close>

text \<open>A write commits a record or removes it; the collection itself may end, in any of the ways of \<open>ENDINGS\<close>.\<close>

datatype commit = Writes string "bdoc option" | Ending

fun apply_commit :: "commit \<Rightarrow> (string \<times> bdoc) list \<Rightarrow> (string \<times> bdoc) list" where
  "apply_commit (Writes i (Some d)) db = AList.update i d db"
| "apply_commit (Writes i None) db = AList.delete i db"
| "apply_commit Ending db = db"

definition db_at :: "commit list \<Rightarrow> nat \<Rightarrow> (string \<times> bdoc) list" where
  "db_at h n = fold apply_commit (take n h) []"

section \<open>Tokens\<close>

definition TOKEN_VERSION :: int where "TOKEN_VERSION = 1"

record token =
  tk_p :: "string option"
  tk_t :: "string option"
  tk_id :: "string option"
  tk_c :: "int option"
  tk_h :: string

definition lost :: exception where
  "lost = derive_exception StateHistory (Some ''The token names a point the storage no longer holds'') None"

definition string_or_null :: "val \<Rightarrow> bool" where
  "string_or_null v = (case v of Str _ \<Rightarrow> True | Null \<Rightarrow> True | _ \<Rightarrow> False)"

definition text_of :: "val \<Rightarrow> string option" where
  "text_of v = (case v of Str s \<Rightarrow> Some s | _ \<Rightarrow> None)"

definition number_of :: "val \<Rightarrow> int option" where
  "number_of v = (case v of Num n \<Rightarrow> Some n | _ \<Rightarrow> None)"

text \<open>\<open>decode\<close>: \<open>None\<close> where the text of the token is no JSON.\<close>

definition decode_token :: "val option \<Rightarrow> exception + token" where
  "decode_token given =
     (case given of
        Some (Obj ps) \<Rightarrow>
          (let at' = dget Undef ps; windowed = (at' ''id'' \<noteq> Undef)
           in if at' ''v'' = Num TOKEN_VERSION \<and> text_of (at' ''h'') \<noteq> None \<and> string_or_null (at' ''p'') \<and>
                 (\<not> windowed \<or> text_of (at' ''id'') \<noteq> None) \<and> (at' ''c'' = Undef \<or> number_of (at' ''c'') \<noteq> None) \<and>
                 (\<not> windowed \<or> string_or_null (at' ''t''))
              then Inr \<lparr>tk_p = text_of (at' ''p''), tk_t = text_of (at' ''t''), tk_id = text_of (at' ''id''), tk_c = number_of (at' ''c''),
                     tk_h = (case at' ''h'' of Str h \<Rightarrow> h | _ \<Rightarrow> [])\<rparr>
              else Inl lost)
      | _ \<Rightarrow> Inl lost)"

definition text_val :: "string option \<Rightarrow> val" where
  "text_val s = (case s of None \<Rightarrow> Null | Some t \<Rightarrow> Str t)"

text \<open>A token of a window, and one of changes: what is undefined is not written.\<close>

definition encode_token :: "token \<Rightarrow> val" where
  "encode_token t =
     Obj ([(''v'', Num TOKEN_VERSION), (''p'', text_val (tk_p t))] @
       (case tk_id t of
          None \<Rightarrow> []
        | Some i \<Rightarrow> [(''t'', text_val (tk_t t)), (''id'', Str i)] @ (case tk_c t of None \<Rightarrow> [] | Some c \<Rightarrow> [(''c'', Num c)])) @
       [(''h'', Str (tk_h t))])"

section \<open>Reading\<close>

definition UNMOVING :: "string list" where "UNMOVING = [''_id'', ''CREATED'']"

text \<open>\<open>ordered\<close>: what a read in windows is ordered by, and whether it ascends.\<close>

definition ordered_by :: "(string \<times> bool) list option \<Rightarrow> exception + (string \<times> bool)" where
  "ordered_by sort_by =
     (case sort_by of
        None \<Rightarrow> Inr (''_id'', True)
      | Some [] \<Rightarrow> Inr (''_id'', True)
      | Some ((first, ascends) # rest) \<Rightarrow>
          (case find (\<lambda>(k, _). k \<notin> set UNMOVING) ((first, ascends) # rest) of
             Some (k, _) \<Rightarrow>
               Inl (derive_exception QuerySyntax
                 (Some (''A stream read in windows is not ordered by '' @ [CHR 0x27] @ k @ [CHR 0x27] @ '', which changes'')) None)
           | None \<Rightarrow> Inr (first, ascends)))"

text \<open>\<open>beyond\<close>: what comes after the last entry a window read, as a filter. No date is written as that of zero.\<close>

definition beyond :: "string \<times> bool \<Rightarrow> string \<Rightarrow> int option \<Rightarrow> bdoc" where
  "beyond order i c =
     (let past = (if snd order then ''$gt'' else ''$lt''); at' = BDate (case c of None \<Rightarrow> 0 | Some t \<Rightarrow> t)
      in if fst order = ''_id'' then [(''_id'', BObj [(past, BStr i)])]
         else [(''$or'', BArr [BObj [(''CREATED'', BObj [(past, at')])],
                               BObj [(''CREATED'', at'), (''_id'', BObj [(past, BStr i)])]])])"

definition created_at :: "bdoc \<Rightarrow> int option" where
  "created_at d = (case map_of d ''CREATED'' of Some (BDate t) \<Rightarrow> Some t | _ \<Rightarrow> None)"

text \<open>How MongoDB orders a read in windows: dates by their moment, texts as they compare, what is no date first.\<close>

definition place :: "string \<times> bool \<Rightarrow> string \<times> bdoc \<Rightarrow> nat \<times> int \<times> string" where
  "place order x =
     (if fst order = ''_id'' then (0, 0, fst x)
      else (case created_at (snd x) of None \<Rightarrow> (0, 0, fst x) | Some t \<Rightarrow> (1, t, fst x)))"

definition in_order :: "string \<times> bool \<Rightarrow> (string \<times> bdoc) list \<Rightarrow> (string \<times> bdoc) list" where
  "in_order order xs = (if snd order then sort_key (place order) xs else rev (sort_key (place order) xs))"

text \<open>
  What the storage reads through: what a filter finds, which image of a change passes the pipeline, how a read in no windows is arranged, what a projection
  leaves, how a position and the time of it are written, and which position a resume token still names.
\<close>

record reading =
  rd_finds :: "bdoc \<Rightarrow> bdoc \<Rightarrow> bool"
  rd_passes :: "bdoc \<Rightarrow> bdoc option \<Rightarrow> bool"
  rd_arranged :: "(string \<times> bool) list option \<Rightarrow> (string \<times> bdoc) list \<Rightarrow> (string \<times> bdoc) list"
  rd_projected :: "string list option \<Rightarrow> bdoc \<Rightarrow> bdoc"
  rd_resume :: "nat \<Rightarrow> string"
  rd_time :: "nat \<Rightarrow> string"
  rd_point :: "string \<Rightarrow> nat option"
  rd_history :: bool
  rd_digest :: "bdoc \<Rightarrow> (string \<times> bool) list option \<Rightarrow> string"
  rd_from :: "bdoc \<Rightarrow> bdoc"

datatype part = Entry string bdoc | Removed string

text \<open>\<open>#read\<close>: the entries, and the token they end with; \<open>None\<close> is the token \<open>null\<close>.\<close>

definition read_from ::
  "reading \<Rightarrow> bdoc \<Rightarrow> read_options \<Rightarrow> string option \<Rightarrow> string option \<Rightarrow> (string \<times> int option) option \<Rightarrow> (string \<times> bdoc) list \<Rightarrow>
   exception + part list \<times> token option" where
  "read_from env criteria options p t after' db =
     (let hash = rd_digest env criteria (ro_sort options);
          windowed = (ro_limit options \<noteq> None \<or> after' \<noteq> None)
      in rbind (if windowed then rbind (ordered_by (ro_sort options)) (\<lambda>order. Inr (Some order)) else Inr None) (\<lambda>order.
           let filt = (case (after', order) of
                         (Some (i, c), Some o') \<Rightarrow> [(''$and'', BArr [BObj criteria, BObj (beyond o' i c)])]
                       | _ \<Rightarrow> criteria);
               found = filter (\<lambda>x. rd_finds env filt (snd x)) db;
               sorted' = (case order of None \<Rightarrow> rd_arranged env (ro_sort options) found | Some o' \<Rightarrow> in_order o' found);
               skipped = (case ro_skip options of None \<Rightarrow> sorted' | Some k \<Rightarrow> drop k sorted');
               entries = (case ro_limit options of None \<Rightarrow> skipped | Some k \<Rightarrow> take k skipped);
               sent = map (\<lambda>(i, d). Entry i (rd_from env (rd_projected env (ro_projection options) d))) entries;
               full = (case ro_limit options of None \<Rightarrow> False | Some k \<Rightarrow> length entries = k \<and> entries \<noteq> [])
           in Inr (sent,
                if full \<and> \<not> ro_stop options
                then Some \<lparr>tk_p = p, tk_t = t, tk_id = Some (fst (last entries)),
                       tk_c = (if map_option fst order = Some ''CREATED''
                               then created_at (rd_projected env (ro_projection options) (snd (last entries))) else None), tk_h = hash\<rparr>
                else (case p of
                        None \<Rightarrow> None
                      | Some pos \<Rightarrow> Some \<lparr>tk_p = Some pos, tk_t = None, tk_id = None, tk_c = None, tk_h = hash\<rparr>))))"

section \<open>Changes\<close>

text \<open>\<open>prefix\<close>: a filter of records as a filter of what changed; only its refusal matters here.\<close>

definition unreadable :: "string \<Rightarrow> exception" where
  "unreadable k = derive_exception QuerySyntax (Some (''What changed in a collection cannot be read by '' @ [CHR 0x27] @ k @ [CHR 0x27])) None"

fun prefix_filter :: "string \<Rightarrow> bdoc \<Rightarrow> exception + bdoc"
  and prefix_filters :: "string \<Rightarrow> bson list \<Rightarrow> exception + bson list"
  and prefix_one :: "string \<Rightarrow> bson \<Rightarrow> exception + bson" where
  "prefix_filter path [] = Inr []"
| "prefix_filter path ((k, c) # fs) =
     rbind (if k \<in> {''$and'', ''$or'', ''$nor''} then rbind (prefix_one path c) (\<lambda>c'. Inr (k, c'))
            else if is_operator k then Inl (unreadable k)
            else Inr (path @ k, c)) (\<lambda>x. rbind (prefix_filter path fs) (\<lambda>xs. Inr (x # xs)))"
| "prefix_filters path [] = Inr []"
| "prefix_filters path (c # cs) = rbind (prefix_one path c) (\<lambda>x. rbind (prefix_filters path cs) (\<lambda>xs. Inr (x # xs)))"
| "prefix_one path (BArr cs) = rbind (prefix_filters path cs) (\<lambda>xs. Inr (BArr xs))"
| "prefix_one path (BObj fs) = rbind (prefix_filter path fs) (\<lambda>xs. Inr (BObj xs))"
| "prefix_one path c = Inr c"

text \<open>\<open>classify\<close>: an entry where the image after a change matches, a removal where the one before alone does.\<close>

definition matches_image :: "bdoc \<Rightarrow> bdoc option \<Rightarrow> string + bool" where
  "matches_image criteria img = (case img of None \<Rightarrow> Inr False | Some d \<Rightarrow> match_doc d criteria)"

definition classify :: "reading \<Rightarrow> bdoc \<Rightarrow> string \<Rightarrow> bdoc option \<Rightarrow> bdoc option \<Rightarrow> string + part option" where
  "classify env criteria i before_image after_image =
     rbind (matches_image criteria after_image) (\<lambda>b.
       if b then Inr (Some (Entry i (rd_from env (case after_image of None \<Rightarrow> [] | Some d \<Rightarrow> d))))
       else rbind (matches_image criteria before_image) (\<lambda>b'. Inr (if b' then Some (Removed i) else None)))"

text \<open>How a stream ends: with a token, which may be \<open>null\<close>, or cut by what was raised.\<close>

datatype stream_end = Ended "token option" | Cut thrown

definition plain_error :: "string \<Rightarrow> thrown" where
  "plain_error m = Err \<lparr>err_message = m, err_cause = None, err_stack = None, err_code = None\<rparr>"

text \<open>
  The changes from one position to another: what the pipeline lets through, in the order it was committed, until
  the limit. The answer is the parts, and the position that was come to or what was raised.
\<close>

fun change_loop ::
  "reading \<Rightarrow> bdoc \<Rightarrow> nat option \<Rightarrow> nat \<Rightarrow> nat \<Rightarrow> (string \<times> bdoc) list \<Rightarrow> commit list \<Rightarrow> part list \<times> (thrown + nat)" where
  "change_loop env criteria limit sent n db [] = ([], Inr n)"
| "change_loop env criteria limit sent n db (Ending # es) = ([], Inl (Exc lost))"
| "change_loop env criteria limit sent n db (Writes i img # es) =
     (let old = map_of db i; db' = apply_commit (Writes i img) db
      in if rd_passes env criteria img \<or> rd_passes env criteria old
         then (case classify env criteria i old img of
                 Inl m \<Rightarrow> ([], Inl (plain_error m))
               | Inr x \<Rightarrow>
                   (let sent' = (case x of None \<Rightarrow> sent | Some _ \<Rightarrow> Suc sent);
                        here = (case x of None \<Rightarrow> [] | Some y \<Rightarrow> [y])
                    in if limit \<noteq> None \<and> the limit \<le> sent' then (here, Inr (Suc n))
                       else (case change_loop env criteria limit sent' (Suc n) db' es of (ps, r) \<Rightarrow> (here @ ps, r))))
         else change_loop env criteria limit sent (Suc n) db' es)"

definition read_changes :: "reading \<Rightarrow> bdoc \<Rightarrow> read_options \<Rightarrow> string \<Rightarrow> commit list \<Rightarrow> nat \<Rightarrow> exception + part list \<times> stream_end" where
  "read_changes env criteria options p h n =
     rbind (prefix_filter ''fullDocument.'' criteria) (\<lambda>_.
       rbind (prefix_filter ''fullDocumentBeforeChange.'' criteria) (\<lambda>_.
         case rd_point env p of
           None \<Rightarrow> Inl lost
         | Some start \<Rightarrow>
             (case change_loop env criteria (ro_limit options) 0 start (db_at h start) (drop start (take n h)) of
                (ps, Inl e) \<Rightarrow> Inr (ps, Cut e)
              | (ps, Inr k) \<Rightarrow>
                  Inr (ps, Ended (Some \<lparr>tk_p = Some (rd_resume env k), tk_t = None, tk_id = None, tk_c = None,
                     tk_h = rd_digest env criteria (ro_sort options)\<rparr>)))))"

text \<open>
  \<open>stream\<close>: a first read takes its position when \<open>m\<close> writes are committed and reads when \<open>n\<close> are; the others
  read when \<open>n\<close> are.
\<close>

definition other_query :: exception where
  "other_query = derive_exception QuerySyntax (Some ''The token was issued for other criteria or order'') None"

definition stream ::
  "reading \<Rightarrow> bdoc \<Rightarrow> read_options \<Rightarrow> token option \<Rightarrow> commit list \<Rightarrow> nat \<Rightarrow> nat \<Rightarrow> exception + part list \<times> stream_end" where
  "stream env criteria options given h m n =
     (let ended = (\<lambda>r. rbind r (\<lambda>(ps, t). Inr (ps, Ended t)))
      in case given of
           None \<Rightarrow>
             ended (read_from env criteria options (if rd_history env then Some (rd_resume env m) else None)
               (if rd_history env then Some (rd_time env m) else None) None (db_at h n))
         | Some t \<Rightarrow>
             if tk_h t \<noteq> rd_digest env criteria (ro_sort options) then Inl other_query
             else (case tk_id t of
                     Some i \<Rightarrow>
                       if tk_p t \<noteq> None \<and> \<not> rd_history env then Inl lost
                       else ended (read_from env criteria options (tk_p t) (if tk_p t = None then None else tk_t t) (Some (i, tk_c t)) (db_at h n))
                   | None \<Rightarrow>
                       (case tk_p t of
                          None \<Rightarrow> Inl lost
                        | Some p \<Rightarrow> if rd_history env then read_changes env criteria options p h n else Inl lost)))"

definition stream_given ::
  "reading \<Rightarrow> bdoc \<Rightarrow> read_options \<Rightarrow> val option option \<Rightarrow> commit list \<Rightarrow> nat \<Rightarrow> nat \<Rightarrow> exception + part list \<times> stream_end" where
  "stream_given env criteria options given h m n =
     (case given of
        None \<Rightarrow> stream env criteria options None h m n
      | Some v \<Rightarrow> rbind (decode_token v) (\<lambda>t. stream env criteria options (Some t) h m n))"

section \<open>The copy a reader keeps\<close>





section \<open>Catching up\<close>






lemma map_of_delete': "map_of (AList.delete k al) = (map_of al)(k := None)"
  by (rule ext) (simp add: delete_conv')














text \<open>The places of what a window reads, and what is past the last of it.\<close>

definition past :: "string \<times> bool \<Rightarrow> string \<times> int option \<Rightarrow> string \<times> bdoc \<Rightarrow> bool" where
  "past order a x =
     (let b = (if fst order = ''_id'' then (0, 0, fst a) else (1, case snd a of None \<Rightarrow> 0 | Some t \<Rightarrow> t, fst a))
      in if snd order then b < place order x else place order x < b)"
































section \<open>A copy catches up\<close>




definition leaf :: "string \<Rightarrow> int \<Rightarrow> bdoc" where
  "leaf i grams = [(''_id'', BStr i), (''CREATED'', BDate 5), (''grams'', BNum grams)]"

definition leaves :: "commit list" where
  "leaves = [Writes ''a'' (Some (leaf ''a'' 3)), Writes ''b'' (Some (leaf ''b'' 4)), Writes ''b'' (Some (leaf ''b'' 1)),
     Writes ''c'' (Some (leaf ''c'' 7)), Writes ''a'' None]"





section \<open>Tokens and queries\<close>

text \<open>A token says the query it was issued for, and is refused by another.\<close>

lemma other_query_refused:
  "tk_h t \<noteq> rd_digest env criteria (ro_sort options) \<Longrightarrow> stream env criteria options (Some t) h m n = Inl other_query"
  by (simp add: stream_def)

text \<open>A token of changes is lost where the storage keeps no history.\<close>

lemma history_lost: "\<not> rd_history env \<Longrightarrow> tk_h t = rd_digest env criteria (ro_sort options) \<Longrightarrow> tk_p t \<noteq> None \<Longrightarrow>
    stream env criteria options (Some t) h m n = Inl lost"
  by (auto simp: stream_def split: option.splits)

text \<open>What changed is sent whole, whatever projection is asked for.\<close>

lemma changes_unprojected:
  "read_changes env criteria (options\<lparr>ro_projection := projection\<rparr>) p h n = read_changes env criteria options p h n"
  by (cases options) (simp add: read_changes_def cong del: option.case_cong_weak sum.case_cong_weak prod.case_cong_weak)

text \<open>A path through an array is not compared with each of its elements.\<close>

lemma array_path_unmatched:
  "match_doc [(''leaves'', BArr [BObj [(''grams'', BNum 5)]])] [(''leaves.grams'', BObj [(''$eq'', BNum 5)])] = Inr False"
  by (simp add: read_path_def property_of_def match_field_def is_operator_def operator_test_def op_eq_def holds_some_def equal_to_def
      str_nat_def nat_str.simps)

text \<open>An \<open>id\<close> takes the place of a criterion on it.\<close>

lemma criterion_overwritten:
  "translate_query moment dates \<lparr>sq_id = Some i, sq_ids = None, sq_version = None, sq_search = None,
     sq_criteria = Some (Comparison ''!='' ''id'' (BStr i))\<rparr> = Inr [(''_id'', BStr i)]"
  by (simp add: translate_query_def COMPARISON_OPERATORS_def rename_key_def set_key_def Let_def)

section \<open>Records, laws\<close>

definition stored_cast :: "(bson \<Rightarrow> bson) option \<Rightarrow> bson option \<Rightarrow> bson option" where
  "stored_cast cast v = (case cast of None \<Rightarrow> v | Some f \<Rightarrow> (case v of None \<Rightarrow> None | Some BNull \<Rightarrow> Some BNull | Some x \<Rightarrow> Some (f x)))"

lemma map_of_convert: "distinct (map fst casts) \<Longrightarrow> map_of (convert casts d) k = stored_cast (map_of casts k) (map_of d k)"
proof (induction casts arbitrary: d)
  case Nil
  then show ?case by (simp add: convert_def stored_cast_def)
next
  case (Cons c casts)
  obtain name cast where c: "c = (name, cast)" by (cases c)
  let ?d = "case map_of d name of None \<Rightarrow> d | Some BNull \<Rightarrow> d | Some v \<Rightarrow> AList.update name (cast v) d"
  have "convert (c # casts) d = convert casts ?d" by (simp add: convert_def c)
  moreover have "map_of ?d k = (if k = name then stored_cast (Some cast) (map_of d name) else map_of d k)"
    by (simp add: stored_cast_def update_conv' split: option.split bson.split)
  moreover have "map_of casts name = None" using Cons.prems by (simp add: c map_of_eq_None_iff)
  ultimately show ?case using Cons by (simp add: c) (simp add: stored_cast_def)
qed

lemma map_of_to_record: "map_of e ''id'' = Some i \<Longrightarrow> map_of (to_record e) = (map_of e)(''id'' := None, ''_id'' \<mapsto> i)"
  by (auto simp: to_record_def map_of_delete' fun_eq_iff)

lemma map_of_from_record: "map_of d ''_id'' = Some i \<Longrightarrow> map_of (from_record d) = (map_of d)(''id'' \<mapsto> i, ''_id'' := None)"
  by (auto simp: from_record_def map_of_delete' update_conv' fun_eq_iff)

text \<open>What a moment may be in an entity: nothing, or a text or a number that is what its moment is written as.\<close>

definition is_moment :: "(string \<Rightarrow> int) \<Rightarrow> (int \<Rightarrow> string) \<Rightarrow> string \<Rightarrow> bson \<Rightarrow> bool" where
  "is_moment moment iso_text format v =
     (case v of
        BNull \<Rightarrow> True
      | BStr s \<Rightarrow> format = ''date-time'' \<and> iso_text (moment s) = s
      | BNum _ \<Rightarrow> format \<noteq> ''date-time''
      | _ \<Rightarrow> False)"

lemma codec_round_trip:
  assumes "map_of e ''id'' = Some i" and "map_of e ''_id'' = None" and "distinct (map fst ms)" and "''id'' \<notin> fst ` set ms" and "''_id'' \<notin> fst ` set ms"
    and "\<And>name format v. (name, format) \<in> set ms \<Longrightarrow> map_of e name = Some v \<Longrightarrow> is_moment moment iso_text format v"
  shows "map_of (codec_from iso_text ms (codec_to moment ms e)) k = map_of e k"
proof -
  have fm: "map_of (map (\<lambda>(name, x). (name, g x)) ms) k = map_option g (map_of ms k)" for g :: "string \<Rightarrow> bson \<Rightarrow> bson" and k
    by (simp add: map_of_map)
  have dm: "distinct (map fst (map (\<lambda>(name, x). (name, g x)) ms))" for g :: "string \<Rightarrow> bson \<Rightarrow> bson"
    using assms(3) by (simp add: comp_def split_def)
  have no: "map_of ms ''_id'' = None" "map_of ms ''id'' = None" using assms(4,5) by (simp_all add: map_of_eq_None_iff)
  have to: "map_of (codec_to moment ms e) k = stored_cast (map_option (\<lambda>_. record_date moment) (map_of ms k)) (((map_of e)(''id'' := None, ''_id'' \<mapsto> i)) k)" for k
    using map_of_convert[OF dm[of "\<lambda>_. record_date moment"]] fm[of "\<lambda>_. record_date moment"] map_of_to_record[OF assms(1)] by (simp add: codec_to_def)
  have "map_of (codec_to moment ms e) ''_id'' = Some i" by (simp add: to no stored_cast_def)
  then have from': "map_of (from_record (codec_to moment ms e)) = (map_of (codec_to moment ms e))(''id'' \<mapsto> i, ''_id'' := None)"
    by (rule map_of_from_record)
  have "map_of (codec_from iso_text ms (codec_to moment ms e)) k =
      stored_cast (map_option (read_cast iso_text) (map_of ms k)) (((map_of (codec_to moment ms e))(''id'' \<mapsto> i, ''_id'' := None)) k)"
    using map_of_convert[OF dm[of "read_cast iso_text"]] fm[of "read_cast iso_text"] from' by (simp add: codec_from_def)
  also have "\<dots> = map_of e k"
  proof (cases "k = ''id'' \<or> k = ''_id''")
    case True
    then show ?thesis using assms(1,2) no by (auto simp: stored_cast_def)
  next
    case False
    have "stored_cast (Some (read_cast iso_text format)) (stored_cast (Some (record_date moment)) (map_of e k)) = map_of e k"
      if "map_of ms k = Some format" for format
    proof (cases "map_of e k")
      case (Some v)
      have "is_moment moment iso_text format v" using assms(6) map_of_SomeD[OF that] Some by blast
      then show ?thesis using Some by (cases v) (auto simp: stored_cast_def is_moment_def read_cast_def record_date_def)
    qed (simp add: stored_cast_def)
    then show ?thesis using False by (cases "map_of ms k") (auto simp: to stored_cast_def)
  qed
  finally show ?thesis .
qed

lemma decode_encode_token:
  "(tk_id t = None \<longrightarrow> tk_t t = None \<and> tk_c t = None) \<Longrightarrow> decode_token (Some (encode_token t)) = Inr t"
  by (cases t) (auto simp: decode_token_def encode_token_def text_val_def dget_def text_of_def string_or_null_def number_of_def Let_def
      split: option.splits)

end
