(* ===== verification/Connection.thy ===== *)
theory Connection
  imports Prelude
begin

text \<open>
  How the hierarchy of connections is brought up and taken down: \<open>depends\<close>, \<open>connect\<close>, \<open>disconnect\<close> and what they
  call in \<open>runtime/core/source/connector.ts\<close>; \<open>Connector\<close> holds its halt.

  Every call is asynchronous and any of them may be under way at once, so the state holds what is left to do, a
  task for each place the code waits or calls on, and an action runs one of them. What the code does without
  waiting is here a task of its own too: the sequences of actions include every order the code can take. What
  \<open>open\<close>, \<open>close\<close> and \<open>dispose\<close> do is the subclass's; \<open>open\<close> may fail, and may never end. A \<open>close\<close> that throws is
  left out.
\<close>

section \<open>The state\<close>

text \<open>A connection under way or made is known by its number, as the code knows it by its promise.\<close>

record conn =
  deps :: "nat list"
  links :: "nat list"
  connecting :: "nat option"
  disconnecting :: bool
  discarded :: bool
  connected :: bool
  disposed :: bool

text \<open>
  A call of \<open>connect\<close> and the connection that waits for it; a connection that waits and one that opens; a
  disconnection about to be decided, whether it found its connector not connected, whether it interrupts, and who
  waits for it; a connector that closes; and one that waits for what it depends on to be taken down.
\<close>

datatype task =
    Calls nat "(nat \<times> nat) option"
  | Waits nat nat
  | Opening nat nat
  | Check nat bool bool "nat option"
  | Closing nat
  | Leaving nat

datatype event = Opens nat | Closes nat | Disposes nat

text \<open>\<open>revived\<close> is whether a connector that was disconnected has been connected again.\<close>

record net =
  conns :: "nat \<Rightarrow> conn"
  tasks :: "task list"
  awaits :: "((nat \<times> nat) \<times> (nat \<times> nat)) list"
  landed :: "(nat \<times> nat) list"
  failed :: "(nat \<times> nat) list"
  owed :: "(nat \<times> nat) list"
  numbers :: nat
  revived :: bool
  trace :: "event list"

definition new_conn :: conn where
  "new_conn = \<lparr>deps = [], links = [], connecting = None, disconnecting = False, discarded = False, connected = False, disposed = False\<rparr>"

definition new_net :: net where
  "new_net = \<lparr>conns = (\<lambda>_. new_conn), tasks = [], awaits = [], landed = [], failed = [], owed = [], numbers = 0, revived = False, trace = []\<rparr>"

definition on_conn :: "nat \<Rightarrow> (conn \<Rightarrow> conn) \<Rightarrow> net \<Rightarrow> net" where
  "on_conn n f s = s\<lparr>conns := (conns s)(n := f (conns s n))\<rparr>"

definition todo :: "task list \<Rightarrow> net \<Rightarrow> net" where
  "todo ts s = s\<lparr>tasks := tasks s @ ts\<rparr>"

definition traced :: "event \<Rightarrow> net \<Rightarrow> net" where
  "traced e s = s\<lparr>trace := trace s @ [e]\<rparr>"

section \<open>Operations\<close>

text \<open>A call of \<open>disconnect\<close>, up to where it may wait for the connection.\<close>

definition ask_down :: "nat \<Rightarrow> bool \<Rightarrow> nat option \<Rightarrow> net \<Rightarrow> net" where
  "ask_down n interrupt asker s = todo [Check n (interrupt \<or> \<not> connected (conns s n)) interrupt asker] s"

definition drop_conn :: "nat \<Rightarrow> net \<Rightarrow> net" where
  "drop_conn n s = ask_down n False None (on_conn n (\<lambda>c. c\<lparr>discarded := False\<rparr>) s)"

definition discard :: "nat \<Rightarrow> net \<Rightarrow> net" where
  "discard n s =
     (let s' = on_conn n (\<lambda>c. c\<lparr>discarded := True\<rparr>) s
      in if connecting (conns s' n) \<noteq> None then drop_conn n s' else s')"

definition depends :: "nat \<Rightarrow> nat \<Rightarrow> net \<Rightarrow> net" where
  "depends n m s =
     (let s' = on_conn m (\<lambda>c. c\<lparr>links := links c @ [n]\<rparr>) (on_conn n (\<lambda>c. c\<lparr>deps := deps c @ [m]\<rparr>) s)
      in if disconnecting (conns s' n) then discard m s' else s')"

text \<open>Several at once: \<open>g\<close> is the connector made to group them. \<open>None\<close> is the refusal of no connectors.\<close>

definition depends_all :: "nat \<Rightarrow> nat list \<Rightarrow> nat \<Rightarrow> net \<Rightarrow> net option" where
  "depends_all n ms g s =
     (case ms of
        [] \<Rightarrow> None
      | [m] \<Rightarrow> Some (depends n m s)
      | _ \<Rightarrow> Some (depends n g (foldl (\<lambda>s m. depends m g (on_conn n (\<lambda>c. c\<lparr>deps := deps c @ [m]\<rparr>) s)) s ms)))"

text \<open>\<open>connect\<close>, up to where it waits for what it depends on.\<close>

definition call_up :: "nat \<Rightarrow> (nat \<times> nat) option \<Rightarrow> net \<Rightarrow> net" where
  "call_up n caller s =
     (let s' = (if connecting (conns s n) \<noteq> None then s
                else todo (Waits n (numbers s) # map (\<lambda>d. Calls d (Some (n, numbers s))) (deps (conns s n)))
                  (on_conn n (\<lambda>c. c\<lparr>disconnecting := False, connecting := Some (numbers s)\<rparr>) s)
                    \<lparr>numbers := Suc (numbers s), revived := revived s \<or> disconnecting (conns s n)\<rparr>)
      in case (caller, connecting (conns s' n)) of
           (Some x, Some g) \<Rightarrow> s'\<lparr>awaits := awaits s' @ [(x, (n, g))]\<rparr>
         | _ \<Rightarrow> s')"

text \<open>What it does once its connection has landed.\<close>

definition land :: "nat \<Rightarrow> nat \<Rightarrow> net \<Rightarrow> net" where
  "land n g s =
     (let s1 = s\<lparr>landed := (n, g) # landed s\<rparr>;
          s2 = (if connecting (conns s1 n) = Some g then on_conn n (\<lambda>c. c\<lparr>connected := True\<rparr>) s1 else s1)
      in if discarded (conns s2 n) then drop_conn n s2 else s2)"

definition fall :: "nat \<Rightarrow> nat \<Rightarrow> net \<Rightarrow> net" where
  "fall n g s = ask_down n True None (s\<lparr>failed := (n, g) # failed s\<rparr>)"

text \<open>\<open>disconnect\<close>: what follows the closing.\<close>

definition gone :: "nat \<Rightarrow> net \<Rightarrow> net" where
  "gone n s =
     (let s' = on_conn n (\<lambda>c. c\<lparr>connected := False, connecting := None\<rparr>) s
      in todo [Leaving n] (fold (\<lambda>d. ask_down d False (Some n)) (deps (conns s' n)) s'))"

definition owe :: "nat option \<Rightarrow> nat \<Rightarrow> net \<Rightarrow> net" where
  "owe asker n s = (case asker of None \<Rightarrow> s | Some a \<Rightarrow> s\<lparr>owed := (a, n) # owed s\<rparr>)"

definition check_down :: "nat \<Rightarrow> bool \<Rightarrow> bool \<Rightarrow> nat option \<Rightarrow> net \<Rightarrow> net" where
  "check_down n pending interrupt asker s =
     (if disconnecting (conns s n) then owe asker n s
      else if list_ex (\<lambda>p. connected (conns s p)) (links (conns s n)) \<and> \<not> interrupt then s
      else (let s' = owe asker n (on_conn n (\<lambda>c. c\<lparr>disconnecting := True\<rparr>) s)
            in if pending then gone n s' else todo [Closing n] (traced (Closes n) s')))"

definition leave :: "nat \<Rightarrow> net \<Rightarrow> net" where
  "leave n s = (traced (Disposes n) (on_conn n (\<lambda>c. c\<lparr>disposed := True\<rparr>) s))\<lparr>owed := filter (\<lambda>(_, d). d \<noteq> n) (owed s)\<rparr>"

section \<open>Gates\<close>

text \<open>
  \<open>gate.ts\<close>: what a gate holds and when it comes back, in milliseconds, zero where it is not to. Going down names what
  is to be disconnected; coming up is given what building and connecting it ends with.
\<close>

record gate =
  holds :: "nat option"
  resumes_at :: int

definition new_gate :: gate where "new_gate = \<lparr>holds = None, resumes_at = 0\<rparr>"

definition holding :: "gate \<Rightarrow> bool" where
  "holding g \<longleftrightarrow> holds g \<noteq> None"

definition gate_remaining :: "gate \<Rightarrow> int \<Rightarrow> int" where
  "gate_remaining g now = (if resumes_at g = 0 then 0 else max 0 (- ((now - resumes_at g) div 1000)))"

definition gate_down :: "int \<Rightarrow> int \<Rightarrow> gate \<Rightarrow> gate \<times> nat option" where
  "gate_down seconds now g =
     (case holds g of
        None \<Rightarrow> (g, None)
      | Some l \<Rightarrow> (\<lparr>holds = None, resumes_at = (if seconds = 0 then 0 else now + seconds * 1000)\<rparr>, Some l))"

definition gate_up :: "('e + nat) \<Rightarrow> gate \<Rightarrow> gate \<times> 'e option" where
  "gate_up built g =
     (let g' = g\<lparr>resumes_at := 0\<rparr>
      in if holds g \<noteq> None then (g', None) else (case built of Inl e \<Rightarrow> (g', Some e) | Inr l \<Rightarrow> (g'\<lparr>holds := Some l\<rparr>, None)))"

section \<open>Actions\<close>

text \<open>
  What happens next: a call from outside, or one of the tasks; of a connection also whether it goes on or fails. An
  action that cannot happen is \<open>None\<close>.
\<close>

datatype action = Depends nat nat | Connect nat | Disconnect nat | Runs task bool

definition waits_over :: "nat \<Rightarrow> nat \<Rightarrow> net \<Rightarrow> bool" where
  "waits_over n g s \<longleftrightarrow>
     list_all (\<lambda>t. case t of Calls _ c \<Rightarrow> c \<noteq> Some (n, g) | _ \<Rightarrow> True) (tasks s) \<and>
     list_all (\<lambda>(x, y). x = (n, g) \<longrightarrow> y \<in> set (landed s)) (awaits s)"

definition waits_fail :: "nat \<Rightarrow> nat \<Rightarrow> net \<Rightarrow> bool" where
  "waits_fail n g s \<longleftrightarrow> list_ex (\<lambda>(x, y). x = (n, g) \<and> y \<in> set (failed s)) (awaits s)"

definition leaves_over :: "nat \<Rightarrow> net \<Rightarrow> bool" where
  "leaves_over n s \<longleftrightarrow>
     list_all (\<lambda>t. case t of Check _ _ _ a \<Rightarrow> a \<noteq> Some n | _ \<Rightarrow> True) (tasks s) \<and> list_all (\<lambda>(a, _). a \<noteq> n) (owed s)"

fun run_task :: "task \<Rightarrow> bool \<Rightarrow> net \<Rightarrow> net option" where
  "run_task (Calls n caller) goes s = Some (call_up n caller s)"
| "run_task (Waits n g) goes s =
     (if goes then if waits_over n g s then Some (todo [Opening n g] (traced (Opens n) s)) else None
      else if waits_fail n g s then Some (fall n g s) else None)"
| "run_task (Opening n g) goes s = Some (if goes then land n g s else fall n g s)"
| "run_task (Check n pending interrupt asker) goes s = Some (check_down n pending interrupt asker s)"
| "run_task (Closing n) goes s = Some (gone n s)"
| "run_task (Leaving n) goes s = (if leaves_over n s then Some (leave n s) else None)"

fun act :: "action \<Rightarrow> net \<Rightarrow> net option" where
  "act (Depends n m) s = Some (depends n m s)"
| "act (Connect n) s = Some (todo [Calls n None] s)"
| "act (Disconnect n) s = Some (ask_down n False None s)"
| "act (Runs t goes) s = (if t \<in> set (tasks s) then run_task t goes (s\<lparr>tasks := remove1 t (tasks s)\<rparr>) else None)"

fun acts :: "action list \<Rightarrow> net \<Rightarrow> net option" where
  "acts [] s = Some s"
| "acts (a # as) s = (case act a s of None \<Rightarrow> None | Some s' \<Rightarrow> acts as s')"

section \<open>What is kept\<close>

definition held_up :: "net \<Rightarrow> nat \<Rightarrow> bool" where
  "held_up s d \<longleftrightarrow> (\<exists>p \<in> set (links (conns s d)). connected (conns s p))"

definition asked :: "net \<Rightarrow> nat \<Rightarrow> bool" where
  "asked s d \<longleftrightarrow> (\<exists>p i a. Check d p i a \<in> set (tasks s))"

text \<open>
  What a connector taken down depends on is held by another that is connected, about to be taken down, or marked to
  be once it lands; unless the connector is still closing. Connectors in \<open>X\<close>, and what is in \<open>Y\<close> of what they depend
  on, are left out, while an action is half done.
\<close>

definition accounted :: "nat set \<Rightarrow> nat set \<Rightarrow> net \<Rightarrow> bool" where
  "accounted X Y s \<longleftrightarrow>
     (\<forall>n d. n \<notin> X \<longrightarrow> d \<notin> Y \<longrightarrow> disconnecting (conns s n) \<longrightarrow> d \<in> set (deps (conns s n)) \<longrightarrow> \<not> disconnecting (conns s d) \<longrightarrow>
        held_up s d \<or> asked s d \<or> Closing n \<in> set (tasks s) \<or> discarded (conns s d))"


named_theorems net_ops

lemma on_conn_simps [simp]:
  "conns (on_conn n f s) = (conns s)(n := f (conns s n))" "tasks (on_conn n f s) = tasks s" "revived (on_conn n f s) = revived s"
  "landed (on_conn n f s) = landed s" "awaits (on_conn n f s) = awaits s" "numbers (on_conn n f s) = numbers s"
  by (simp_all add: on_conn_def)

lemma todo_simps [simp]:
  "conns (todo ts s) = conns s" "tasks (todo ts s) = tasks s @ ts" "revived (todo ts s) = revived s"
  "landed (todo ts s) = landed s" "awaits (todo ts s) = awaits s" "numbers (todo ts s) = numbers s"
  by (simp_all add: todo_def)

lemma traced_simps [simp]:
  "conns (traced e s) = conns s" "tasks (traced e s) = tasks s" "revived (traced e s) = revived s"
  "landed (traced e s) = landed s" "awaits (traced e s) = awaits s" "numbers (traced e s) = numbers s"
  by (simp_all add: traced_def)

lemma ask_simps [simp]:
  "conns (ask_down n i a s) = conns s" "tasks (ask_down n i a s) = tasks s @ [Check n (i \<or> \<not> connected (conns s n)) i a]"
  "revived (ask_down n i a s) = revived s" "landed (ask_down n i a s) = landed s" "awaits (ask_down n i a s) = awaits s"
  by (simp_all add: ask_down_def)

lemma owe_simps [simp]:
  "conns (owe a n s) = conns s" "tasks (owe a n s) = tasks s" "revived (owe a n s) = revived s"
  "landed (owe a n s) = landed s" "awaits (owe a n s) = awaits s"
  by (simp_all add: owe_def split: option.split)






lemma asked_simps [simp]:
  "asked (ask_down n i a s) d \<longleftrightarrow> d = n \<or> asked s d" "asked (on_conn n f s) d \<longleftrightarrow> asked s d"
  "asked (drop_conn n s) d \<longleftrightarrow> d = n \<or> asked s d" "asked (s\<lparr>landed := l\<rparr>) d \<longleftrightarrow> asked s d"
  by (auto simp: asked_def drop_conn_def)






lemma accounted_none [simp]: "accounted X UNIV s"
  by (simp add: accounted_def)


















section \<open>Nothing is left up\<close>






section \<open>Opening\<close>

text \<open>What a connection is waited for by, and the numbers of connections made.\<close>

definition numbered :: "net \<Rightarrow> bool" where
  "numbered s \<longleftrightarrow>
     (\<forall>d n g. Calls d (Some (n, g)) \<in> set (tasks s) \<longrightarrow> g < numbers s) \<and>
     (\<forall>n g. Waits n g \<in> set (tasks s) \<longrightarrow> g < numbers s) \<and>
     (\<forall>n g. Opening n g \<in> set (tasks s) \<longrightarrow> g < numbers s \<and> waits_over n g s) \<and>
     (\<forall>n g. (n, g) \<in> set (landed s) \<longrightarrow> g < numbers s \<and> waits_over n g s)"

lemma waits_over_alt:
  "waits_over n g s \<longleftrightarrow> (\<forall>d. Calls d (Some (n, g)) \<notin> set (tasks s)) \<and> (\<forall>y. ((n, g), y) \<in> set (awaits s) \<longrightarrow> y \<in> set (landed s))"
  by (auto simp: waits_over_def list_all_iff split: task.splits)

text \<open>Whatever leaves the numbers and what is awaited as they are, and adds no connection.\<close>

definition quiet :: "net \<Rightarrow> net \<Rightarrow> bool" where
  "quiet s s' \<longleftrightarrow> numbers s' = numbers s \<and> awaits s' = awaits s \<and> landed s' = landed s \<and>
     (\<forall>t \<in> set (tasks s'). t \<in> set (tasks s) \<or> (case t of Check _ _ _ _ \<Rightarrow> True | Closing _ \<Rightarrow> True | Leaving _ \<Rightarrow> True | Calls _ c \<Rightarrow> c = None | _ \<Rightarrow> False))"

lemma quiet_refl: "quiet s s"
  by (simp add: quiet_def)

lemma quiet_trans: "quiet s t \<Longrightarrow> quiet t u \<Longrightarrow> quiet s u"
  unfolding quiet_def by (intro conjI ballI) (simp_all, blast)

lemma numbered_grows:
  assumes "numbered s" "quiet s s'"
  shows "numbered s'"
proof -
  have tasks: "Calls d (Some x) \<in> set (tasks s') \<Longrightarrow> Calls d (Some x) \<in> set (tasks s)" "Waits n g \<in> set (tasks s') \<Longrightarrow> Waits n g \<in> set (tasks s)"
    "Opening n g \<in> set (tasks s') \<Longrightarrow> Opening n g \<in> set (tasks s)" for d x n g
    using assms(2) by (fastforce simp: quiet_def)+
  have same: "numbers s' = numbers s" "awaits s' = awaits s" "landed s' = landed s" using assms(2) by (simp_all add: quiet_def)
  have "waits_over n g s \<Longrightarrow> waits_over n g s'" for n g unfolding waits_over_alt same using tasks(1) by blast
  then show ?thesis using assms(1) tasks unfolding numbered_def same by blast
qed

lemma quiet_ask: "quiet s (ask_down n i a s)"
  by (simp add: quiet_def ask_down_def todo_def)

lemma quiet_on: "quiet s (on_conn n f s)"
  by (simp add: quiet_def)

lemma quiet_owe: "quiet s (owe a n s)"
  by (simp add: quiet_def owe_def split: option.split)

lemma quiet_asks: "quiet s (fold (\<lambda>d. ask_down d False a) ds s)"
  by (induction ds arbitrary: s) (auto intro: quiet_refl quiet_trans[OF quiet_ask])

lemma quiet_gone: "quiet s (gone n s)"
proof -
  let ?s = "on_conn n (\<lambda>c. c\<lparr>connected := False, connecting := None\<rparr>) s"
  have "quiet s (fold (\<lambda>d. ask_down d False (Some n)) (deps (conns ?s n)) ?s)"
    by (rule quiet_trans[OF quiet_on quiet_asks])
  moreover have "quiet t (todo [Leaving n] t)" for t by (simp add: quiet_def todo_def)
  ultimately show ?thesis unfolding gone_def Let_def by (rule quiet_trans)
qed

lemma quiet_check: "quiet s (check_down d p i a s)"
proof -
  let ?s = "owe a d (on_conn d (\<lambda>c. c\<lparr>disconnecting := True\<rparr>) s)"
  have s': "quiet s ?s" by (rule quiet_trans[OF quiet_on quiet_owe])
  have "quiet ?s (todo [Closing d] (traced (Closes d) ?s))" by (simp add: quiet_def todo_def traced_def)
  then show ?thesis
    using quiet_trans[OF s' quiet_gone] quiet_trans[OF s'] quiet_owe quiet_refl by (auto simp: check_down_def Let_def)
qed

lemma quiet_drop: "quiet s (drop_conn n s)"
  unfolding drop_conn_def by (rule quiet_trans[OF quiet_on quiet_ask])

lemma quiet_depends: "quiet s (depends n m s)"
proof -
  have "quiet t (discard m t)" for t unfolding discard_def Let_def using quiet_trans[OF quiet_on quiet_drop] quiet_on by auto
  then have "quiet s (discard m (on_conn m g (on_conn n f s)))" for f g
    using quiet_trans[OF quiet_trans[OF quiet_on quiet_on]] by blast
  then show ?thesis unfolding depends_def Let_def using quiet_trans[OF quiet_on quiet_on, of s] by simp
qed

lemma quiet_fall: "quiet s (fall n g s)"
  by (simp add: quiet_def fall_def ask_down_def todo_def)

lemma quiet_removed: "quiet s (s\<lparr>tasks := remove1 t (tasks s)\<rparr>)"
  using set_remove1_subset[of t "tasks s"] by (auto simp: quiet_def)

text \<open>A call adds what its connection is awaited by, unless the caller is open already, which it is not.\<close>

lemma call_numbered:
  assumes n: "numbered s" and t: "Calls d caller \<in> set (tasks s)"
  shows "numbered (call_up d caller (s\<lparr>tasks := remove1 (Calls d caller) (tasks s)\<rparr>))"
proof -
  let ?s = "s\<lparr>tasks := remove1 (Calls d caller) (tasks s)\<rparr>"
  let ?c = "call_up d caller ?s"
  have n': "numbered ?s" by (rule numbered_grows[OF n quiet_removed])
  have closed: "caller \<noteq> Some (m, g)" if "Opening m g \<in> set (tasks ?s) \<or> (m, g) \<in> set (landed ?s)" for m g
    using n t that set_remove1_subset[of "Calls d caller" "tasks s"] unfolding numbered_def waits_over_alt by fastforce
  have num: "numbers ?s \<le> numbers ?c" "numbers ?c = (if connecting (conns s d) = None then Suc (numbers s) else numbers s)"
    by (auto simp: call_up_def Let_def split: option.split)
  have land: "landed ?c = landed ?s" by (auto simp: call_up_def Let_def split: option.split)
  have aw: "(x, y) \<in> set (awaits ?c) \<Longrightarrow> (x, y) \<in> set (awaits ?s) \<or> caller = Some x" for x y
    by (auto simp: call_up_def Let_def split: option.splits if_splits)
  have tc: "Calls e (Some (m, g)) \<in> set (tasks ?c) \<Longrightarrow> Calls e (Some (m, g)) \<in> set (tasks ?s) \<or> g = numbers s \<and> connecting (conns s d) = None" for e m g
    by (auto simp: call_up_def Let_def split: option.splits if_splits)
  have tw: "Waits m g \<in> set (tasks ?c) \<Longrightarrow> Waits m g \<in> set (tasks ?s) \<or> g = numbers s \<and> connecting (conns s d) = None" for m g
    by (auto simp: call_up_def Let_def split: option.splits if_splits)
  have to: "Opening m g \<in> set (tasks ?c) \<Longrightarrow> Opening m g \<in> set (tasks ?s)" for m g
    by (auto simp: call_up_def Let_def split: option.splits if_splits)
  have over: "waits_over m g ?c" if o: "Opening m g \<in> set (tasks ?s) \<or> (m, g) \<in> set (landed ?s)" for m g
  proof -
    have w: "waits_over m g ?s" "g < numbers ?s" using n' o unfolding numbered_def by blast+
    have "Calls e (Some (m, g)) \<notin> set (tasks ?c)" for e using w tc[of e m g] by (auto simp: waits_over_alt)
    moreover have "((m, g), y) \<in> set (awaits ?c) \<Longrightarrow> y \<in> set (landed ?c)" for y
      using aw[of "(m, g)" y] closed[OF o] w(1) land by (simp add: waits_over_alt) (cases y, blast)
    ultimately show ?thesis by (simp add: waits_over_alt)
  qed
  have lt: "g < numbers ?s \<Longrightarrow> g < numbers ?c" for g using num(1) by simp
  have "Calls e (Some (m, g)) \<in> set (tasks ?c) \<Longrightarrow> g < numbers ?c" "Waits m g \<in> set (tasks ?c) \<Longrightarrow> g < numbers ?c" for e m g
  proof -
    have old: "Calls e (Some (m, g)) \<in> set (tasks ?s) \<Longrightarrow> g < numbers ?s" "Waits m g \<in> set (tasks ?s) \<Longrightarrow> g < numbers ?s"
      using n' unfolding numbered_def by blast+
    show "Calls e (Some (m, g)) \<in> set (tasks ?c) \<Longrightarrow> g < numbers ?c" using tc[of e m g] old(1) lt num(2) by auto
    show "Waits m g \<in> set (tasks ?c) \<Longrightarrow> g < numbers ?c" using tw[of m g] old(2) lt num(2) by auto
  qed
  moreover have "Opening m g \<in> set (tasks ?c) \<Longrightarrow> g < numbers ?c \<and> waits_over m g ?c" "(m, g) \<in> set (landed ?c) \<Longrightarrow> g < numbers ?c \<and> waits_over m g ?c" for m g
    using to[of m g] land over n' lt unfolding numbered_def by metis+
  ultimately show ?thesis unfolding numbered_def by blast
qed

lemma numbered_act:
  assumes n: "numbered s" and a: "act a s = Some s'"
  shows "numbered s'"
proof (cases a)
  case (Depends k m)
  then show ?thesis using numbered_grows[OF n quiet_depends, of k m] a by auto
next
  case (Connect k)
  have "quiet s (todo [Calls k None] s)" by (simp add: quiet_def)
  then show ?thesis using numbered_grows[OF n] a Connect by simp
next
  case (Disconnect k)
  then show ?thesis using numbered_grows[OF n quiet_ask, of k False None] a by auto
next
  case (Runs t goes)
  let ?s = "s\<lparr>tasks := remove1 t (tasks s)\<rparr>"
  have t: "t \<in> set (tasks s)" and r: "run_task t goes ?s = Some s'" using a Runs by (auto split: if_splits)
  have n': "numbered ?s" by (rule numbered_grows[OF n quiet_removed])
  note quiets = numbered_grows[OF n' quiet_check] numbered_grows[OF n' quiet_gone] numbered_grows[OF n' quiet_fall]
  show ?thesis
  proof (cases t)
    case (Calls d caller)
    then show ?thesis using call_numbered[OF n] t r by auto
  next
    case (Waits m g)
    have g: "g < numbers s" using n t Waits by (simp add: numbered_def)
    have "numbered (todo [Opening m g] (traced (Opens m) ?s))" if "waits_over m g ?s"
      using n' g that by (auto simp: numbered_def waits_over_alt)
    then show ?thesis using r Waits quiets(3) by (auto split: if_splits)
  next
    case (Opening m g)
    have g: "g < numbers s" "waits_over m g s" using n t Opening by (simp_all add: numbered_def)
    have over: "waits_over m g ?s" using g(2) set_remove1_subset[of t "tasks s"] by (fastforce simp: waits_over_alt)
    let ?l = "?s\<lparr>landed := (m, g) # landed s\<rparr>"
    have l: "numbered ?l" using n' g(1) over by (auto simp: numbered_def waits_over_alt)
    have "quiet ?l (land m g ?s)"
      unfolding land_def Let_def using quiet_trans[OF quiet_on quiet_drop] quiet_drop quiet_on quiet_refl by auto
    then show ?thesis using numbered_grows[OF l] r Opening quiets(3) by (auto split: if_splits)
  next
    case (Leaving m)
    have "quiet ?s (leave m ?s)" by (simp add: quiet_def leave_def)
    then show ?thesis using numbered_grows[OF n'] r Leaving by (auto split: if_splits)
  qed (use r quiets in auto)
qed

lemma numbered_acts: "numbered s \<Longrightarrow> acts as s = Some s' \<Longrightarrow> numbered s'"
proof (induction as arbitrary: s)
  case (Cons a as)
  then show ?case using numbered_act[of s a] by (auto split: option.splits)
qed simp

text \<open>
  A connector opens after what it depends on: where a connection has landed or opens, every connection it was to
  wait for has landed, whatever failed or was disconnected meanwhile.
\<close>

theorem opens_after:
  assumes "acts as new_net = Some s" and "Opening n g \<in> set (tasks s) \<or> (n, g) \<in> set (landed s)" and "((n, g), x) \<in> set (awaits s)"
  shows "x \<in> set (landed s)"
proof -
  have "numbered new_net" by (simp add: numbered_def new_net_def)
  then have "waits_over n g s" using numbered_acts[OF _ assms(1)] assms(2) unfolding numbered_def by blast
  then show ?thesis using assms(3) unfolding waits_over_alt by blast
qed

section \<open>Several at once\<close>

text \<open>
  Of several connectors taken on at once none is told of its dependant: one of them that another depends on too is
  closed when that one goes, under the first, which is connected.
\<close>

definition group_run :: "action list" where
  "group_run =
     [Depends 3 1, Connect 0, Runs (Calls 0 None) True, Runs (Calls 1 (Some (0, 0))) True, Runs (Calls 2 (Some (0, 0))) True,
      Runs (Calls 9 (Some (0, 0))) True, Runs (Calls 9 (Some (1, 1))) True, Runs (Calls 9 (Some (2, 2))) True,
      Runs (Waits 9 3) True, Runs (Opening 9 3) True, Runs (Waits 1 1) True, Runs (Opening 1 1) True,
      Runs (Waits 2 2) True, Runs (Opening 2 2) True, Runs (Waits 0 0) True, Runs (Opening 0 0) True,
      Connect 3, Runs (Calls 3 None) True, Runs (Calls 1 (Some (3, 4))) True, Runs (Waits 3 4) True, Runs (Opening 3 4) True,
      Disconnect 3, Runs (Check 3 False False None) True, Runs (Closing 3) True, Runs (Check 1 False False (Some 3)) True]"

lemma closed_under_dependant:
  "case depends_all 0 [1, 2] 9 new_net of None \<Rightarrow> False
   | Some s \<Rightarrow> (case acts group_run s of None \<Rightarrow> False
       | Some s' \<Rightarrow> 1 \<in> set (deps (conns s' 0)) \<and> connected (conns s' 0) \<and> Closing 1 \<in> set (tasks s'))"
  by code_simp

section \<open>Gates, laws\<close>

text \<open>What a gate that went down says: never more than it was told, until it is time, and then nothing.\<close>

lemma remaining_bounded:
  assumes "holds g = Some l" "0 < s" "now \<le> t" "0 \<le> now"
  shows "0 \<le> gate_remaining (fst (gate_down s now g)) t" "gate_remaining (fst (gate_down s now g)) t \<le> s"
    "gate_remaining (fst (gate_down s now g)) t = 0 \<longleftrightarrow> now + s * 1000 \<le> t"
  using assms by (auto simp: gate_remaining_def gate_down_def max_def)

lemma up_holds: "holding (fst (gate_up (Inr l) g)) \<and> gate_remaining (fst (gate_up (Inr l) g)) now = 0"
  by (auto simp: gate_up_def holding_def gate_remaining_def Let_def)

end
