(* ===== verification/Context.thy ===== *)
theory Context
  imports Call
begin

text \<open>
  What an operation reaches the rest through, \<open>runtime/core/source/context.ts\<close>, the deliveries a
  process handles, \<open>deliveries.ts\<close>, and \<open>encoded.ts\<close>. Remotes are numbers; finding one and calling it is asynchronous, so a
  lookup is begun, ends, and is answered from, in separate steps.
\<close>

section \<open>Remotes\<close>

datatype lookup = Looking | Found nat | Missing thrown

text \<open>\<open>searched\<close> names the lookups that were begun, in order; \<open>taken_on\<close> the remotes depended on.\<close>

record remotes =
  lookups :: "(string \<times> lookup) list"
  searched :: "string list"
  taken_on :: "nat list"

definition no_remotes :: remotes where
  "no_remotes = \<lparr>lookups = [], searched = [], taken_on = []\<rparr>"

definition remote_key :: "string \<Rightarrow> string \<Rightarrow> string" where
  "remote_key ns name = ns @ ''.'' @ name"

text \<open>\<open>#remote\<close>: a lookup is begun where there is none, whatever came of the one there is.\<close>

definition seek :: "string \<Rightarrow> remotes \<Rightarrow> remotes" where
  "seek key c =
     (case map_of (lookups c) key of
        Some _ \<Rightarrow> c
      | None \<Rightarrow> c\<lparr>lookups := AList.update key Looking (lookups c), searched := searched c @ [key]\<rparr>)"

text \<open>\<open>#connect\<close>, once it found what it looked for or failed.\<close>

definition sought :: "string \<Rightarrow> (thrown + nat) \<Rightarrow> remotes \<Rightarrow> remotes" where
  "sought key r c =
     (case map_of (lookups c) key of
        Some Looking \<Rightarrow>
          (case r of
             Inl e \<Rightarrow> c\<lparr>lookups := AList.update key (Missing e) (lookups c)\<rparr>
           | Inr n \<Rightarrow> c\<lparr>lookups := AList.update key (Found n) (lookups c), taken_on := taken_on c @ [n]\<rparr>)
      | _ \<Rightarrow> c)"

text \<open>\<open>call\<close>, once its lookup is waited for: \<open>None\<close> is a call that is still waiting.\<close>

definition context_call ::
  "string \<Rightarrow> string \<Rightarrow> string \<Rightarrow> wait_end \<Rightarrow> (nat \<Rightarrow> string \<Rightarrow> thrown + val) \<Rightarrow> remotes \<Rightarrow> (thrown + val) option" where
  "context_call ns name endpoint w remote_invoke c =
     (if w \<noteq> Settled then Some (Inl (abandoned (ns @ ''.'' @ name @ ''.'' @ endpoint)))
      else (case map_of (lookups c) (remote_key ns name) of
              Some (Found n) \<Rightarrow> Some (remote_invoke n endpoint)
            | Some (Missing e) \<Rightarrow> Some (Inl e)
            | _ \<Rightarrow> None))"

text \<open>What happens to a context: calls are made, lookups end.\<close>

datatype seeking = Seeks string | Ends string "thrown + nat"

fun seeking_step :: "remotes \<Rightarrow> seeking \<Rightarrow> remotes" where
  "seeking_step c (Seeks key) = seek key c"
| "seeking_step c (Ends key r) = sought key r c"

text \<open>A component is looked up once, however many calls are made to it.\<close>

lemma sought_once: "distinct (searched (foldl seeking_step no_remotes es)) \<and>
    set (searched (foldl seeking_step no_remotes es)) = fst ` set (lookups (foldl seeking_step no_remotes es))"
proof (induction es rule: rev_induct)
  case (snoc e es)
  then show ?case
    by (cases e) (auto simp: seek_def sought_def update_keys dom_update map_of_eq_None_iff dest: map_of_SomeD
        split: option.split lookup.split sum.split intro: rev_image_eqI)
qed (simp add: no_remotes_def)

text \<open>A lookup that failed is kept: every call after it is answered the failure, and nothing is looked up again.\<close>

lemma failure_kept:
  "map_of (lookups c) key = Some (Missing e) \<Longrightarrow>
     map_of (lookups (foldl seeking_step c es)) key = Some (Missing e) \<and>
     filter ((=) key) (searched (foldl seeking_step c es)) = filter ((=) key) (searched c)"
proof (induction es arbitrary: c)
  case (Cons x es)
  have "map_of (lookups (seeking_step c x)) key = Some (Missing e) \<and> filter ((=) key) (searched (seeking_step c x)) = filter ((=) key) (searched c)"
    using Cons.prems by (cases x) (auto simp: seek_def sought_def update_conv' split: option.split lookup.split sum.split)
  then show ?case using Cons.IH[of "seeking_step c x"] by simp
qed simp

lemma failure_answered:
  "map_of (lookups c) (remote_key ns name) = Some (Missing e) \<Longrightarrow>
     context_call ns name endpoint Settled remote_invoke (foldl seeking_step c es) = Some (Inl e)"
  using failure_kept[of c "remote_key ns name" e es] by (simp add: context_call_def)

section \<open>Deliveries\<close>

text \<open>How many messages are being handled, who waits for none to be, and who has been told there are none.\<close>

record deliveries =
  handling :: int
  idle :: "nat list"
  told :: "nat list"

definition no_deliveries :: deliveries where
  "no_deliveries = \<lparr>handling = 0, idle = [], told = []\<rparr>"

definition delivery_taken :: "deliveries \<Rightarrow> deliveries" where
  "delivery_taken d = d\<lparr>handling := handling d + 1\<rparr>"

definition delivery_done :: "deliveries \<Rightarrow> deliveries" where
  "delivery_done d =
     (let d' = d\<lparr>handling := handling d - 1\<rparr>
      in if handling d' = 0 then d'\<lparr>idle := [], told := told d' @ idle d'\<rparr> else d')"

definition deliveries_settled :: "nat \<Rightarrow> deliveries \<Rightarrow> deliveries" where
  "deliveries_settled w d = (if handling d = 0 then d\<lparr>told := told d @ [w]\<rparr> else d\<lparr>idle := idle d @ [w]\<rparr>)"

datatype delivery = Takes | Finishes | Awaits nat

fun delivery_step :: "deliveries \<Rightarrow> delivery \<Rightarrow> deliveries" where
  "delivery_step d Takes = delivery_taken d"
| "delivery_step d Finishes = delivery_done d"
| "delivery_step d (Awaits w) = deliveries_settled w d"

text \<open>Every delivery finished was taken before.\<close>

fun balanced :: "nat \<Rightarrow> delivery list \<Rightarrow> bool" where
  "balanced n [] = True"
| "balanced n (Takes # es) = balanced (Suc n) es"
| "balanced n (Finishes # es) = (0 < n \<and> balanced (n - 1) es)"
| "balanced n (Awaits w # es) = balanced n es"

text \<open>Nobody waits while nothing is handled, and whoever waited is still waiting or was told.\<close>

lemma idle_told:
  "handling d = int n \<Longrightarrow> balanced n es \<Longrightarrow> idle d = [] \<or> handling d \<noteq> 0 \<Longrightarrow>
     (idle (foldl delivery_step d es) = [] \<or> 0 < handling (foldl delivery_step d es)) \<and>
     set (idle (foldl delivery_step d es)) \<union> set (told (foldl delivery_step d es)) =
       set (idle d) \<union> set (told d) \<union> {w. Awaits w \<in> set es}"
proof (induction n es arbitrary: d rule: balanced.induct)
  case (2 n es)
  have "handling (delivery_taken d) = int (Suc n)" "idle (delivery_taken d) = idle d" "told (delivery_taken d) = told d"
    using 2(2) by (simp_all add: delivery_taken_def)
  then show ?case using 2(1)[of "delivery_taken d"] 2(3) by simp
next
  case (3 n es)
  have h: "handling (delivery_done d) = int (n - 1)" using 3(2,3) by (auto simp: delivery_done_def Let_def)
  have i: "idle (delivery_done d) = [] \<or> handling (delivery_done d) \<noteq> 0" by (simp add: delivery_done_def Let_def)
  have s: "set (idle (delivery_done d)) \<union> set (told (delivery_done d)) = set (idle d) \<union> set (told d)"
    by (auto simp: delivery_done_def Let_def)
  have b: "0 < n" "balanced (n - 1) es" using 3(3) by simp_all
  show ?case using 3(1)[OF h b(2) i] s by simp
next
  case (4 n w es)
  have h: "handling (deliveries_settled w d) = int n" "idle (deliveries_settled w d) = [] \<or> handling (deliveries_settled w d) \<noteq> 0"
    using 4(2,4) by (auto simp: deliveries_settled_def)
  have s: "set (idle (deliveries_settled w d)) \<union> set (told (deliveries_settled w d)) = insert w (set (idle d) \<union> set (told d))"
    by (auto simp: deliveries_settled_def)
  have b: "balanced n es" using 4(3) by simp
  show ?case using 4(1)[OF h(1) b h(2)] s by auto
qed auto

section \<open>The rest\<close>

text \<open>Outputs a component encoded.\<close>

record encoded =
  enc_bytes :: "nat list"
  enc_type :: string

definition new_encoded :: "nat list \<Rightarrow> string option \<Rightarrow> encoded" where
  "new_encoded bs type = \<lparr>enc_bytes = bs, enc_type = (case type of None \<Rightarrow> ''application/json'' | Some t \<Rightarrow> t)\<rparr>"

end
