(* ===== verification/Migration.thy ===== *)
theory Migration
  imports Exceptions
begin

text \<open>
  \<open>connectors/storages.mongodb/src/{migrations,indexes}.js\<close>: what replicas do to a collection before they serve. Every
  replica runs the whole list; the row that says a migration is applied is also the lock that one of them holds.

  The driver is a parameter. Replicas run at once, so what one does between two waits is an action here; time passes
  between any two of them, and a replica may stop at any moment and start again.
\<close>

section \<open>Steps\<close>

text \<open>Indexes, and what the driver does with them: it refuses with a code.\<close>

record index_options =
  ix_name :: string
  ix_rest :: "(string \<times> val) list"

record 'c driver =
  dr_create :: "(string \<times> val) list \<Rightarrow> index_options \<Rightarrow> 'c \<Rightarrow> int + 'c"
  dr_drop :: "string \<Rightarrow> 'c \<Rightarrow> int + 'c"
  dr_update :: "val \<Rightarrow> val \<Rightarrow> 'c \<Rightarrow> int + 'c"
  dr_delete :: "val \<Rightarrow> 'c \<Rightarrow> int + 'c"
  dr_images :: "bool \<Rightarrow> 'c \<Rightarrow> int + 'c"

definition ERR_INDEX_NOT_FOUND :: int where "ERR_INDEX_NOT_FOUND = 27"

definition CONFLICTS :: "int list" where "CONFLICTS = [85, 86]"

definition DIRECTIONS :: "(string \<times> val) list" where
  "DIRECTIONS = [(''asc'', Num 1), (''desc'', Num (-1)), (''hash'', Str ''hashed'')]"

definition INDEX_OPTIONS :: "(string \<times> string) list" where
  "INDEX_OPTIONS =
     [(''unique'', ''unique''), (''sparse'', ''sparse''), (''partial'', ''partialFilterExpression''), (''ttl'', ''expireAfterSeconds'')]"

text \<open>What a step is refused or fails with: a message of its own, or the code of the driver.\<close>

datatype step_error = Says string | Driver int

definition raised :: "int + 'c \<Rightarrow> step_error + 'c" where
  "raised r = (case r of Inl code \<Rightarrow> Inl (Driver code) | Inr c \<Rightarrow> Inr c)"

definition direction :: "val \<Rightarrow> val" where
  "direction v = (case v of Str s \<Rightarrow> (case map_of DIRECTIONS s of None \<Rightarrow> v | Some d \<Rightarrow> d) | _ \<Rightarrow> v)"

fun rename_options :: "string \<Rightarrow> (string \<times> val) list \<Rightarrow> step_error + (string \<times> val) list" where
  "rename_options i [] = Inr []"
| "rename_options i ((k, v) # os) =
     (case map_of INDEX_OPTIONS k of
        None \<Rightarrow> Inl (Says (''Migration '' @ [CHR 0x27] @ i @ [CHR 0x27] @ '' declares an unknown index option '' @ [CHR 0x27] @ k @ [CHR 0x27]))
      | Some k' \<Rightarrow> rbind (rename_options i os) (\<lambda>xs. Inr ((k', v) # xs)))"

definition step_index :: "'c driver \<Rightarrow> string \<Rightarrow> string option \<Rightarrow> (string \<times> val) list option \<Rightarrow> (string \<times> val) list \<Rightarrow> 'c \<Rightarrow> step_error + 'c" where
  "step_index dr i name keys rest c =
     (case (name, keys) of
        (Some n, Some ks) \<Rightarrow>
          rbind (rename_options i rest) (\<lambda>os.
            let spec = map (\<lambda>(field, d). (field, direction d)) ks; options = \<lparr>ix_name = n, ix_rest = os\<rparr>
            in case dr_create dr spec options c of
                 Inr c' \<Rightarrow> Inr c'
               | Inl code \<Rightarrow>
                   if code \<notin> set CONFLICTS then Inl (Driver code)
                   else rbind (raised (dr_drop dr n c)) (\<lambda>c'. raised (dr_create dr spec options c')))
      | _ \<Rightarrow> Inl (Says (''Migration '' @ [CHR 0x27] @ i @ [CHR 0x27] @ '' declares an index without a name or keys'')))"

definition drop_quietly :: "'c driver \<Rightarrow> string \<Rightarrow> 'c \<Rightarrow> step_error + 'c" where
  "drop_quietly dr n c =
     (case dr_drop dr n c of Inr c' \<Rightarrow> Inr c' | Inl code \<Rightarrow> if code \<noteq> ERR_INDEX_NOT_FOUND then Inl (Driver code) else Inr c)"

definition step_drop_index :: "'c driver \<Rightarrow> string \<Rightarrow> string option \<Rightarrow> 'c \<Rightarrow> step_error + 'c" where
  "step_drop_index dr i name c =
     (case name of
        None \<Rightarrow> Inl (Says (''Migration '' @ [CHR 0x27] @ i @ [CHR 0x27] @ '' drops an index without a name''))
      | Some n \<Rightarrow> drop_quietly dr n c)"

definition step_update :: "'c driver \<Rightarrow> string \<Rightarrow> val option \<Rightarrow> val option \<Rightarrow> 'c \<Rightarrow> step_error + 'c" where
  "step_update dr i filt changeset c =
     (case changeset of
        None \<Rightarrow> Inl (Says (''Migration '' @ [CHR 0x27] @ i @ [CHR 0x27] @ '' updates with nothing''))
      | Some u \<Rightarrow> raised (dr_update dr (case filt of None \<Rightarrow> Obj [] | Some f \<Rightarrow> f) u c))"

definition step_remove :: "'c driver \<Rightarrow> string \<Rightarrow> val option \<Rightarrow> 'c \<Rightarrow> step_error + 'c" where
  "step_remove dr i filt c =
     (case filt of
        None \<Rightarrow> Inl (Says (''Migration '' @ [CHR 0x27] @ i @ [CHR 0x27] @ '' deletes without a filter; pass {} to mean every record''))
      | Some f \<Rightarrow> raised (dr_delete dr f c))"

definition step_images :: "'c driver \<Rightarrow> string \<Rightarrow> val \<Rightarrow> 'c \<Rightarrow> step_error + 'c" where
  "step_images dr i enabled c =
     (case enabled of
        Bool b \<Rightarrow> raised (dr_images dr b c)
      | _ \<Rightarrow> Inl (Says (''Migration '' @ [CHR 0x27] @ i @ [CHR 0x27] @ '' declares images that are neither true nor false'')))"

section \<open>Indexes of the runtime\<close>

text \<open>\<open>indexes.js\<close>: an index that cannot be made is warned of, and one of another shape gives way.\<close>

definition runtime_index :: "'c driver \<Rightarrow> (string \<times> val) list \<Rightarrow> index_options \<Rightarrow> 'c \<Rightarrow> step_error + 'c" where
  "runtime_index dr spec options c =
     (case dr_create dr spec options c of
        Inr c' \<Rightarrow> Inr c'
      | Inl code \<Rightarrow>
          if code \<notin> set CONFLICTS then Inr c
          else rbind (drop_quietly dr (ix_name options) c) (\<lambda>c'. raised (dr_create dr spec options c')))"

text \<open>\<open>current\<close> is what is listed, nothing where listing fails.\<close>

definition obsolete :: "string list option \<Rightarrow> string list \<Rightarrow> string list" where
  "obsolete current desired = (case current of None \<Rightarrow> [] | Some ns \<Rightarrow> filter (\<lambda>n. n \<noteq> ''_id_'' \<and> n \<notin> set desired) ns)"

section \<open>Replicas\<close>

text \<open>
  Where a replica is: about to claim a migration, having lost the claim, having read a claim that is stale, applying
  the steps of it, done with all of them, or stopped.
\<close>

datatype phase = Starts nat | Lost nat | Stale nat int | Applies nat nat | Ready | Stopped

record row =
  row_done :: bool
  row_owner :: nat
  row_beat :: int

datatype applied = Stepped nat nat nat | Finished nat nat

text \<open>\<open>past\<close> is what was done, the latest first; \<open>stolen\<close> whether a claim ever changed hands.\<close>

record fleet =
  rows :: "(nat \<times> row) list"
  phases :: "nat \<Rightarrow> phase"
  clock :: int
  past :: "applied list"
  stolen :: bool
  removed :: bool

definition LEASE :: int where "LEASE = 30000"

text \<open>Migrations are numbered in the order they are declared; \<open>ms\<close> is how many steps each has.\<close>

definition start_at :: "nat list \<Rightarrow> nat \<Rightarrow> phase" where
  "start_at ms k = (if k < length ms then Starts k else Ready)"

definition new_fleet :: "nat list \<Rightarrow> fleet" where
  "new_fleet ms = \<lparr>rows = [], phases = (\<lambda>_. start_at ms 0), clock = 0, past = [], stolen = False, removed = False\<rparr>"

definition goes_to :: "nat \<Rightarrow> phase \<Rightarrow> fleet \<Rightarrow> fleet" where
  "goes_to r p s = s\<lparr>phases := (phases s)(r := p)\<rparr>"

text \<open>\<open>#claim\<close>, the read after a claim that was lost, \<open>#steal\<close>.\<close>

definition claim :: "nat \<Rightarrow> nat \<Rightarrow> fleet \<Rightarrow> fleet" where
  "claim r k s =
     (case map_of (rows s) k of
        None \<Rightarrow> goes_to r (Applies k 0) (s\<lparr>rows := AList.update k \<lparr>row_done = False, row_owner = r, row_beat = clock s\<rparr> (rows s)\<rparr>)
      | Some _ \<Rightarrow> goes_to r (Lost k) s)"

definition look :: "nat list \<Rightarrow> nat \<Rightarrow> nat \<Rightarrow> fleet \<Rightarrow> fleet" where
  "look ms r k s =
     goes_to r (case map_of (rows s) k of
       None \<Rightarrow> Starts k
     | Some w \<Rightarrow>
         if row_done w then start_at ms (Suc k)
         else if clock s - row_beat w > LEASE then Stale k (row_beat w)
         else Starts k) s"

definition steal :: "nat \<Rightarrow> nat \<Rightarrow> int \<Rightarrow> fleet \<Rightarrow> fleet" where
  "steal r k beat s =
     (case map_of (rows s) k of
        Some w \<Rightarrow>
          if \<not> row_done w \<and> row_beat w = beat
          then goes_to r (Applies k 0) (s\<lparr>rows := AList.update k (w\<lparr>row_owner := r, row_beat := clock s\<rparr>) (rows s), stolen := True\<rparr>)
          else goes_to r (Starts k) s
      | None \<Rightarrow> goes_to r (Starts k) s)"

text \<open>\<open>#run\<close>: a step, which may fail; the row marked at the end; the heartbeat between.\<close>

definition apply_step :: "nat \<Rightarrow> nat \<Rightarrow> nat \<Rightarrow> bool \<Rightarrow> fleet \<Rightarrow> fleet" where
  "apply_step r k j ok s =
     (if ok then goes_to r (Applies k (Suc j)) (s\<lparr>past := Stepped r k j # past s\<rparr>) else goes_to r Stopped s)"

definition finish :: "nat list \<Rightarrow> nat \<Rightarrow> nat \<Rightarrow> fleet \<Rightarrow> fleet" where
  "finish ms r k s =
     goes_to r (start_at ms (Suc k))
       (s\<lparr>rows := (case map_of (rows s) k of None \<Rightarrow> rows s | Some w \<Rightarrow> AList.update k (w\<lparr>row_done := True\<rparr>) (rows s)),
          past := Finished r k # past s\<rparr>)"

definition beat :: "nat \<Rightarrow> fleet \<Rightarrow> fleet" where
  "beat k s =
     (case map_of (rows s) k of None \<Rightarrow> s | Some w \<Rightarrow> s\<lparr>rows := AList.update k (w\<lparr>row_beat := clock s\<rparr>) (rows s)\<rparr>)"

text \<open>
  What happens: a replica goes on, with its step failing or not; it beats; it stops or starts again; time passes; and
  whoever looks after the database removes a row, to have its migration applied again.
\<close>

datatype happening = Goes nat bool | Beats nat | Stops nat | Restarts nat | Passes nat | Removes nat

fun happens :: "nat list \<Rightarrow> fleet \<Rightarrow> happening \<Rightarrow> fleet" where
  "happens ms s (Goes r ok) =
     (case phases s r of
        Starts k \<Rightarrow> claim r k s
      | Lost k \<Rightarrow> look ms r k s
      | Stale k b \<Rightarrow> steal r k b s
      | Applies k j \<Rightarrow> if j < ms ! k then apply_step r k j ok s else finish ms r k s
      | Ready \<Rightarrow> s
      | Stopped \<Rightarrow> s)"
| "happens ms s (Beats r) = (case phases s r of Applies k _ \<Rightarrow> beat k s | _ \<Rightarrow> s)"
| "happens ms s (Stops r) = goes_to r Stopped s"
| "happens ms s (Restarts r) = (if phases s r = Stopped then goes_to r (start_at ms 0) s else s)"
| "happens ms s (Passes t) = s\<lparr>clock := clock s + int t\<rparr>"
| "happens ms s (Removes k) = s\<lparr>rows := AList.delete k (rows s), removed := True\<rparr>"

section \<open>In order\<close>

text \<open>
  What was done is in order: a step was done after the ones before it in its migration, by the replica that did it,
  and after every earlier migration was finished; and a migration was finished after all of its steps.
\<close>

fun in_sequence :: "nat list \<Rightarrow> applied list \<Rightarrow> bool" where
  "in_sequence ms [] = True"
| "in_sequence ms (Stepped r k j # es) \<longleftrightarrow>
     k < length ms \<and> j < ms ! k \<and> (\<forall>i < j. Stepped r k i \<in> set es) \<and> (\<forall>i < k. \<exists>q. Finished q i \<in> set es) \<and> in_sequence ms es"
| "in_sequence ms (Finished r k # es) \<longleftrightarrow> (\<forall>i < ms ! k. Stepped r k i \<in> set es) \<and> in_sequence ms es"

text \<open>Where a replica may be, given what was done: past migrations that were finished, after steps it did itself.\<close>

definition placed :: "nat list \<Rightarrow> applied list \<Rightarrow> nat \<Rightarrow> phase \<Rightarrow> bool" where
  "placed ms es r p \<longleftrightarrow>
     (let reaches = (\<lambda>k. k < length ms \<and> (\<forall>i < k. \<exists>q. Finished q i \<in> set es))
      in case p of
           Starts k \<Rightarrow> reaches k
         | Lost k \<Rightarrow> reaches k
         | Stale k _ \<Rightarrow> reaches k
         | Applies k j \<Rightarrow> reaches k \<and> (\<forall>i < j. Stepped r k i \<in> set es)
         | _ \<Rightarrow> True)"

definition rows_finished :: "fleet \<Rightarrow> bool" where
  "rows_finished s \<longleftrightarrow> (\<forall>k w. map_of (rows s) k = Some w \<longrightarrow> row_done w \<longrightarrow> (\<exists>q. Finished q k \<in> set (past s)))"

definition in_step :: "nat list \<Rightarrow> fleet \<Rightarrow> bool" where
  "in_step ms s \<longleftrightarrow> in_sequence ms (past s) \<and> rows_finished s \<and> (\<forall>r. placed ms (past s) r (phases s r))"

lemma placed_more: "placed ms es r p \<Longrightarrow> set es \<subseteq> set fs \<Longrightarrow> placed ms fs r p"
  unfolding placed_def Let_def by (cases p) (simp_all, blast+)

lemma in_step_moves:
  assumes "in_step ms s" "phases s' = (phases s)(r := p)" "set (past s) \<subseteq> set (past s')"
    and "in_sequence ms (past s')" "rows_finished s'" "placed ms (past s') r p"
  shows "in_step ms s'"
  using assms placed_more[of ms "past s" _ _ "past s'"] by (auto simp: in_step_def)

lemma in_step_new: "in_step ms (new_fleet ms)"
  by (auto simp: in_step_def new_fleet_def start_at_def placed_def rows_finished_def)

lemma rows_claim:
  assumes "rows_finished s" "map_of (rows s) k = Some w \<or> \<not> row_done v" "map_of (rows s) k = Some w \<Longrightarrow> row_done v \<Longrightarrow> row_done w"
  shows "rows_finished (s\<lparr>rows := AList.update k v (rows s)\<rparr>)"
  using assms by (auto simp: rows_finished_def update_conv')

lemma goes_to_simps [simp]:
  "rows (goes_to r p s) = rows s" "past (goes_to r p s) = past s" "phases (goes_to r p s) = (phases s)(r := p)"
  "stolen (goes_to r p s) = stolen s" "removed (goes_to r p s) = removed s" "clock (goes_to r p s) = clock s"
  by (simp_all add: goes_to_def)

lemma rows_finished_cong: "rows s = rows s' \<Longrightarrow> past s = past s' \<Longrightarrow> rows_finished s \<longleftrightarrow> rows_finished s'"
  by (simp add: rows_finished_def)

lemma in_step_goes:
  assumes s: "in_step ms s"
  shows "in_step ms (happens ms s (Goes r ok))"
proof -
  have seq: "in_sequence ms (past s)" and rowsf: "rows_finished s" and pl: "placed ms (past s) r (phases s r)" using s by (simp_all add: in_step_def)
  have moved: "in_step ms (goes_to r p s)" if "placed ms (past s) r p" for p
    by (rule in_step_moves[OF s, of _ r p]) (use that seq rowsf in \<open>auto simp: rows_finished_def\<close>)
  show ?thesis
  proof (cases "phases s r")
    case (Starts k)
    show ?thesis
    proof (cases "map_of (rows s) k")
      case None
      have "in_step ms (claim r k s)"
        by (rule in_step_moves[OF s, of _ r "Applies k 0"])
          (use None Starts pl seq rowsf in \<open>auto simp: claim_def placed_def rows_finished_def update_conv'\<close>)
      then show ?thesis using Starts by simp
    next
      case (Some w)
      then show ?thesis using Starts pl moved[of "Lost k"] by (simp add: claim_def placed_def)
    qed
  next
    case (Lost k)
    have "placed ms (past s) r (start_at ms (Suc k))" if "map_of (rows s) k = Some w" "row_done w" for w
      using rowsf pl Lost that by (auto simp: placed_def start_at_def rows_finished_def less_Suc_eq)
    then show ?thesis using Lost pl moved by (auto simp: look_def placed_def split: option.split)
  next
    case (Stale k b)
    have again: "in_step ms (goes_to r (Starts k) s)" using pl Stale by (intro moved) (simp add: placed_def)
    show ?thesis
    proof (cases "map_of (rows s) k")
      case None
      then show ?thesis using again Stale by (simp add: steal_def)
    next
      case (Some w)
      have "in_step ms (steal r k b s)" if "\<not> row_done w \<and> row_beat w = b"
        by (rule in_step_moves[OF s, of _ r "Applies k 0"])
          (use Some Stale pl seq rowsf that in \<open>auto simp: steal_def placed_def rows_finished_def update_conv'\<close>)
      then show ?thesis using Stale Some again by (cases "\<not> row_done w \<and> row_beat w = b") (auto simp: steal_def)
    qed
  next
    case (Applies k j)
    have here: "k < length ms" "\<And>i. i < k \<Longrightarrow> \<exists>q. Finished q i \<in> set (past s)" "\<And>i. i < j \<Longrightarrow> Stepped r k i \<in> set (past s)"
      using pl Applies by (simp_all add: placed_def)
    show ?thesis
    proof (cases "j < ms ! k")
      case True
      have "in_step ms (apply_step r k j True s)"
        by (rule in_step_moves[OF s, of _ r "Applies k (Suc j)"])
          (use True here seq rowsf in \<open>auto simp: apply_step_def placed_def rows_finished_def less_Suc_eq\<close>)
      moreover have "in_step ms (apply_step r k j False s)" using moved[of Stopped] by (simp add: apply_step_def placed_def)
      ultimately show ?thesis using Applies True by (cases ok) simp_all
    next
      case False
      have "in_step ms (finish ms r k s)"
        by (rule in_step_moves[OF s, of _ r "start_at ms (Suc k)"],
          use False here seq rowsf in \<open>auto simp: finish_def placed_def rows_finished_def start_at_def less_Suc_eq update_conv' split: option.splits if_splits\<close>, blast)
      then show ?thesis using Applies False by simp
    qed
  qed (use s in simp_all)
qed

lemma in_step_happens:
  assumes s: "in_step ms s"
  shows "in_step ms (happens ms s e)"
proof (cases e)
  case (Goes r ok)
  then show ?thesis using in_step_goes[OF s] by simp
next
  case (Beats r)
  have "in_step ms (beat k s)" for k
    using s by (cases "map_of (rows s) k") (auto simp: in_step_def rows_finished_def beat_def update_conv')
  then show ?thesis using Beats s by (simp split: phase.split)
next
  case (Removes k)
  have "map_of (AList.delete k (rows s)) m = Some w \<Longrightarrow> map_of (rows s) m = Some w" for m w
    by (simp add: delete_conv' split: if_splits)
  then show ?thesis using s Removes by (auto simp: in_step_def rows_finished_def)
next
  case (Restarts r)
  have "in_step ms (goes_to r (start_at ms 0) s)"
    by (rule in_step_moves[OF s, of _ r "start_at ms 0"]) (use s in \<open>auto simp: in_step_def placed_def start_at_def rows_finished_def\<close>)
  then show ?thesis using Restarts s by simp
next
  case (Stops r)
  have "in_step ms (goes_to r Stopped s)"
    by (rule in_step_moves[OF s, of _ r Stopped]) (use s in \<open>auto simp: in_step_def placed_def rows_finished_def\<close>)
  then show ?thesis using Stops by simp
qed (use s in \<open>auto simp: in_step_def rows_finished_def\<close>)

lemma in_step_all: "in_step ms s \<Longrightarrow> in_step ms (foldl (happens ms) s es)"
  by (induction es arbitrary: s) (simp_all add: in_step_happens)

text \<open>
  C7. Migrations are applied in order, whatever replicas there are and whatever becomes of them: whichever claim, stall,
  crash, are taken over or find their row removed, every step any of them did came after the steps before it in its
  migration, and after every earlier migration was finished, and none was finished before all its steps were done.
\<close>

theorem migrations_in_order: "in_sequence ms (past (foldl (happens ms) (new_fleet ms) es))"
  using in_step_all[OF in_step_new] by (simp add: in_step_def)

section \<open>Once\<close>

fun is_step :: "applied \<Rightarrow> bool" where
  "is_step (Stepped _ _ _) = True"
| "is_step (Finished _ _) = False"

text \<open>Where no claim changed hands: who applies a migration owns its row, and did of it what comes before.\<close>

definition undisturbed :: "fleet \<Rightarrow> bool" where
  "undisturbed s \<longleftrightarrow>
     (\<forall>r k j. phases s r = Applies k j \<longrightarrow> (\<exists>w. map_of (rows s) k = Some w \<and> row_owner w = r)) \<and>
     (\<forall>q k i. Stepped q k i \<in> set (past s) \<longrightarrow> (\<exists>w. map_of (rows s) k = Some w \<and> row_owner w = q)) \<and>
     (\<forall>q k i j. Stepped q k i \<in> set (past s) \<longrightarrow> phases s q = Applies k j \<longrightarrow> i < j) \<and>
     distinct (filter is_step (past s))"

lemma start_at_elsewhere [simp]: "start_at ms k \<noteq> Applies m j"
  by (simp add: start_at_def)

lemma undisturbed_leaves:
  assumes "undisturbed s" "\<And>m j. p \<noteq> Applies m j"
  shows "undisturbed (goes_to r p s)"
  using assms by (auto simp: undisturbed_def)

lemma undisturbed_rows:
  assumes "undisturbed s" "map_of (rows s) k = Some w" "row_owner v = row_owner w"
  shows "undisturbed (s\<lparr>rows := AList.update k v (rows s)\<rparr>)"
proof -
  have same: "(\<exists>x. map_of (AList.update k v (rows s)) m = Some x \<and> row_owner x = q) \<longleftrightarrow> (\<exists>x. map_of (rows s) m = Some x \<and> row_owner x = q)" for m q
    using assms(2,3) by (auto simp: update_conv')
  have f: "rows (s\<lparr>rows := t\<rparr>) = t" "phases (s\<lparr>rows := t\<rparr>) = phases s" "past (s\<lparr>rows := t\<rparr>) = past s" for t by simp_all
  show ?thesis using assms(1) unfolding undisturbed_def f same .
qed

lemma undisturbed_happens:
  assumes u: "undisturbed s" and no: "\<not> stolen (happens ms s e)" "\<not> removed (happens ms s e)"
  shows "undisturbed (happens ms s e)"
proof (cases e)
  case (Goes r ok)
  show ?thesis
  proof (cases "phases s r")
    case (Starts k)
    show ?thesis
    proof (cases "map_of (rows s) k")
      case None
      have "Stepped q k i \<notin> set (past s)" for q i using u None by (fastforce simp: undisturbed_def)
      moreover have "phases s q \<noteq> Applies k j" for q j using u None by (fastforce simp: undisturbed_def)
      ultimately show ?thesis using u None Starts Goes by (auto simp: claim_def undisturbed_def update_conv')
    next
      case (Some w)
      then show ?thesis using u Starts Goes by (simp add: claim_def undisturbed_leaves)
    qed
  next
    case (Lost k)
    then show ?thesis using u Goes by (auto simp: look_def intro!: undisturbed_leaves split: option.split)
  next
    case (Stale k b)
    then show ?thesis using u Goes no by (auto simp: steal_def intro!: undisturbed_leaves split: option.splits if_splits)
  next
    case (Applies k j)
    have own: "\<exists>w. map_of (rows s) k = Some w \<and> row_owner w = r" using u Applies by (simp add: undisturbed_def)
    show ?thesis
    proof (cases "j < ms ! k")
      case True
      have "Stepped r k j \<notin> set (past s)" using u Applies by (fastforce simp: undisturbed_def)
      then have "undisturbed (apply_step r k j True s)"
        using u Applies own by (fastforce simp: apply_step_def undisturbed_def less_Suc_eq)
      then show ?thesis using u Applies Goes True by (cases ok) (simp_all add: apply_step_def undisturbed_leaves)
    next
      case False
      let ?s = "s\<lparr>rows := (case map_of (rows s) k of None \<Rightarrow> rows s | Some w \<Rightarrow> AList.update k (w\<lparr>row_done := True\<rparr>) (rows s)),
          past := Finished r k # past s\<rparr>"
      obtain w where w: "map_of (rows s) k = Some w" using own by blast
      have "undisturbed (s\<lparr>rows := AList.update k (w\<lparr>row_done := True\<rparr>) (rows s)\<rparr>)" using undisturbed_rows[OF u w] by simp
      then have "undisturbed ?s" using w by (simp add: undisturbed_def)
      then show ?thesis using Applies Goes False by (simp add: finish_def undisturbed_leaves)
    qed
  qed (use u Goes in simp_all)
next
  case (Beats r)
  have "undisturbed (beat k s)" for k
    using u undisturbed_rows[OF u] by (cases "map_of (rows s) k") (simp_all add: beat_def)
  then show ?thesis using Beats u by (simp split: phase.split)
qed (use u no in \<open>auto simp: undisturbed_leaves undisturbed_def\<close>)

lemma stolen_stays: "stolen s \<Longrightarrow> stolen (happens ms s e)"
  by (cases e) (auto simp: claim_def look_def steal_def apply_step_def finish_def beat_def split: phase.split option.split)

lemma removed_stays: "removed s \<Longrightarrow> removed (happens ms s e)"
  by (cases e) (auto simp: claim_def look_def steal_def apply_step_def finish_def beat_def split: phase.split option.split)

lemma undisturbed_all:
  "\<not> stolen (foldl (happens ms) s es) \<Longrightarrow> \<not> removed (foldl (happens ms) s es) \<Longrightarrow> undisturbed s \<Longrightarrow>
     undisturbed (foldl (happens ms) s es)"
proof (induction es rule: rev_induct)
  case (snoc e es)
  then show ?case using undisturbed_happens stolen_stays removed_stays by (metis foldl_append foldl_Cons foldl_Nil)
qed simp

text \<open>
  While no claim is taken over and no row removed, no step is done twice, and the steps of a migration are all of one
  replica's doing, however many replicas start, stop and start again.
\<close>

theorem migrations_once:
  assumes "s = foldl (happens ms) (new_fleet ms) es" and "\<not> stolen s" and "\<not> removed s"
  shows "distinct (filter is_step (past s)) \<and>
    (\<forall>q r k i j. Stepped q k i \<in> set (past s) \<longrightarrow> Stepped r k j \<in> set (past s) \<longrightarrow> q = r)"
proof -
  have "undisturbed (new_fleet ms)" by (auto simp: undisturbed_def new_fleet_def)
  then have "undisturbed s" using undisturbed_all assms by simp
  then show ?thesis unfolding undisturbed_def by (metis option.inject)
qed

text \<open>A claim is taken over only once its heartbeat is older than the lease.\<close>

lemma stale_only: "phases (happens ms s (Goes r ok)) r = Stale k b \<Longrightarrow> phases s r \<noteq> Stale k b \<Longrightarrow>
    \<exists>w. map_of (rows s) k = Some w \<and> \<not> row_done w \<and> row_beat w = b \<and> clock s - b > LEASE"
  by (auto simp: claim_def look_def steal_def apply_step_def finish_def start_at_def split: phase.splits option.splits if_splits)

text \<open>
  Nothing keeps a replica that was taken over from going on: one that stalled past the lease and one that took its claim
  both do the steps.
\<close>

lemma both_apply:
  "filter is_step (past (foldl (happens [2]) (new_fleet [2])
      [Goes 0 True, Goes 0 True, Goes 1 True, Passes 40000, Goes 1 True, Goes 1 True, Goes 1 True, Goes 0 True, Goes 1 True])) =
    [Stepped 1 0 1, Stepped 0 0 1, Stepped 1 0 0, Stepped 0 0 0]"
  by code_simp

section \<open>Steps, laws\<close>

text \<open>A step of one index ends with what the declaration says, whether or not its name was taken.\<close>

lemma index_recreated:
  assumes "dr_create dr (map (\<lambda>(f, d). (f, direction d)) ks) \<lparr>ix_name = n, ix_rest = []\<rparr> c = Inl code" "code \<in> set CONFLICTS"
    "dr_drop dr n c = Inr c'" "dr_create dr (map (\<lambda>(f, d). (f, direction d)) ks) \<lparr>ix_name = n, ix_rest = []\<rparr> c' = Inr c''"
  shows "step_index dr i (Some n) (Some ks) [] c = Inr c''"
  using assms by (simp add: step_index_def Let_def raised_def)

lemma own_index_kept: "n \<in> set (obsolete current desired) \<Longrightarrow> n \<noteq> ''_id_'' \<and> n \<notin> set desired"
  by (auto simp: obsolete_def split: option.splits)

end
