(* ===== verification/HTTP.thy ===== *)
theory HTTP
  imports Exceptions "HOL-Library.Char_ord"
begin

text \<open>
  The HTTP server of the gateway, \<open>extensions/exposition/source/HTTP/{Server,Context,messages,exceptions,address}.ts\<close>
  and \<open>exceptions.ts\<close> beside it: which requests reach the gateway, what is answered to each, and how a reply that
  streams is framed.

  The server of the platform, parsing of URLs, negotiation, encoding and decoding are parameters. Bytes are texts.
\<close>

section \<open>Exceptions\<close>

record http_exception =
  hx_status :: nat
  hx_body :: "val option"
  hx_headers :: "(string \<times> string) list option"
  hx_client :: bool

definition client_error :: "nat \<Rightarrow> val option \<Rightarrow> http_exception" where
  "client_error status body = \<lparr>hx_status = status, hx_body = body, hx_headers = None, hx_client = True\<rparr>"

definition server_error :: "nat \<Rightarrow> val option \<Rightarrow> http_exception" where
  "server_error status body = \<lparr>hx_status = status, hx_body = body, hx_headers = None, hx_client = False\<rparr>"

definition TooManyRequests :: "nat option \<Rightarrow> http_exception" where
  "TooManyRequests retry =
     (client_error 429 None)\<lparr>hx_headers := (case retry of None \<Rightarrow> None | Some n \<Rightarrow> Some [(''retry-after'', nat_str n)])\<rparr>"

definition MethodNotAllowed :: "(string \<times> string) list option \<Rightarrow> http_exception" where
  "MethodNotAllowed headers = (client_error 405 None)\<lparr>hx_headers := headers\<rparr>"

datatype failure = Http http_exception | Core exception | Raised js_error

text \<open>\<open>rethrow\<close>: what a failure of a call is answered as.\<close>

definition bad_request :: "nat \<Rightarrow> bool" where
  "bad_request code \<longleftrightarrow> 200 \<le> code \<and> code < 210 \<or> code = 221"

definition rethrown :: "failure \<Rightarrow> failure" where
  "rethrown f =
     (case f of
        Core e \<Rightarrow>
          (if bad_request (ex_code e) then Http (client_error 400 (Some (Str (ex_message e))))
           else if ex_code e = codes StateNotFound then Http (client_error 404 None)
           else if ex_code e = codes StatePrecondition then Http (client_error 412 None)
           else if ex_code e = codes StateHistory then Http (client_error 410 None)
           else if ex_code e \<in> {codes Duplicate, codes StateConcurrency, codes EntityGuard} then Http (client_error 409 None)
           else if ex_code e = codes Addressee then Http (client_error 404 None)
           else if ex_code e = codes Abandoned then Http (server_error 504 None)
           else if ex_code e = codes Unreachable then Http (server_error 503 None)
           else Core e)
      | _ \<Rightarrow> f)"

section \<open>Addresses\<close>

text \<open>The last of a list of values; \<open>headers\<close> has the names in lower case, as the platform gives them.\<close>

definition after_comma :: "string \<Rightarrow> string" where
  "after_comma s = last (split_on (CHR '','') s)"

definition client_address :: "(string \<times> string list) list \<Rightarrow> string option \<Rightarrow> string option" where
  "client_address headers header =
     (case header of
        None \<Rightarrow> None
      | Some name \<Rightarrow>
          (case map_of headers name of
             Some (v # vs) \<Rightarrow> (let a = trim (after_comma (last (v # vs))) in if a = [] then None else Some a)
           | _ \<Rightarrow> None))"

definition lower_char :: "char \<Rightarrow> char" where
  "lower_char c = (let n = of_char c :: nat in if 65 \<le> n \<and> n \<le> 90 then char_of (n + 32) else c)"

definition lower :: "string \<Rightarrow> string" where
  "lower s = map lower_char s"

definition client_country :: "(string \<times> string list) list \<Rightarrow> string option \<Rightarrow> string option" where
  "client_country headers header =
     (case header of
        None \<Rightarrow> None
      | Some name \<Rightarrow>
          (case map_of headers (lower name) of
             Some (v # vs) \<Rightarrow> (let a = trim (last (v # vs)) in if a = [] then None else Some a)
           | _ \<Rightarrow> None))"

section \<open>What reaches the gateway\<close>

text \<open>\<open>HOST\<close>: a name with an optional port, or a literal in brackets.\<close>

definition host_char :: "char \<Rightarrow> bool" where
  "host_char c \<longleftrightarrow> (CHR ''a'' \<le> c \<and> c \<le> CHR ''z'') \<or> is_digit c \<or> c = CHR ''.'' \<or> c = CHR ''-''"

definition literal_char :: "char \<Rightarrow> bool" where
  "literal_char c \<longleftrightarrow> (CHR ''a'' \<le> c \<and> c \<le> CHR ''f'') \<or> is_digit c \<or> c = CHR '':'' \<or> c = CHR ''.''"

definition port_part :: "string \<Rightarrow> bool" where
  "port_part s \<longleftrightarrow> (case s of [] \<Rightarrow> True | c # ds \<Rightarrow> c = CHR '':'' \<and> ds \<noteq> [] \<and> length ds \<le> 5 \<and> list_all is_digit ds)"

definition valid_host :: "string \<Rightarrow> bool" where
  "valid_host s =
     (if s \<noteq> [] \<and> hd s = CHR ''[''
      then (let name = takeWhile (\<lambda>c. c \<noteq> CHR '']'') (tl s); rest = dropWhile (\<lambda>c. c \<noteq> CHR '']'') (tl s)
            in rest \<noteq> [] \<and> 2 \<le> length name \<and> length name \<le> 45 \<and> list_all literal_char name \<and> port_part (tl rest))
      else (let name = takeWhile (\<lambda>c. c \<noteq> CHR '':'') s; rest = dropWhile (\<lambda>c. c \<noteq> CHR '':'') s
            in name \<noteq> [] \<and> length name \<le> 253 \<and> list_all host_char name \<and> port_part rest))"

text \<open>Host to authority: the hosts authorities are declared under, and those MCP is served at.\<close>

definition resolution :: "(string \<times> string) list \<Rightarrow> (string \<times> string) list \<Rightarrow> (string \<times> string) list" where
  "resolution authorities mcp_hosts =
     foldl (\<lambda>m (authority, host). AList.update (lower host) authority m) [] (authorities @ mcp_hosts)"

definition METHODS :: "string list" where
  "METHODS = [''OPTIONS'', ''GET'', ''HEAD'', ''POST'', ''PUT'', ''PATCH'', ''DELETE'', ''LOCK'', ''UNLOCK'']"

record server =
  sv_quiesced :: bool
  sv_gate :: "(bool \<times> nat) option"
  sv_authorities :: "(string \<times> string) list"
  sv_methods :: "string list"

record http_request =
  rq_authority :: "string option"
  rq_host :: "string option"
  rq_method :: "string option"
  rq_parses :: bool

text \<open>A gate tells whether it holds and the seconds until it does. An answer that is not the gateway's, or the authority it is asked under.\<close>

datatype listened = Answered nat "(string \<times> string) list" | Serves string

definition listener :: "server \<Rightarrow> http_request \<Rightarrow> listened" where
  "listener sv r =
     (if sv_quiesced sv \<or> (case sv_gate sv of Some (False, _) \<Rightarrow> True | _ \<Rightarrow> False)
      then (let remaining = (case sv_gate sv of None \<Rightarrow> 0 | Some (_, n) \<Rightarrow> n)
            in Answered 503 ((''cache-control'', ''no-store'') # (if 0 < remaining then [(''retry-after'', nat_str remaining)] else [])))
      else (case (case rq_authority r of Some a \<Rightarrow> Some a | None \<Rightarrow> rq_host r) of
              None \<Rightarrow> Answered 400 []
            | Some given \<Rightarrow>
                (let host = lower given
                 in if \<not> valid_host host then Answered 400 []
                    else if \<not> rq_parses r then Answered 400 []
                    else (case rq_method r of
                            None \<Rightarrow> Answered 501 []
                          | Some method \<Rightarrow>
                              if method \<notin> set (sv_methods sv) then Answered 501 []
                              else Serves (case map_of (sv_authorities sv) host of None \<Rightarrow> host | Some a \<Rightarrow> a)))))"

section \<open>Replies\<close>

record format =
  fm_type :: string
  fm_multipart :: string
  fm_encode :: "val \<Rightarrow> failure + string"

text \<open>What a reply may carry; \<open>Coded\<close> is what a component encoded itself, \<open>Streams\<close> a stream.\<close>

datatype body = Absent | Nulled | Plain val | Coded string string | Streams

record message =
  ms_status :: "nat option"
  ms_headers :: "(string \<times> string) list"
  ms_body :: body
  ms_validate :: "(string \<Rightarrow> string \<times> bool) option"

record response =
  rs_status :: nat
  rs_headers :: "(string \<times> string list) list"
  rs_ended :: bool
  rs_bytes :: "string option"

record http_context =
  hc_method :: string
  hc_encoder :: "format option"
  hc_debug :: bool
  hc_aborted :: bool
  hc_shape :: "message \<Rightarrow> failure + message"
  hc_exposition :: string
  hc_timing :: string

definition set_header :: "string \<Rightarrow> string \<Rightarrow> response \<Rightarrow> response" where
  "set_header k v r = r\<lparr>rs_headers := AList.update k [v] (rs_headers r)\<rparr>"

definition append_header :: "string \<Rightarrow> string \<Rightarrow> response \<Rightarrow> response" where
  "append_header k v r = r\<lparr>rs_headers := AList.update k (dget [] (rs_headers r) k @ [v]) (rs_headers r)\<rparr>"

definition end_reply :: "string option \<Rightarrow> response \<Rightarrow> response" where
  "end_reply bytes r = r\<lparr>rs_ended := True, rs_bytes := bytes\<rparr>"

definition not_acceptable :: failure where
  "not_acceptable = Http (client_error 406 None)"

text \<open>\<open>send\<close>, and the start of \<open>stream\<close>: the response, and what was raised.\<close>

definition send :: "http_context \<Rightarrow> message \<Rightarrow> response \<Rightarrow> response \<times> failure option" where
  "send c m r =
     (if ms_body m = Absent \<or> ms_body m = Nulled
      then (end_reply None (if map_of (rs_headers r) ''content-length'' = None then set_header ''content-length'' ''0'' r else r), None)
      else (case hc_encoder c of
              None \<Rightarrow> (r, Some not_acceptable)
            | Some f \<Rightarrow>
                (case (case ms_body m of Plain v \<Rightarrow> fm_encode f v | Coded bytes _ \<Rightarrow> Inr bytes | _ \<Rightarrow> Inr []) of
                   Inl e \<Rightarrow> (r, Some e)
                 | Inr buf \<Rightarrow>
                     (let type = (case ms_body m of Coded _ t \<Rightarrow> t | _ \<Rightarrow> fm_type f);
                          full = (\<lambda>r. end_reply (Some buf) (append_header ''vary'' ''accept''
                            (set_header ''content-length'' (nat_str (length buf)) (set_header ''content-type'' type r))))
                      in case ms_validate m of
                           None \<Rightarrow> (full r, None)
                         | Some validate \<Rightarrow>
                             (let (etag, held) = validate buf; r' = set_header ''etag'' etag r
                              in if held then (end_reply None (r'\<lparr>rs_status := 304\<rparr>), None) else (full r', None))))))"

definition BOUNDARY :: string where "BOUNDARY = ''cut''"

definition stream_reply :: "http_context \<Rightarrow> message \<Rightarrow> response \<Rightarrow> response \<times> failure option" where
  "stream_reply c m r =
     (if map_of (ms_headers m) ''content-type'' \<noteq> None then (end_reply None r, None)
      else (case hc_encoder c of
              None \<Rightarrow> (r, Some not_acceptable)
            | Some f \<Rightarrow> (end_reply None (set_header ''content-type'' (fm_multipart f @ ''; boundary='' @ BOUNDARY) r), None)))"

text \<open>\<open>write\<close>: a stream that has begun counts as ended, its parts being framed on their own.\<close>

definition write_reply :: "http_context \<Rightarrow> response \<Rightarrow> message \<Rightarrow> response \<times> failure option" where
  "write_reply c r m0 =
     (case hc_shape c m0 of
        Inl e \<Rightarrow> (r, Some e)
      | Inr m \<Rightarrow>
          (let r1 = (case ms_status m of None \<Rightarrow> r | Some s \<Rightarrow> r\<lparr>rs_status := s\<rparr>);
               r2 = fold (\<lambda>(k, v). set_header k v) (ms_headers m) (set_header ''exposition'' (hc_exposition c) r1);
               r3 = set_header ''server-timing'' (hc_timing c) r2
           in if ms_body m = Streams then stream_reply c m r3 else send c m r3))"

text \<open>\<open>success\<close>\<close>

definition success_status :: "http_context \<Rightarrow> message \<Rightarrow> nat" where
  "success_status c m =
     (case ms_status m of
        Some s \<Rightarrow> s
      | None \<Rightarrow>
          if ms_body m = Nulled then 404
          else if hc_method c = ''POST'' then 201
          else if ms_body m = Absent \<and> hc_method c \<noteq> ''HEAD'' then 204
          else 200)"

definition success :: "http_context \<Rightarrow> response \<Rightarrow> message \<Rightarrow> response \<times> failure option" where
  "success c r m = write_reply c r (m\<lparr>ms_status := Some (success_status c m)\<rparr>)"

text \<open>\<open>fail\<close>: what is told of a failure. \<open>None\<close> where nobody waits for an answer.\<close>

definition failed_status :: "failure \<Rightarrow> nat" where
  "failed_status e = (case e of Http x \<Rightarrow> hx_status x | _ \<Rightarrow> 500)"

definition is_client_error :: "failure \<Rightarrow> bool" where
  "is_client_error e = (case e of Http x \<Rightarrow> hx_client x | _ \<Rightarrow> False)"

definition failure_text :: "failure \<Rightarrow> body" where
  "failure_text e =
     (case e of
        Http x \<Rightarrow> (case hx_body x of None \<Rightarrow> Absent | Some Null \<Rightarrow> Nulled | Some v \<Rightarrow> Plain v)
      | Core x \<Rightarrow> Plain (case map_of (ex_detail x) ''stack'' of Some v \<Rightarrow> v | None \<Rightarrow> Str (ex_message x))
      | Raised x \<Rightarrow> Plain (Str (case err_stack x of Some s \<Rightarrow> s | None \<Rightarrow> err_message x)))"

definition failure_message :: "http_context \<Rightarrow> failure \<Rightarrow> message" where
  "failure_message c e =
     \<lparr>ms_status = Some (failed_status e),
      ms_headers = (case e of Http x \<Rightarrow> (case hx_headers x of None \<Rightarrow> [] | Some h \<Rightarrow> h) | _ \<Rightarrow> []),
      ms_body = (if hc_encoder c = None then Absent
                 else if is_client_error e \<or> hc_debug c then failure_text e else Absent),
      ms_validate = None\<rparr>"

definition fail :: "http_context \<Rightarrow> response \<Rightarrow> failure \<Rightarrow> response option" where
  "fail c r e =
     (if hc_aborted c then None
      else if rs_ended r then Some r
      else (case write_reply c (r\<lparr>rs_status := failed_status e\<rparr>) (failure_message c e) of
              (r', None) \<Rightarrow> Some r'
            | (r', Some _) \<Rightarrow> Some (if rs_ended r' then r' else end_reply None (r'\<lparr>rs_status := 500\<rparr>))))"

definition serve :: "http_context \<Rightarrow> response \<Rightarrow> (failure + message) \<Rightarrow> response option" where
  "serve c r outcome =
     (case outcome of
        Inl e \<Rightarrow> fail c r e
      | Inr m \<Rightarrow> (case success c r m of (r', None) \<Rightarrow> Some r' | (r', Some e) \<Rightarrow> fail c r' e))"

section \<open>Requests\<close>

text \<open>\<open>SUBTYPE\<close>: a media type of the runtime's own, as what it is a type of and which; the longest subtype that fits.\<close>

definition word_char :: "char \<Rightarrow> bool" where
  "word_char c \<longleftrightarrow> (CHR ''a'' \<le> c \<and> c \<le> CHR ''z'') \<or> (CHR ''A'' \<le> c \<and> c \<le> CHR ''Z'') \<or> is_digit c \<or> c = CHR ''_''"

definition vendor :: string where "vendor = ''vnd.toa.''"

definition subtyped :: "string \<Rightarrow> (string \<times> string) option" where
  "subtyped accept =
     (let type = takeWhile (\<lambda>c. c \<noteq> CHR ''/'') accept; rest = drop (Suc (length type)) accept; named = drop (length vendor) rest
      in if type \<noteq> [] \<and> length type \<le> 32 \<and> list_all word_char type \<and> length type < length accept \<and>
            take (length vendor) rest = vendor \<and> \<not> list_ex is_space named
         then (case find (\<lambda>i. i < length named \<and> named ! i = CHR ''+'' \<and> 1 \<le> length named - Suc i \<and> length named - Suc i \<le> 32) (rev [1..<33]) of
                 None \<Rightarrow> None
               | Some i \<Rightarrow> Some (type @ ''/'' @ drop (Suc i) named, take i named))
         else None)"

text \<open>\<open>negotiate\<close>: what was negotiated is remembered, and forgotten whole when it is too much.\<close>

definition NEGOTIATED_LIMIT :: nat where "NEGOTIATED_LIMIT = 1024"

definition negotiate ::
  "(string \<Rightarrow> format option) \<Rightarrow> string \<Rightarrow> (string \<times> format option) list \<Rightarrow> format option \<times> (string \<times> format option) list" where
  "negotiate negotiated accept known =
     (case map_of known accept of
        Some f \<Rightarrow> (f, known)
      | None \<Rightarrow> (negotiated accept, AList.update accept (negotiated accept) (if NEGOTIATED_LIMIT \<le> length known then [] else known)))"

text \<open>The encoder and the subtype of a request, given its \<open>accept\<close>.\<close>

definition accepted ::
  "(string \<Rightarrow> format option) \<Rightarrow> string option \<Rightarrow> (string \<times> format option) list \<Rightarrow> (format option \<times> string option) \<times> (string \<times> format option) list" where
  "accepted negotiated accept known =
     (let (accept', subtype) = (case accept of
            None \<Rightarrow> ([], None)
          | Some a \<Rightarrow> (case subtyped a of None \<Rightarrow> (a, None) | Some (a', t) \<Rightarrow> (a', Some t)));
          (f, known') = negotiate negotiated accept' known
      in ((f, subtype), known'))"

text \<open>\<open>read\<close>: the media type of a header and the decoder of one are parameters.\<close>

definition read_body ::
  "(string \<Rightarrow> failure + string \<times> string option) \<Rightarrow> (string \<Rightarrow> (string \<Rightarrow> string option \<Rightarrow> val option) option) \<Rightarrow>
   string option \<Rightarrow> string \<Rightarrow> failure + val" where
  "read_body content_type decoder header buf =
     (case header of
        None \<Rightarrow> Inr Undef
      | Some h \<Rightarrow>
          rbind (content_type h) (\<lambda>(type, charset).
            case decoder type of
              None \<Rightarrow> Inl (Http (client_error 415 None))
            | Some decode \<Rightarrow> (case decode buf charset of None \<Rightarrow> Inl (Http (client_error 400 None)) | Some v \<Rightarrow> Inr v)))"

section \<open>Framing\<close>

text \<open>
  \<open>Framing\<close>: a stream of parts as the parts of a multipart reply. Its reader asks for a part, the body answers with
  one, ends or breaks, the gateway stops, or the reader goes, whenever they do.
\<close>

datatype frame = Ack | Part val | Fin

record framing =
  fr_pulling :: bool
  fr_stopping :: bool
  fr_finished :: bool
  fr_gone :: bool
  fr_out :: "frame list"

definition push_frame :: "frame \<Rightarrow> framing \<Rightarrow> framing" where
  "push_frame x f = (if fr_gone f then f else f\<lparr>fr_out := fr_out f @ [x]\<rparr>)"

definition finish_framing :: "framing \<Rightarrow> framing" where
  "finish_framing f = (if fr_finished f then f else push_frame Fin (f\<lparr>fr_finished := True\<rparr>))"

definition stop_framing :: "framing \<Rightarrow> framing" where
  "stop_framing f = (let f' = f\<lparr>fr_stopping := True\<rparr> in if fr_pulling f' then f' else finish_framing f')"

definition new_framing :: "bool \<Rightarrow> framing" where
  "new_framing aborted =
     (let f = \<lparr>fr_pulling = False, fr_stopping = False, fr_finished = False, fr_gone = False, fr_out = [Ack]\<rparr>
      in if aborted then stop_framing f else f)"

datatype streaming = Reads | Yields val | Done | Breaks | Aborts | Leaves

text \<open>What the body says is heard where a pull is under way; the signal is heard until the reply is finished or its reader is gone.\<close>

fun framing_step :: "framing \<Rightarrow> streaming \<Rightarrow> framing" where
  "framing_step f Reads = (if fr_pulling f \<or> fr_finished f \<or> fr_gone f then f else f\<lparr>fr_pulling := True\<rparr>)"
| "framing_step f (Yields v) =
     (if fr_pulling f
      then (let f' = f\<lparr>fr_pulling := False\<rparr> in if fr_stopping f' then finish_framing f' else push_frame (Part v) f')
      else f)"
| "framing_step f Done = (if fr_pulling f then finish_framing (f\<lparr>fr_pulling := False\<rparr>) else f)"
| "framing_step f Breaks = (if fr_pulling f then finish_framing (f\<lparr>fr_pulling := False\<rparr>) else f)"
| "framing_step f Aborts = (if fr_finished f \<or> fr_gone f then f else stop_framing f)"
| "framing_step f Leaves = f\<lparr>fr_gone := True\<rparr>"

text \<open>The frames as they are written; \<open>encode\<close> gives the bytes of a value.\<close>

definition CRLF :: string where "CRLF = [CHR 0x0D, CHR 0x0A]"

definition CUT :: string where "CUT = ''--'' @ BOUNDARY @ CRLF"

definition FINALCUT :: string where "FINALCUT = ''--'' @ BOUNDARY @ ''--''"

fun frame_bytes :: "(val \<Rightarrow> string) \<Rightarrow> frame \<Rightarrow> string" where
  "frame_bytes encode Ack = CUT @ CRLF @ encode (Str ''ACK'') @ CRLF @ CUT"
| "frame_bytes encode (Part v) = CRLF @ encode v @ CRLF @ CUT"
| "frame_bytes encode Fin = CRLF @ encode (Str ''FIN'') @ CRLF @ FINALCUT"

section \<open>What a reader of a stream is told\<close>

text \<open>The parts the body gave where it was asked for one.\<close>

fun heard :: "framing \<Rightarrow> streaming list \<Rightarrow> val list" where
  "heard f [] = []"
| "heard f (e # es) = (case e of Yields v \<Rightarrow> if fr_pulling f then [v] else [] | _ \<Rightarrow> []) @ heard (framing_step f e) es"

lemma heard_append: "heard f (es @ ds) = heard f es @ heard (foldl framing_step f es) ds"
  by (induction es arbitrary: f) simp_all

text \<open>
  What was written, given what the body gave: the opening, a beginning of the parts, all of them unless the gateway
  stopped or the reader went, and the closing where the stream is over.
\<close>

definition told_so_far :: "nat \<Rightarrow> bool \<Rightarrow> framing \<Rightarrow> val list \<Rightarrow> bool" where
  "told_so_far n fin f vs \<longleftrightarrow>
     n \<le> length vs \<and> fr_out f = Ack # map Part (take n vs) @ (if fin then [Fin] else []) \<and>
     (fin \<longrightarrow> fr_finished f) \<and> (fr_finished f \<longrightarrow> \<not> fr_gone f \<longrightarrow> fin) \<and>
     (\<not> fr_gone f \<longrightarrow> \<not> fr_stopping f \<or> \<not> fr_finished f \<longrightarrow> n = length vs) \<and>
     (fr_stopping f \<longrightarrow> \<not> fr_pulling f \<longrightarrow> \<not> fr_gone f \<longrightarrow> fr_finished f) \<and> (fr_finished f \<longrightarrow> \<not> fr_pulling f)"

definition told :: "framing \<Rightarrow> val list \<Rightarrow> bool" where
  "told f vs \<longleftrightarrow> (\<exists>n fin. told_so_far n fin f vs)"

lemma toldI: "told_so_far n fin f vs \<Longrightarrow> told f vs"
  unfolding told_def by blast

lemma told_finish:
  assumes "told_so_far n fin (f\<lparr>fr_pulling := True\<rparr>) vs" "\<not> fr_pulling f" "\<not> fr_finished f" "fr_stopping f \<or> xs = []"
  shows "told (finish_framing f) (vs @ xs)"
proof (cases "fr_gone f")
  case True
  have "told_so_far n fin (finish_framing f) (vs @ xs)"
    using assms True by (auto simp: told_so_far_def finish_framing_def push_frame_def)
  then show ?thesis by (rule toldI)
next
  case False
  have "told_so_far n True (finish_framing f) (vs @ xs)"
    using assms False by (auto simp: told_so_far_def finish_framing_def push_frame_def)
  then show ?thesis by (rule toldI)
qed

lemma told_leaves:
  assumes t: "told_so_far n fin f vs"
  shows "told (f\<lparr>fr_gone := True\<rparr>) vs"
proof -
  have s: "fr_out (f\<lparr>fr_gone := True\<rparr>) = fr_out f" "fr_finished (f\<lparr>fr_gone := True\<rparr>) = fr_finished f" "fr_gone (f\<lparr>fr_gone := True\<rparr>)"
    "fr_pulling (f\<lparr>fr_gone := True\<rparr>) = fr_pulling f" "fr_stopping (f\<lparr>fr_gone := True\<rparr>) = fr_stopping f"
    by simp_all
  have "told_so_far n fin (f\<lparr>fr_gone := True\<rparr>) vs" using t s(3) unfolding told_so_far_def s(1,2,4,5) by blast
  then show ?thesis by (rule toldI)
qed

text \<open>A step while a part is asked for, and one while none is.\<close>

lemma told_pulling:
  assumes t: "told_so_far n fin f vs" and p: "fr_pulling f"
  shows "told (framing_step f e) (vs @ (case e of Yields v \<Rightarrow> [v] | _ \<Rightarrow> []))"
proof -
  have nf: "\<not> fr_finished f" using t p by (auto simp: told_so_far_def)
  have again: "(f\<lparr>fr_pulling := False\<rparr>)\<lparr>fr_pulling := True\<rparr> = f" using p by simp
  have over: "told (finish_framing (f\<lparr>fr_pulling := False\<rparr>)) (vs @ xs)" if "fr_stopping f \<or> xs = []" for xs
    using told_finish[of n fin "f\<lparr>fr_pulling := False\<rparr>" vs xs] t that nf unfolding again by simp
  show ?thesis
  proof (cases e)
    case (Yields v)
    show ?thesis
    proof (cases "fr_stopping f")
      case True
      then show ?thesis using over[of "[v]"] Yields p by (simp add: Let_def)
    next
      case False
      have "told_so_far (if fr_gone f then n else Suc n) fin (push_frame (Part v) (f\<lparr>fr_pulling := False\<rparr>)) (vs @ [v])"
        using t nf False by (auto simp: told_so_far_def push_frame_def)
      then have "told (push_frame (Part v) (f\<lparr>fr_pulling := False\<rparr>)) (vs @ [v])" by (rule toldI)
      then show ?thesis using False Yields p by (simp add: Let_def)
    qed
  next
    case Aborts
    have "told_so_far n fin (f\<lparr>fr_stopping := True\<rparr>) vs" using t nf p by (auto simp: told_so_far_def)
    then show ?thesis using Aborts t p toldI by (simp add: stop_framing_def Let_def)
  qed (use over[of "[]"] p t told_leaves toldI in simp_all)
qed

lemma told_idle:
  assumes t: "told_so_far n fin f vs" and p: "\<not> fr_pulling f"
  shows "told (framing_step f e) vs"
proof -
  have same: "told f vs" using t by (rule toldI)
  show ?thesis
  proof (cases e)
    case Reads
    have "told (f\<lparr>fr_pulling := True\<rparr>) vs" if "\<not> fr_finished f"
      by (rule toldI[of n fin]) (use t that in \<open>auto simp: told_so_far_def\<close>)
    then show ?thesis using same p Reads by simp
  next
    case Aborts
    have "told_so_far n fin (f\<lparr>fr_stopping := True, fr_pulling := True\<rparr>) vs" if "\<not> fr_finished f" using t that by (auto simp: told_so_far_def)
    then have "told (finish_framing (f\<lparr>fr_stopping := True\<rparr>)) (vs @ [])" if "\<not> fr_finished f"
      using told_finish[of n fin "f\<lparr>fr_stopping := True\<rparr>" vs "[]"] p that by simp
    then show ?thesis using same p Aborts by (simp add: stop_framing_def Let_def)
  qed (use same p told_leaves[OF t] in simp_all)
qed

lemma told_step:
  assumes "told f vs"
  shows "told (framing_step f e) (vs @ (case e of Yields v \<Rightarrow> if fr_pulling f then [v] else [] | _ \<Rightarrow> []))"
proof -
  obtain n fin where t: "told_so_far n fin f vs" using assms unfolding told_def by blast
  show ?thesis
  proof (cases "fr_pulling f")
    case True
    have "(case e of Yields v \<Rightarrow> if fr_pulling f then [v] else [] | _ \<Rightarrow> []) = (case e of Yields v \<Rightarrow> [v] | _ \<Rightarrow> [])"
      by (cases e) (simp_all add: True)
    then show ?thesis using told_pulling[OF t True, of e] by (simp only:)
  next
    case False
    have "(case e of Yields v \<Rightarrow> if fr_pulling f then [v] else [] | _ \<Rightarrow> []) = []"
      by (cases e) (simp_all add: False)
    then show ?thesis using told_idle[OF t False, of e] by (simp only: append_Nil2)
  qed
qed

lemma told_all: "told (foldl framing_step (new_framing a) es) (heard (new_framing a) es)"
proof (induction es rule: rev_induct)
  case Nil
  have "told_so_far 0 a (new_framing a) []"
    by (simp add: told_so_far_def new_framing_def stop_framing_def finish_framing_def push_frame_def Let_def)
  then show ?case by (simp add: toldI)
next
  case (snoc e es)
  from told_step[OF this, of e] show ?case by (simp add: heard_append)
qed

text \<open>
  C17. A reply that streams is framed whole, whatever becomes of its body, of the gateway and of its reader, and in
  whatever order: it opens with \<open>ACK\<close>, goes on with the parts of the body in their order, none of them twice, and
  nothing comes after \<open>FIN\<close>. Unless the gateway stopped or the reader went, every part the body gave is there; and a
  reader that is still there is told \<open>FIN\<close> once the stream is over, as it is once the gateway stopped and no part is
  asked for.
\<close>

theorem stream_framed:
  assumes "f = foldl framing_step (new_framing aborted) es" and "vs = heard (new_framing aborted) es"
  shows "\<exists>n fin. n \<le> length vs \<and> fr_out f = Ack # map Part (take n vs) @ (if fin then [Fin] else []) \<and>
    (\<not> fr_gone f \<longrightarrow> fin = fr_finished f) \<and> (\<not> fr_gone f \<longrightarrow> \<not> fr_stopping f \<longrightarrow> n = length vs) \<and>
    (\<not> fr_gone f \<longrightarrow> fr_stopping f \<longrightarrow> \<not> fr_pulling f \<longrightarrow> fin)"
proof -
  obtain n fin where "told_so_far n fin f vs" using told_all assms unfolding told_def by blast
  then show ?thesis unfolding told_so_far_def by blast
qed

lemma stream_framed_witness:
  "\<exists>n fin. n \<le> length [Null, Undef] \<and>
    fr_out (foldl framing_step (new_framing False) [Reads, Yields Null, Reads, Aborts, Yields Undef]) =
      Ack # map Part (take n [Null, Undef]) @ (if fin then [Fin] else [])"
proof -
  let ?es = "[Reads, Yields Null, Reads, Aborts, Yields Undef]"
  have "heard (new_framing False) ?es = [Null, Undef]" by code_simp
  from stream_framed[OF refl this[symmetric]] show ?thesis by blast
qed

section \<open>Hosts, addresses, failures\<close>

text \<open>An authority is of letters, digits, dots, dashes, colons and brackets: nothing that criteria it is written into would read.\<close>

lemma port_chars: "port_part s \<Longrightarrow> c \<in> set s \<Longrightarrow> c = CHR '':'' \<or> is_digit c"
  by (cases s) (auto simp: port_part_def list_all_iff)

lemma valid_host_chars:
  assumes v: "valid_host s" and c: "c \<in> set s"
  shows "host_char c \<or> literal_char c \<or> c \<in> set ''[]:''"
proof -
  have digit: "is_digit c \<Longrightarrow> host_char c" for c by (simp add: host_char_def)
  show ?thesis
  proof (cases "s \<noteq> [] \<and> hd s = CHR ''[''")
    case True
    then obtain cs where s: "s = CHR ''['' # cs" by (cases s) auto
    let ?name = "takeWhile (\<lambda>c. c \<noteq> CHR '']'') cs" and ?rest = "dropWhile (\<lambda>c. c \<noteq> CHR '']'') cs"
    have h: "?rest \<noteq> []" "list_all literal_char ?name" "port_part (tl ?rest)" using v by (simp_all add: valid_host_def s Let_def)
    have "cs = ?name @ hd ?rest # tl ?rest" using h(1) by simp
    then have "c = CHR ''['' \<or> c \<in> set ?name \<or> c = hd ?rest \<or> c \<in> set (tl ?rest)" using c s by (metis Un_iff set_ConsD set_append)
    moreover have "hd ?rest = CHR '']''" using h(1) hd_dropWhile[of "\<lambda>c. c \<noteq> CHR '']''" cs] by blast
    ultimately show ?thesis using h(2,3) port_chars digit by (fastforce simp: list_all_iff)
  next
    case False
    let ?name = "takeWhile (\<lambda>c. c \<noteq> CHR '':'') s" and ?rest = "dropWhile (\<lambda>c. c \<noteq> CHR '':'') s"
    have h: "list_all host_char ?name" "port_part ?rest" using v False by (auto simp: valid_host_def Let_def)
    have "c \<in> set ?name \<or> c \<in> set ?rest" using c by (metis Un_iff set_append takeWhile_dropWhile_id)
    then show ?thesis using h port_chars digit by (fastforce simp: list_all_iff)
  qed
qed

lemma host_harmless:
  assumes "valid_host s" "c \<in> set s"
  shows "c \<notin> set ('',;=()!<>~ '' @ [CHR 0x22, CHR 0x27])"
  using valid_host_chars[OF assms] by (auto simp: host_char_def literal_char_def is_digit_def less_eq_char_def)

text \<open>What is served is served under a declared authority, or the host it was asked at, and that is harmless.\<close>

lemma serves_valid: "listener sv r = Serves a \<Longrightarrow> (\<exists>host. valid_host host \<and> (a = host \<or> map_of (sv_authorities sv) host = Some a))"
  by (auto simp: listener_def Let_def split: if_splits option.splits)

text \<open>A halted gateway answers every request, and serves none.\<close>

lemma quiesced_answers: "sv_quiesced sv \<Longrightarrow> \<exists>h. listener sv r = Answered 503 h"
  by (simp add: listener_def Let_def)

text \<open>A header is found by the name the platform gives it: written otherwise, that of the address is not.\<close>

lemma address_unread:
  "client_address [(''x-real-ip'', [''10.0.0.1''])] (Some ''X-Real-IP'') = None"
  "client_country [(''x-real-ip'', [''10.0.0.1''])] (Some ''X-Real-IP'') = Some ''10.0.0.1''"
  by (simp add: client_address_def) code_simp

text \<open>Nothing of a failure that is not the client's is told, but its status.\<close>

lemma failure_untold:
  assumes "\<not> hc_debug c" "\<not> is_client_error e" "\<not> rs_ended r" "\<not> hc_aborted c"
    and "hc_shape c (failure_message c e) = Inr (failure_message c e)"
  shows "\<exists>r'. fail c r e = Some r' \<and> rs_bytes r' = None \<and> rs_ended r'"
proof -
  have "ms_body (failure_message c e) = Absent" using assms(1,2) by (simp add: failure_message_def)
  then show ?thesis
    using assms(3,4,5) by (simp add: fail_def write_reply_def Let_def send_def end_reply_def)
qed

lemma rethrown_client: "is_client_error (rethrown (Core e)) \<Longrightarrow>
    bad_request (ex_code e) \<or> ex_code e \<in> codes ` {StateNotFound, StatePrecondition, StateHistory, Duplicate, StateConcurrency, EntityGuard, Addressee}"
  by (auto simp: rethrown_def is_client_error_def server_error_def split: if_splits)

text \<open>Negotiating with what is remembered is negotiating, and not more is remembered than the limit.\<close>

definition remembers :: "(string \<Rightarrow> format option) \<Rightarrow> (string \<times> format option) list \<Rightarrow> bool" where
  "remembers negotiated known \<longleftrightarrow> (\<forall>a f. map_of known a = Some f \<longrightarrow> f = negotiated a) \<and> length known \<le> NEGOTIATED_LIMIT"

lemma negotiate_transparent:
  assumes "remembers negotiated known"
  shows "fst (negotiate negotiated a known) = negotiated a" "remembers negotiated (snd (negotiate negotiated a known))"
proof -
  have len: "length (AList.update a f xs) \<le> Suc (length xs)" for f :: "format option" and xs by (induction xs) auto
  show "fst (negotiate negotiated a known) = negotiated a" using assms by (auto simp: negotiate_def remembers_def split: option.split)
  show "remembers negotiated (snd (negotiate negotiated a known))"
    using assms len[of "negotiated a" known] by (auto simp: negotiate_def remembers_def update_conv' NEGOTIATED_LIMIT_def split: option.split)
qed

end
