(* ===== verification/Realtime.thy ===== *)
theory Realtime
  imports Prelude "HOL-Library.Sublist"
begin

text \<open>
  Realtime streams: \<open>exposition/source/directives/realtime/{Realtime,Hub,Stream}.ts\<close>,
  \<open>exposition/source/realtime/{Destination,Factory,redis}.ts\<close> and \<open>definitions/source/extensions.exposition/realtime/routes.ts\<close>.
  A gateway gives the readers of a key the events written to its stream in Redis: those a reader missed are read from
  the stream, those written from then on come by the channel of the key.

  Of the streams one key is modelled, and its events are known by their identifiers, which number what was written to the stream. The
  stream is not trimmed here and does not expire, and pushed events, which are kept nowhere, are left out; so are heartbeats.
\<close>

section \<open>Shards\<close>

text \<open>\<open>shard\<close>: FNV-1a on 32 bits, over the codes of the key's characters.\<close>

definition fnv_step :: "nat \<Rightarrow> nat \<Rightarrow> nat" where
  "fnv_step hash code = (xor hash code * 0x01000193) mod 2 ^ 32"

definition shard :: "nat list \<Rightarrow> nat \<Rightarrow> nat" where
  "shard key n = (if n = 1 then 0 else foldl fnv_step 0x811c9dc5 key mod n)"

section \<open>A reader\<close>

text \<open>
  \<open>Stream\<close>: the last event it was given, those held back while it is being replayed to, what it was given, and the
  last token it was given. While it is being opened it holds what it is to continue from.
\<close>

datatype stage = Entered "nat option" | Marked "nat option" nat | Replayed nat "nat list" | Live

record reader =
  rd_stage :: stage
  rd_cursor :: "nat option"
  rd_held :: "nat list option"
  rd_given :: "nat list"
  rd_token :: "nat option"
  rd_begins :: nat

definition write_entry :: "nat \<Rightarrow> reader \<Rightarrow> reader" where
  "write_entry i r =
     (case rd_cursor r of
        Some c \<Rightarrow> if i \<le> c then r else r\<lparr>rd_cursor := Some i, rd_given := rd_given r @ [i], rd_token := Some i\<rparr>
      | None \<Rightarrow> r\<lparr>rd_cursor := Some i, rd_given := rd_given r @ [i], rd_token := Some i\<rparr>)"

definition deliver :: "nat \<Rightarrow> reader \<Rightarrow> reader" where
  "deliver i r = (case rd_held r of Some held \<Rightarrow> r\<lparr>rd_held := Some (held @ [i])\<rparr> | None \<Rightarrow> write_entry i r)"

definition ready :: "nat list \<Rightarrow> reader \<Rightarrow> reader" where
  "ready entries r =
     (let held = (case rd_held r of None \<Rightarrow> [] | Some h \<Rightarrow> h)
      in fold write_entry held (fold write_entry entries (r\<lparr>rd_held := None\<rparr>)))"

section \<open>A key\<close>

text \<open>
  What was written to the stream, events and the markers of readers; the messages of the channel under way; whether the
  key is subscribed to, whether the subscriber is connected and was away; and what a recovery read. Messages under way when
  the last reader leaves are dropped with the subscription.
\<close>

record hub =
  hb_log :: "bool list"
  hb_queue :: "nat list"
  hb_subscribed :: bool
  hb_up :: bool
  hb_behind :: bool
  hb_last :: "nat option"
  hb_readers :: "(nat \<times> reader) list"
  hb_recovered :: "nat list option"

definition new_hub :: hub where
  "new_hub = \<lparr>hb_log = [], hb_queue = [], hb_subscribed = False, hb_up = True, hb_behind = False, hb_last = None, hb_readers = [], hb_recovered = None\<rparr>"

text \<open>The first thing written is number one. What is an event, and the events after one number up to another.\<close>

definition is_event :: "bool list \<Rightarrow> nat \<Rightarrow> bool" where
  "is_event log' i \<longleftrightarrow> 0 < i \<and> i \<le> length log' \<and> log' ! (i - 1)"

definition events :: "bool list \<Rightarrow> nat \<Rightarrow> nat \<Rightarrow> nat list" where
  "events log' a b = filter (is_event log') [Suc a..<Suc b]"

text \<open>\<open>read\<close>: markers are no events.\<close>

definition read_stream :: "nat \<Rightarrow> hub \<Rightarrow> nat list" where
  "read_stream after' h = events (hb_log h) after' (length (hb_log h))"

text \<open>\<open>APPEND\<close>, only to a stream that exists, and the marker of a reader, which creates it.\<close>

definition append_event :: "hub \<Rightarrow> hub" where
  "append_event h =
     (if hb_log h = [] then h
      else let h' = h\<lparr>hb_log := hb_log h @ [True]\<rparr>
           in if hb_subscribed h \<and> hb_up h then h'\<lparr>hb_queue := hb_queue h @ [length (hb_log h')]\<rparr> else h')"

definition append_marker :: "hub \<Rightarrow> hub" where
  "append_marker h = h\<lparr>hb_log := hb_log h @ [False]\<rparr>"

definition on_reader :: "nat \<Rightarrow> (reader \<Rightarrow> reader) \<Rightarrow> hub \<Rightarrow> hub" where
  "on_reader r f h = h\<lparr>hb_readers := map (\<lambda>(q, x). (q, if q = r then f x else x)) (hb_readers h)\<rparr>"

definition broadcast :: "nat \<Rightarrow> hub \<Rightarrow> hub" where
  "broadcast i h = h\<lparr>hb_last := Some i, hb_readers := map (\<lambda>(q, x). (q, deliver i x)) (hb_readers h)\<rparr>"

text \<open>\<open>open\<close>, up to each of its waits, and \<open>leave\<close>.\<close>

definition enter :: "nat \<Rightarrow> nat option \<Rightarrow> hub \<Rightarrow> hub" where
  "enter r given h =
     (if map_of (hb_readers h) r \<noteq> None then h
      else h\<lparr>hb_readers := (r, \<lparr>rd_stage = Entered given, rd_cursor = None, rd_held = Some [], rd_given = [], rd_token = None,
          rd_begins = 0\<rparr>) # hb_readers h\<rparr>)"

definition mark :: "nat \<Rightarrow> nat option \<Rightarrow> hub \<Rightarrow> hub" where
  "mark r given h =
     (let h' = append_marker h; m = length (hb_log h')
      in on_reader r (\<lambda>x. x\<lparr>rd_stage := Marked given m\<rparr>) (h'\<lparr>hb_last := (case hb_last h' of None \<Rightarrow> Some m | l \<Rightarrow> l)\<rparr>))"

definition replay :: "nat \<Rightarrow> nat option \<Rightarrow> nat \<Rightarrow> hub \<Rightarrow> hub" where
  "replay r given m h =
     (let cursor = (case given of None \<Rightarrow> m | Some t \<Rightarrow> t); entries = (case given of None \<Rightarrow> [] | Some t \<Rightarrow> read_stream t h)
      in on_reader r (\<lambda>x. x\<lparr>rd_stage := Replayed m entries, rd_cursor := Some cursor, rd_begins := cursor\<rparr>) h)"

definition begin_live :: "nat \<Rightarrow> nat \<Rightarrow> nat list \<Rightarrow> hub \<Rightarrow> hub" where
  "begin_live r m entries h =
     on_reader r (\<lambda>x. let x' = ready entries (x\<lparr>rd_stage := Live\<rparr>) in if entries = [] then x'\<lparr>rd_token := Some m\<rparr> else x') h"

definition leave_key :: "nat \<Rightarrow> hub \<Rightarrow> hub" where
  "leave_key r h =
     (let rs = filter (\<lambda>(q, _). q \<noteq> r) (hb_readers h)
      in if rs \<noteq> [] then h\<lparr>hb_readers := rs\<rparr>
         else h\<lparr>hb_readers := [], hb_subscribed := False, hb_queue := [], hb_last := None, hb_recovered := None\<rparr>)"

text \<open>
  What happens: events are written, a message arrives, the key is subscribed to, readers come, go on and go, and the
  subscriber is away, comes back and recovers what was written meanwhile.
\<close>

datatype happens = Writes | Arrives | Subscribes | Enters nat "nat option" | Proceeds nat | Leaves nat | Away | Back | Recovers | Recovered

fun hub_step :: "hub \<Rightarrow> happens \<Rightarrow> hub" where
  "hub_step h Writes = append_event h"
| "hub_step h Arrives = (case hb_queue h of [] \<Rightarrow> h | i # q \<Rightarrow> broadcast i (h\<lparr>hb_queue := q\<rparr>))"
| "hub_step h Subscribes = (if hb_readers h \<noteq> [] \<and> hb_up h then h\<lparr>hb_subscribed := True\<rparr> else h)"
| "hub_step h (Enters r given) = enter r given h"
| "hub_step h (Proceeds r) =
     (case map_of (hb_readers h) r of
        None \<Rightarrow> h
      | Some x \<Rightarrow>
          (case rd_stage x of
             Entered given \<Rightarrow> if hb_subscribed h then mark r given h else h
           | Marked given m \<Rightarrow> replay r given m h
           | Replayed m entries \<Rightarrow> begin_live r m entries h
           | Live \<Rightarrow> h))"
| "hub_step h (Leaves r) = leave_key r h"
| "hub_step h Away = h\<lparr>hb_up := False, hb_behind := True, hb_queue := []\<rparr>"
| "hub_step h Back = h\<lparr>hb_up := True\<rparr>"
| "hub_step h Recovers =
     (if hb_up h \<and> hb_behind h \<and> hb_readers h \<noteq> []
      then h\<lparr>hb_behind := False, hb_recovered := Some (read_stream (case hb_last h of None \<Rightarrow> 0 | Some l \<Rightarrow> l) h)\<rparr>
      else h)"
| "hub_step h Recovered =
     (case hb_recovered h of None \<Rightarrow> h | Some is \<Rightarrow> fold broadcast is (h\<lparr>hb_recovered := None\<rparr>))"


section \<open>What a reader is given\<close>

lemma events_nil [simp]: "b \<le> a \<Longrightarrow> events l a b = []"
  by (simp add: events_def)














lemma write_entry_frame [simp]:
  "rd_stage (write_entry i r) = rd_stage r" "rd_held (write_entry i r) = rd_held r" "rd_begins (write_entry i r) = rd_begins r"
  by (simp_all add: write_entry_def split: option.splits)



lemma write_entries_frame [simp]:
  "rd_stage (fold write_entry es r) = rd_stage r" "rd_held (fold write_entry es r) = rd_held r"
  "rd_begins (fold write_entry es r) = rd_begins r"
  by (induction es arbitrary: r) simp_all

section \<open>What a hub keeps\<close>








lemma deliver_frame [simp]:
  "rd_stage (deliver i r) = rd_stage r" "rd_begins (deliver i r) = rd_begins r"
  "rd_held r = Some held \<Longrightarrow> rd_cursor (deliver i r) = rd_cursor r"
  by (simp_all add: deliver_def split: option.splits)










lemma fst_readers [simp]: "fst \<circ> (\<lambda>(q, x). (q, f q x)) = fst"
  by (auto simp: fun_eq_iff)













section \<open>A subscriber that was away\<close>

text \<open>
  What was written meanwhile is read from the last event delivered. An event that comes by the channel, subscribed to again,
  before that read moves the place on, and what was written before it is never given; one that comes between the read and
  its delivery does the same, a reader skipping what is earlier than what it was given.
\<close>

definition being_away :: "happens list" where
  "being_away = [Enters 0 None, Subscribes, Proceeds 0, Proceeds 0, Proceeds 0, Away, Writes, Back, Writes]"

lemma missed_before_reading:
  "map (rd_given \<circ> snd) (hb_readers (foldl hub_step new_hub (being_away @ [Arrives, Recovers, Recovered]))) = [[3]]"
  by code_simp

lemma missed_while_reading:
  "map (rd_given \<circ> snd) (hb_readers (foldl hub_step new_hub (being_away @ [Recovers, Arrives, Recovered]))) = [[3]]"
  by code_simp

lemma missed_is_kept: "events (hb_log (foldl hub_step new_hub (being_away @ [Recovers, Arrives, Recovered]))) 1 3 = [2, 3]"
  by code_simp

text \<open>
  A reader that comes with no token, or to nothing new, is told its marker last, after an event that was held back for it: the
  token it goes on from is earlier than the last event it was given, which it is given again.
\<close>

lemma token_goes_back:
  "map (\<lambda>(q, r). (rd_given r, rd_token r))
     (hb_readers (foldl hub_step new_hub [Enters 0 None, Subscribes, Proceeds 0, Writes, Arrives, Proceeds 0, Proceeds 0])) = [([2], Some 1)]"
  by code_simp

section \<open>Shards\<close>

text \<open>A key falls to one of the connections, whatever it is.\<close>

lemma shard_bound: "0 < n \<Longrightarrow> shard key n < n"
  by (simp add: shard_def)

section \<open>Routes of events\<close>

text \<open>\<open>parse\<close>: the keys a component declares for an event, properties of its payload and literals.\<close>

record key_route =
  kr_event :: string
  kr_properties :: "string list"
  kr_literals :: "string list"
  kr_expose :: "string list"

definition literal :: "string \<Rightarrow> bool" where
  "literal key = (take 1 key = ''~'')"

definition parse_routes :: "(string \<times> string list \<times> string list) list \<Rightarrow> key_route list" where
  "parse_routes = map (\<lambda>(event, keys, expose).
     \<lparr>kr_event = event, kr_properties = filter (\<lambda>k. \<not> literal k) keys, kr_literals = filter literal keys, kr_expose = expose\<rparr>)"

text \<open>\<open>keysOf\<close> and \<open>fit\<close>.\<close>

definition key_value :: "val \<Rightarrow> string list \<Rightarrow> string list" where
  "key_value v keys = (case v of Str s \<Rightarrow> if literal s then keys else sadd s keys | _ \<Rightarrow> keys)"

definition property_keys :: "props \<Rightarrow> string \<Rightarrow> string list \<Rightarrow> string list" where
  "property_keys payload property keys =
     (case map_of payload property of None \<Rightarrow> keys | Some (Arr vs) \<Rightarrow> fold key_value vs keys | Some v \<Rightarrow> key_value v keys)"

definition keys_of :: "props \<Rightarrow> key_route \<Rightarrow> string list" where
  "keys_of payload route = fold sadd (kr_literals route) (fold (property_keys payload) (kr_properties route) [])"

definition fit_payload :: "props \<Rightarrow> string list \<Rightarrow> props" where
  "fit_payload payload expose = filter (\<lambda>(key, _). key \<in> set expose) payload"

text \<open>\<open>Destination\<close>: what a row is written to the streams as. Rendering is the component's.\<close>

record routed =
  ro_event :: string
  ro_keys :: "string list"
  ro_data :: props

definition route_row :: "string \<Rightarrow> (string \<Rightarrow> 'row \<Rightarrow> props option) \<Rightarrow> 'row \<Rightarrow> key_route \<Rightarrow> routed option" where
  "route_row component render row route =
     (case render (kr_event route) row of
        None \<Rightarrow> None
      | Some payload \<Rightarrow>
          (let keys = keys_of payload route
           in if keys = [] then None
              else Some \<lparr>ro_event = component @ ''.'' @ kr_event route, ro_keys = keys, ro_data = fit_payload payload (kr_expose route)\<rparr>))"

definition export_row :: "string \<Rightarrow> (string \<Rightarrow> 'row \<Rightarrow> props option) \<Rightarrow> key_route list \<Rightarrow> 'row \<Rightarrow> routed list option" where
  "export_row component render routes row =
     (let events = List.map_filter (route_row component render row) routes in if events = [] then None else Some events)"

text \<open>\<open>append\<close>: the keys of an event by the connection they are kept on.\<close>

definition key_shard :: "nat \<Rightarrow> string \<Rightarrow> nat" where
  "key_shard n key = shard (map of_char key) n"

definition by_shard :: "nat \<Rightarrow> string list \<Rightarrow> (nat \<times> string list) list" where
  "by_shard n keys = fold (\<lambda>key m. let i = key_shard n key in AList.update i (dget [] m i @ [key]) m) keys []"

section \<open>Directives\<close>

datatype rt_error = Names_no_key | Not_of_route | Names_no_event | Misread | No_schema | Not_implemented | Declared_twice
datatype rt_key = Literal string | Variable string
datatype rt_directive = Streaming rt_key | Pushing rt_key string props

text \<open>\<open>key\<close>, \<open>push\<close>, \<open>create\<close> and \<open>arrange\<close>.\<close>

definition create_key :: "val \<Rightarrow> string \<Rightarrow> rt_error + rt_key" where
  "create_key value route =
     (case value of
        Str s \<Rightarrow>
          if literal s then if length s = 1 then Inl Names_no_key else Inr (Literal s)
          else if sublist (CHR '':'' # s) route then Inr (Variable s) else Inl Not_of_route
      | _ \<Rightarrow> Inl Not_of_route)"

definition create_push :: "props \<Rightarrow> string \<Rightarrow> rt_error + rt_directive" where
  "create_push value route =
     (case dget Undef value ''event'' of
        Str event \<Rightarrow>
          if event = [] then Inl Names_no_event
          else if event = ''token'' \<or> CHR ''.'' \<in> set event then Inl Misread
          else (case dget Undef value ''input'' of
                  Obj input \<Rightarrow> rbind (create_key (dget Undef value ''key'') route) (\<lambda>key. Inr (Pushing key event input))
                | _ \<Rightarrow> Inl No_schema)
      | _ \<Rightarrow> Inl Names_no_event)"

definition create_realtime :: "string \<Rightarrow> val \<Rightarrow> string \<Rightarrow> rt_error + rt_directive" where
  "create_realtime name value route =
     (if name = ''stream'' then rbind (create_key value route) (\<lambda>key. Inr (Streaming key))
      else if name = ''push'' then create_push (case value of Obj ps \<Rightarrow> ps | _ \<Rightarrow> []) route
      else Inl Not_implemented)"

definition arrange_realtime :: "rt_directive list \<Rightarrow> rt_error + unit" where
  "arrange_realtime directives = (if 1 < length directives then Inl Declared_twice else Inr ())"

text \<open>
  \<open>precall\<close>: what a request is answered with. A request has the parameters of its route, a token, the length its header
  states and its body with what that takes.
\<close>

record 'b rt_request =
  rq_parameters :: "(string \<times> string) list"
  rq_token :: "string option"
  rq_length :: "string option"
  rq_body :: 'b
  rq_size :: nat
  rq_identity :: "string option"

datatype 'b rt_answer =
    Opens string "string option"
  | Pushes string string "string option" 'b
  | Missing_variable
  | Refuses_key
  | Not_configured
  | Too_large
  | Unfit string

definition LIMIT :: nat where
  "LIMIT = 65536"

definition serve_key :: "rt_key \<Rightarrow> 'b rt_request \<Rightarrow> 'b rt_answer + string" where
  "serve_key key rq =
     (case key of
        Literal k \<Rightarrow> Inr k
      | Variable v \<Rightarrow>
          (case map_of (rq_parameters rq) v of
             None \<Rightarrow> Inl Missing_variable
           | Some k \<Rightarrow> if literal k then Inl Refuses_key else Inr k))"

definition serve_push :: "(props \<Rightarrow> 'b \<Rightarrow> string option) \<Rightarrow> string \<Rightarrow> props \<Rightarrow> string \<Rightarrow> 'b rt_request \<Rightarrow> 'b rt_answer" where
  "serve_push fits event input key rq =
     (let stated = js_Number_opt (rq_length rq)
      in if num_lt (num_of_nat LIMIT) stated then Too_large
         else if stated = NaN \<and> LIMIT < rq_size rq then Too_large
         else case fits input (rq_body rq) of Some e \<Rightarrow> Unfit e | None \<Rightarrow> Pushes key event (rq_identity rq) (rq_body rq))"

definition serve_realtime :: "bool \<Rightarrow> (props \<Rightarrow> 'b \<Rightarrow> string option) \<Rightarrow> rt_directive \<Rightarrow> 'b rt_request \<Rightarrow> 'b rt_answer" where
  "serve_realtime configured fits directive rq =
     (case serve_key (case directive of Streaming k \<Rightarrow> k | Pushing k _ _ \<Rightarrow> k) rq of
        Inl a \<Rightarrow> a
      | Inr key \<Rightarrow>
          if \<not> configured then Not_configured
          else case directive of Streaming _ \<Rightarrow> Opens key (rq_token rq) | Pushing _ event input \<Rightarrow> serve_push fits event input key rq)"

section \<open>What reaches a key\<close>

text \<open>Whoever writes the values of a payload reaches no literal the route does not state.\<close>

definition plain_keys :: "string list \<Rightarrow> bool" where
  "plain_keys keys \<longleftrightarrow> (\<forall>k\<in>set keys. \<not> literal k)"

lemma fold_keeps: "(\<And>x a. P a \<Longrightarrow> P (f x a)) \<Longrightarrow> P a \<Longrightarrow> P (fold f xs a)"
  by (induction xs arbitrary: a) auto

lemma key_value_plain: "plain_keys keys \<Longrightarrow> plain_keys (key_value v keys)"
  by (auto simp: key_value_def plain_keys_def split: val.splits)

lemma property_keys_plain: "plain_keys keys \<Longrightarrow> plain_keys (property_keys payload p keys)"
  using fold_keeps [of plain_keys key_value keys] key_value_plain
  by (auto simp: property_keys_def split: option.splits val.splits)

lemma set_fold_sadd: "set (fold sadd xs ys) = set xs \<union> set ys"
  by (induction xs arbitrary: ys) auto

theorem literals_out_of_reach:
  assumes "literal k"
  shows "k \<in> set (keys_of payload route) \<longleftrightarrow> k \<in> set (kr_literals route)"
proof -
  have "plain_keys (fold (property_keys payload) (kr_properties route) [])"
    by (rule fold_keeps) (simp_all add: property_keys_plain, simp add: plain_keys_def)
  then have "k \<notin> set (fold (property_keys payload) (kr_properties route) [])"
    using assms by (auto simp: plain_keys_def)
  then show ?thesis
    by (simp add: keys_of_def set_fold_sadd)
qed

text \<open>Nor does whoever names the key of a stream by a variable of the route.\<close>

lemma variable_never_literal: "serve_key (Variable v) rq = Inr k \<Longrightarrow> \<not> literal k"
  by (auto simp: serve_key_def split: option.splits if_splits)

text \<open>What another region or a stream is given of an event is what its route exposes.\<close>

lemma exposed_only:
  "route_row component render row route = Some r \<Longrightarrow> fst ` set (ro_data r) \<subseteq> set (kr_expose route)"
  by (auto simp: route_row_def fit_payload_def Let_def split: option.splits if_splits)

text \<open>A push says neither a token nor a routed event, and no more than the limit of what its length is stated for.\<close>

lemma push_told_apart:
  "create_realtime name value route = Inr (Pushing key event input) \<Longrightarrow> event \<noteq> ''token'' \<and> event \<noteq> component @ ''.'' @ label"
  by (auto simp: create_realtime_def create_push_def result_simps split: if_splits val.splits)

lemma push_bounded:
  "serve_push fits event input key rq = Pushes k e i b \<Longrightarrow>
    num_le (js_Number_opt (rq_length rq)) (num_of_nat LIMIT) \<or> js_Number_opt (rq_length rq) = NaN \<and> rq_size rq \<le> LIMIT"
  using num_lt_iff_not_le [of "num_of_nat LIMIT" "js_Number_opt (rq_length rq)"]
  by (auto simp: serve_push_def Let_def split: if_splits option.splits)

text \<open>
  A variable is looked for in the route as text, so the beginning of one's name passes, and every request is then answered
  that the variable is not found.
\<close>

lemma prefix_of_variable: "create_realtime ''stream'' (Str ''room'') ''/rooms/:room-id/'' = Inr (Streaming (Variable ''room''))"
  by code_simp

text \<open>Each key is written to once, by the connection it falls to.\<close>

lemma by_shard_append: "by_shard n (keys @ [k]) = (let m = by_shard n keys; i = key_shard n k in AList.update i (dget [] m i @ [k]) m)"
  by (simp add: by_shard_def Let_def)

theorem by_shard_filters: "dget [] (by_shard n keys) i = filter (\<lambda>k. key_shard n k = i) keys"
proof (induction keys arbitrary: i rule: rev_induct)
  case (snoc k keys)
  then show ?case
    by (cases "i = key_shard n k") (auto simp: by_shard_append Let_def)
qed (simp add: by_shard_def dget_def)

end
