(* ===== verification/Spec2Isabelle.thy ===== *)
theory Spec2Isabelle
  imports Exceptions Identity Trail Contract Schemas Query Entity Outbox State Operation Mongo
    Invocation Call Connector Convergence Routing Directives Querystring Gateway
    Atomicity Throttle Auth Cadence Dispatcher Continuity Streams Connection Context Migration HTTP
    Realtime
begin

text \<open>
  Toa: the runtime of a framework of stateful components, and what it keeps true.

  A component declares an entity, operations over it and events of it. The runtime serves calls to
  its operations, reads and commits the entity through a storage, publishes what was committed
  through an outbox, and carries calls and events between components over bindings.

  \<^bold>\<open>The program and the theories.\<close> Paths are under \<open>src/\<close>; \<open>core\<close> is \<open>runtime/core/source\<close>.

  \<^item> \<open>Prelude\<close>: values of the language as the runtime meets them (\<open>val\<close>), numbers and their parsing,
    strings, sets held as lists in insertion order, and the lemmas on them the components share.
  \<^item> \<open>Exceptions\<close>: \<open>core/exceptions.ts\<close>. Codes, derived exceptions, which failures are permanent.
  \<^item> \<open>Identity\<close>: \<open>core/entities/newid.ts\<close>. Derived identities: how parts are framed into one name and
    what shape the result has; the digest is a parameter.
  \<^item> \<open>Trail\<close>: \<open>core/trail.ts\<close>. The chain of hops a call arrives with and the breaker that refuses it.
  \<^item> \<open>Contract\<close>: \<open>core/contract/{component,system}.ts\<close>. What a component publishes and what a caller
    restores of it.
  \<^item> \<open>Schemas\<close>: \<open>core/contract/{contract,request,reply,schemas}.ts\<close>. What a request and a reply are held
    to, as JSON schemas; validating against one is a parameter.
  \<^item> \<open>Query\<close>: \<open>core/query.ts\<close>, \<open>core/query/*.ts\<close>. Criteria, options, projection, and the cache of
    parsed criteria; the grammar is a parameter.
  \<^item> \<open>Entity\<close>: \<open>core/entities/*.ts\<close>, \<open>core/guard.ts\<close>. An entity being read, guarded, set and stamped.
  \<^item> \<open>Outbox\<close>: \<open>core/outbox.ts\<close>. A process's outbox as a record and its atomic steps (between two
    suspensions of the code) as functions; several replicas over one storage as a step relation.
    The locale \<open>outbox_storage\<close> is what the outbox asks of a storage.
  \<^item> \<open>State\<close>: \<open>core/state.ts\<close>. The operations of a component's state over a storage; the locale
    \<open>entity_storage\<close> is what it asks of one.
  \<^item> \<open>Operation\<close>: \<open>core/{operation,transition,assignment,observation,effect,unmanaged,cascade,safety,
    parts}.ts\<close> and \<open>libraries/generic/source/retry.js\<close>. The handler of a call, from the contract to
    the restricted reply, with the retries of a transition and the record of a call made once.
  \<^item> \<open>Mongo\<close>: \<open>connectors/storages.mongodb/src/{storage,outbox,inbox}.js\<close>. The storage the runtime is
    deployed with. It interprets \<open>outbox_storage\<close> and \<open>entity_storage\<close>, so what is proved in the
    locales is proved of it.
  \<^item> \<open>Streams\<close>: \<open>connectors/storages.mongodb/src/{streams,match,record,translate}.js\<close> and \<open>translate/*.js\<close>.
    A collection read as a stream: what a query is translated to, what it matches, tokens, windows, changes.
  \<^item> \<open>Migration\<close>: \<open>connectors/storages.mongodb/src/{migrations,indexes}.js\<close>. The steps of migrations, and the
    replicas that claim, apply and take them over.
  \<^item> \<open>Invocation\<close>: the properties of a call over that storage.
  \<^item> \<open>Call\<close>: \<open>core/{call,transmission,abandon,component,remote,receiver,event,emission,rendering,
    regional,instance,locator}.ts\<close>. How a call is made, carried and received, and how an event becomes
    a message and a message a request.
  \<^item> \<open>Context\<close>: \<open>core/{context,deliveries,encoded}.ts\<close>. The remotes an operation calls, and the deliveries of
    a process.
  \<^item> \<open>Connector\<close>: \<open>core/{connector,gate}.ts\<close>. The hierarchy of connections and the walks that halt and
    restore it. \<open>Connection\<close> has how it is brought up and taken down, every call of it interleaved with every other.
  \<^item> \<open>Convergence\<close>: \<open>extensions/convergence/source/*.ts\<close>. What makes two regions hold the same records;
    the locale \<open>convergent_storage\<close> is what it asks of a storage, and \<open>Mongo\<close> interprets it.
  \<^item> \<open>Atomicity\<close>: \<open>connectors/atomicity/src/*.js\<close>. What replicas decide together: the slots each owns and
    the debt they have run up, with the script Redis runs.
  \<^item> \<open>Routing\<close>: \<open>exposition/source/RTD/{Tree,Node,Route,segment,factory}.ts\<close>, where \<open>exposition\<close> is
    \<open>extensions/exposition\<close>. The tree of routes: building, matching, merging of branches, expiration.
  \<^item> \<open>Directives\<close>: \<open>exposition/source/Directive.ts\<close>. How families of directives are ordered and run.
  \<^item> \<open>Querystring\<close>: \<open>exposition/source/{Query,Mapping,Endpoint}.ts\<close>, \<open>libraries/generic/source/quote.js\<close>.
    What of an HTTP request becomes the request of a call.
  \<^item> \<open>Gateway\<close>: \<open>exposition/source/{Gateway,Branch}.ts\<close>. Branches exposed by components, and the route a
    request takes.
  \<^item> \<open>HTTP\<close>: \<open>exposition/source/HTTP/{Server,Context,messages,exceptions,address}.ts\<close>, \<open>exposition/source/exceptions.ts\<close>.
    Which requests reach the gateway, what is answered, and how a reply that streams is framed.
  \<^item> \<open>Realtime\<close>: \<open>exposition/source/directives/realtime/{Realtime,Hub,Stream}.ts\<close>,
    \<open>exposition/source/realtime/*.ts\<close>. Events routed to keys and the streams of a key: its readers, the channel
    and the subscriber that may be away, interleaved.
  \<^item> \<open>Throttle\<close>: \<open>exposition/source/directives/io/Throttle.ts\<close> and \<open>io/lib/throttle\<close>. Quotas, and their
    reconciliation with the group through the meter of \<open>Atomicity\<close>.
  \<^item> \<open>Auth\<close>: \<open>exposition/source/directives/auth\<close>. Who a credential names and what each directive decides;
    the identity components are a record of functions.
  \<^item> \<open>Cadence\<close>: \<open>extensions/cadence/source/{row,Schedule,Pulse,Scheduler,Aspect,Factory}.ts\<close>, the operations
    of its metronome and \<open>definitions/source/extensions.cadence\<close>. Calls made later: rows, schedules, pulses.
  \<^item> \<open>Dispatcher\<close>: \<open>extensions/cadence/source/Dispatcher.ts\<close>. What makes those calls: the pieces of its code
    between awaits as functions, and its replicas over one metronome as a step relation.
  \<^item> \<open>Continuity\<close>: \<open>extensions/continuity/source/{answers,fingerprint,Journal,Run,Factory}.ts\<close> and the journal's
    operations. What a step of an operation asks and what is kept of its answer; the attempts of one run over
    one journal as a step relation. \<open>Reorder\<close> holds what it shares with \<open>Cadence\<close> of keys put in order.

  \<^bold>\<open>What is shown.\<close> A call declared \<open>once\<close> changes state once, also where two arrivals race; a
  transition replaces the version it read and no other; a refused call and a safe operation write
  nothing. A row of the outbox is settled only for destinations that confirmed it, and a replica reads its own lanes only. Regions that exchange
  records agree, whatever the order and the repetition of deliveries. A chain of calls is bounded
  while its breaker is on, and a call that may only read reaches only what is safe. Identities are
  injective in their parts. A contract survives being published and restored. Parsing with a cache
  is parsing without one. A halt reaches what it should and a restore undoes it; what is taken down leaves
  nothing up that nothing holds, and a connector opens after what it depends on.

  At the gateway: a path is matched by a template that reads it, and merging a branch keeps what is
  protected; mandatory families run first and one that denies is the last to run; a call without an
  identity is refused where one is asked for, and what is not described to a caller is not the caller's
  to call; what a route declares is in the query whatever the caller asks, pages stay within their
  range, and a reply that streams is framed whole; a reader of a key misses no event while the subscriber is not away; a key of a quota spends no more than it was given, here and across the group. No two replicas
  read one row of an outbox. A call that was put off stays owed until there is a reason, whatever fails
  and whoever crashes; the next occurrence of a schedule is always stored; one replica makes the call of
  an interval. An operation that is continued picks up where it failed, and copies of a run agree. A copy
  kept by reading a collection as a stream becomes what its criteria select, whatever is written meanwhile. Migrations
  are applied in order, whatever becomes of the replicas. The remaining
  properties give the behaviour of each operation on every branch, errors included.

  \<^bold>\<open>Bounds.\<close> A transition is attempted at most \<open>RETRIES\<close> and one times, as the code bounds it; the walks
  of \<open>Connector\<close> end because each visits a connector once; the loop that lists the slots of a replica may
  not end where nothing was counted, and is shown to end otherwise; no other recursion needs a bound. The caps
  of the outbox, the limit of the cache and the limits of the trail are the constants of the code or
  what the environment gives.

  \<^bold>\<open>Not modelled.\<close> Spans, meters and logs. Failures of the driver and the retries they cause.
  The transports, the bridges to userland code, the
  validator, the RSQL grammar, the digest and MongoDB's own queries: each is a parameter,
  with what the code relies on stated where it is used. The platform's HTTP server and the formats of bodies, the endpoints of
  the gateway beside the tree and what directives add to a description. The other extensions, the
  normalisation of manifests, the command line and the deployment tooling.
\<close>

section \<open>Replicas of one outbox\<close>



end
